(* ===== verification/Go_Prelude.thy ===== *)
theory Go_Prelude
  imports
    Main
    "HOL-Library.Word"
    "HOL-Library.Char_ord"
    "HOL-Library.List_Lexorder"
    "HOL-Library.Product_Lexorder"
    "HOL-Library.Multiset"
    "HOL-Library.Code_Target_Nat"
begin

text \<open>
  Shared vocabulary of the development: the Go types the program uses everywhere (strings as byte
  lists, integers, results), number formatting (\<open>strconv.Itoa\<close>, \<open>%d\<close>, hexadecimal groups), string
  helpers, ranging over a Go map, and the generic lemmas on lists, separators and digit strings that
  the component theories rely on.
\<close>

named_theorems go_str \<open>membership facts about printed strings\<close>

section \<open>Types\<close>

text \<open>A fallible Go function returning \<open>(T, error)\<close> is a sum; \<open>Inl\<close> is the error.\<close>

type_synonym ('e, 'a) result = "'e + 'a"

fun bind_result :: "('e, 'a) result \<Rightarrow> ('a \<Rightarrow> ('e, 'b) result) \<Rightarrow> ('e, 'b) result" where
  "bind_result (Inl e) f = Inl e"
| "bind_result (Inr a) f = f a"

lemma bind_result_Inr:
  "bind_result m f = Inr b \<longleftrightarrow> (\<exists>a. m = Inr a \<and> f a = Inr b)"
  by (cases m) auto

lemma bind_result_Inl:
  "bind_result m f = Inl e \<longleftrightarrow> m = Inl e \<or> (\<exists>a. m = Inr a \<and> f a = Inl e)"
  by (cases m) auto

section \<open>Characters and digits\<close>

definition digit_char :: "nat \<Rightarrow> char" where
  "digit_char d = char_of (if d < 10 then 48 + d else 87 + d)"

definition digit_value :: "char \<Rightarrow> nat option" where
  "digit_value c = (let n = of_char c :: nat in
     if 48 \<le> n \<and> n \<le> 57 then Some (n - 48)
     else if 97 \<le> n \<and> n \<le> 102 then Some (n - 87)
     else if 65 \<le> n \<and> n \<le> 70 then Some (n - 55)
     else None)"

lemma of_char_digit_char:
  "d < 16 \<Longrightarrow> (of_char (digit_char d) :: nat) = (if d < 10 then 48 + d else 87 + d)"
  by (simp add: digit_char_def)

lemma digit_value_digit_char [simp]: "d < 16 \<Longrightarrow> digit_value (digit_char d) = Some d"
  by (auto simp: digit_value_def of_char_digit_char)

text \<open>A character that is no hexadecimal digit is no digit printed by \<^const>\<open>digit_char\<close>.\<close>

lemma digit_char_neq: "d < 16 \<Longrightarrow> digit_value c = None \<Longrightarrow> digit_char d \<noteq> c"
  by auto

text \<open>Numbers in base \<open>b\<close>, most significant digit first, no leading zero.\<close>

function radix_str :: "nat \<Rightarrow> nat \<Rightarrow> string" where
  "radix_str b n =
     (if b < 2 \<or> n < b then [digit_char n] else radix_str b (n div b) @ [digit_char (n mod b)])"
  by pat_completeness auto
termination
  by (relation "measure snd") auto

declare radix_str.simps [simp del]

definition radix_val :: "nat \<Rightarrow> string \<Rightarrow> nat option" where
  "radix_val b s = foldl (\<lambda>acc c. case acc of None \<Rightarrow> None
       | Some v \<Rightarrow> (case digit_value c of None \<Rightarrow> None
           | Some d \<Rightarrow> if d < b then Some (v * b + d) else None)) (Some 0) s"

lemma radix_val_Nil [simp]: "radix_val b [] = Some 0"
  by (simp add: radix_val_def)

lemma radix_val_snoc:
  "radix_val b (s @ [c]) =
     (case radix_val b s of None \<Rightarrow> None
      | Some v \<Rightarrow> (case digit_value c of None \<Rightarrow> None
          | Some d \<Rightarrow> if d < b then Some (v * b + d) else None))"
  by (simp add: radix_val_def)

lemma radix_val_radix_str:
  assumes "2 \<le> b" "b \<le> 16"
  shows "radix_val b (radix_str b n) = Some n"
  using assms
proof (induction b n rule: radix_str.induct)
  case (1 b n)
  show ?case
  proof (cases "n < b")
    case True
    with "1.prems" show ?thesis
      using radix_val_snoc [of b "[]"] by (simp add: radix_str.simps [of b n])
  next
    case False
    with "1.prems" have "radix_val b (radix_str b (n div b)) = Some (n div b)"
      using "1.IH" by simp
    moreover from "1.prems" have "n mod b < b" by simp
    moreover from this "1.prems" have "digit_value (digit_char (n mod b)) = Some (n mod b)"
      by (intro digit_value_digit_char) linarith
    ultimately show ?thesis
      using False "1.prems" by (simp add: radix_str.simps [of b n] radix_val_snoc)
  qed
qed

lemma radix_str_not_Nil [simp]: "radix_str b n \<noteq> []"
  by (subst radix_str.simps) simp

lemma set_radix_str:
  assumes "2 \<le> b" "b \<le> 16"
  shows "set (radix_str b n) \<subseteq> digit_char ` {..<b}"
  using assms
proof (induction b n rule: radix_str.induct)
  case (1 b n)
  from "1.prems" have "n mod b < b" by simp
  with 1 show ?case by (subst radix_str.simps) auto
qed

lemma length_radix_str:
  assumes "2 \<le> b" "n < b ^ k" "0 < k"
  shows "length (radix_str b n) \<le> k"
  using assms
proof (induction k arbitrary: n)
  case 0
  then show ?case by simp
next
  case (Suc k)
  show ?case
  proof (cases "n < b")
    case True
    then show ?thesis by (simp add: radix_str.simps [of b n])
  next
    case False
    with Suc.prems have "n div b < b ^ k" "0 < k"
      by (auto simp: less_mult_imp_div_less mult.commute intro!: Nat.gr0I)
    with Suc.IH [of "n div b"] Suc.prems False show ?thesis
      by (simp add: radix_str.simps [of b n])
  qed
qed

text \<open>No number but zero starts with the digit zero.\<close>

lemma hd_radix_str:
  assumes "2 \<le> b" "b \<le> 16" "0 < n"
  shows "hd (radix_str b n) \<noteq> digit_char 0"
  using assms
proof (induction b n rule: radix_str.induct)
  case (1 b n)
  show ?case
  proof (cases "n < b")
    case True
    with "1.prems" have "digit_value (digit_char n) \<noteq> digit_value (digit_char 0)" by simp
    with True show ?thesis by (subst radix_str.simps) auto
  next
    case False
    with 1 have "hd (radix_str b (n div b)) \<noteq> digit_char 0" by (simp add: div_greater_zero_iff)
    with False "1.prems" show ?thesis by (subst radix_str.simps) simp
  qed
qed

lemma inj_radix_str: "2 \<le> b \<Longrightarrow> b \<le> 16 \<Longrightarrow> radix_str b m = radix_str b n \<longleftrightarrow> m = n"
  by (metis radix_val_radix_str option.inject)

section \<open>Formatting verbs\<close>

text \<open>\<open>strconv.Itoa\<close> and \<open>%d\<close>; \<open>%t\<close>.\<close>

definition Itoa :: "int \<Rightarrow> string" where
  "Itoa i = (if i < 0 then CHR ''-'' # radix_str 10 (nat (- i)) else radix_str 10 (nat i))"

definition fmt_bool :: "bool \<Rightarrow> string" where
  "fmt_bool b = (if b then ''true'' else ''false'')"

lemma not_in_radix_str:
  "digit_value c = None \<Longrightarrow> 2 \<le> b \<Longrightarrow> b \<le> 16 \<Longrightarrow> c \<notin> set (radix_str b n)"
  using set_radix_str [of b n] by (force simp: digit_char_neq)

lemma digit_value_sep [simp]:
  "digit_value (CHR ''|'') = None" "digit_value (CHR ''.'') = None"
  "digit_value (CHR '':'') = None" "digit_value (CHR ''/'') = None"
  "digit_value (CHR ''%'') = None" "digit_value (CHR ''-'') = None"
  by (simp_all add: digit_value_def)

lemma in_Itoa [go_str]:
  "digit_value c = None \<Longrightarrow> c \<noteq> CHR ''-'' \<Longrightarrow> c \<notin> set (Itoa i)"
  by (simp add: Itoa_def not_in_radix_str)

lemma bar_fmt_bool [go_str]: "CHR ''|'' \<notin> set (fmt_bool b)"
  by (simp add: fmt_bool_def)

lemma Itoa_inj [simp]: "Itoa i = Itoa j \<longleftrightarrow> i = j"
proof -
  have minus: "CHR ''-'' # s \<noteq> radix_str 10 n" for s n
    using not_in_radix_str [of "CHR ''-''" 10 n] by (fastforce dest: arg_cong [of _ _ "\<lambda>xs. CHR ''-'' \<in> set xs"])
  show ?thesis
    using minus minus [symmetric] by (auto simp: Itoa_def inj_radix_str)
qed

lemma fmt_bool_inj [simp]: "fmt_bool a = fmt_bool b \<longleftrightarrow> a = b"
  by (simp add: fmt_bool_def)

section \<open>Separators\<close>

text \<open>
  A field that does not contain the separator can be read back from the front of a joined string,
  and from its end: the two facts behind the injectivity of the keys the planner prints.
\<close>

lemma sep_front:
  assumes "c \<notin> set a" "c \<notin> set b"
  shows "a @ c # x = b @ c # y \<longleftrightarrow> a = b \<and> x = y"
  using assms
proof (induction a arbitrary: b)
  case Nil
  then show ?case by (cases b) auto
next
  case (Cons d a)
  then show ?case by (cases b) auto
qed

lemma sep_back:
  assumes "c \<notin> set x" "c \<notin> set y"
  shows "a @ c # x = b @ c # y \<longleftrightarrow> a = b \<and> x = y"
proof -
  have "a @ c # x = b @ c # y \<longleftrightarrow> rev x @ c # rev a = rev y @ c # rev b"
    by (subst rev_is_rev_conv [symmetric]) simp
  also have "\<dots> \<longleftrightarrow> rev x = rev y \<and> rev a = rev b"
    by (rule sep_front) (use assms in simp_all)
  finally show ?thesis by auto
qed

text \<open>Splitting at every separator, and joining (\<open>strings.Split\<close>, \<open>strings.Join\<close>).\<close>

fun split_on :: "'a \<Rightarrow> 'a list \<Rightarrow> 'a list list" where
  "split_on c [] = [[]]"
| "split_on c (x # xs) =
     (if x = c then [] # split_on c xs
      else (case split_on c xs of [] \<Rightarrow> [[x]] | f # fs \<Rightarrow> (x # f) # fs))"

fun join_with :: "'a list \<Rightarrow> 'a list list \<Rightarrow> 'a list" where
  "join_with sep [] = []"
| "join_with sep [f] = f"
| "join_with sep (f # fs) = f @ sep @ join_with sep fs"

lemma split_on_not_Nil [simp]: "split_on c xs \<noteq> []"
  by (induction xs) (auto split: list.splits)

lemma split_on_free: "c \<notin> set f \<Longrightarrow> split_on c f = [f]"
  by (induction f) auto

lemma split_on_append:
  "c \<notin> set f \<Longrightarrow> split_on c (f @ c # xs) = f # split_on c xs"
  by (induction f) auto

lemma split_on_join:
  "fs \<noteq> [] \<Longrightarrow> (\<forall>f \<in> set fs. c \<notin> set f) \<Longrightarrow> split_on c (join_with [c] fs) = fs"
  by (induction "[c]" fs rule: join_with.induct) (auto simp: split_on_free split_on_append)

lemma join_split_on: "join_with [c] (split_on c xs) = xs"
proof (induction xs)
  case (Cons x xs)
  obtain f fs where "split_on c xs = f # fs" by (cases "split_on c xs") auto
  with Cons show ?case by (cases fs) auto
qed simp

lemma set_join_with: "set (join_with sep fs) \<subseteq> set sep \<union> (\<Union>f \<in> set fs. set f)"
  by (induction sep fs rule: join_with.induct) auto

lemma join_with_Cons: "fs \<noteq> [] \<Longrightarrow> join_with sep (f # fs) = f @ sep @ join_with sep fs"
  by (cases fs) auto

section \<open>Ranging over a Go map\<close>

text \<open>
  A Go map built by assignments in a loop is kept as the list of its distinct keys in order of
  first insertion together with the last value stored for each. Ranging over it visits the keys in
  an order the language does not fix: \<open>ord\<close> stands for the runtime's choice, and all that is known
  of it is that every key is visited once.
\<close>

type_synonym range_order = "string list \<Rightarrow> string list"

definition is_range_order :: "range_order \<Rightarrow> bool" where
  "is_range_order ord \<longleftrightarrow> (\<forall>ks. mset (ord ks) = mset ks)"

fun go_map_set :: "(string \<times> 'v) list \<Rightarrow> string \<Rightarrow> 'v \<Rightarrow> (string \<times> 'v) list" where
  "go_map_set [] k v = [(k, v)]"
| "go_map_set ((k', v') # m) k v = (if k = k' then (k, v) # m else (k', v') # go_map_set m k v)"

definition go_map_range :: "range_order \<Rightarrow> (string \<times> 'v) list \<Rightarrow> (string \<times> 'v) list" where
  "go_map_range ord m = map (\<lambda>k. (k, the (map_of m k))) (ord (map fst m))"

lemma map_of_go_map_set [simp]: "map_of (go_map_set m k v) = (map_of m)(k \<mapsto> v)"
  by (induction m k v rule: go_map_set.induct) auto

lemma fst_go_map_set: "fst ` set (go_map_set m k v) = insert k (fst ` set m)"
  by (induction m k v rule: go_map_set.induct) auto

lemma distinct_go_map_set:
  "distinct (map fst m) \<Longrightarrow> distinct (map fst (go_map_set m k v))"
  by (induction m k v rule: go_map_set.induct) (auto simp: fst_go_map_set)

lemma is_range_orderD:
  assumes "is_range_order ord"
  shows "set (ord ks) = set ks" "distinct (ord ks) \<longleftrightarrow> distinct ks"
proof -
  have "mset (ord ks) = mset ks" using assms by (simp add: is_range_order_def)
  then show "set (ord ks) = set ks" "distinct (ord ks) \<longleftrightarrow> distinct ks"
    by (auto dest: mset_eq_setD mset_eq_imp_distinct_iff)
qed

lemma set_go_map_range:
  assumes "is_range_order ord" "distinct (map fst m)"
  shows "set (go_map_range ord m) = set m"
proof -
  have "(\<lambda>k. (k, the (map_of m k))) ` fst ` set m = (\<lambda>e. e) ` set m"
    unfolding image_image
    by (rule image_cong) (use assms(2) in \<open>auto dest: map_of_is_SomeI\<close>)
  then show ?thesis
    using assms(1) by (simp add: go_map_range_def is_range_orderD)
qed

lemma is_range_order_id [simp]: "is_range_order (\<lambda>ks. ks)" "is_range_order rev"
  by (simp_all add: is_range_order_def)

section \<open>Trimming\<close>

text \<open>
  \<open>strings.TrimSpace\<close> removes leading and trailing Unicode white space. Strings are UTF-8 byte
  sequences, so the white space runes are listed by their encodings.
\<close>

definition byte :: "nat \<Rightarrow> char" where
  "byte n = char_of n"

definition space_runes :: "string list" where
  "space_runes =
     map (\<lambda>n. [byte n]) [9, 10, 11, 12, 13, 32]
     @ [[byte 194, byte 133], [byte 194, byte 160], [byte 225, byte 154, byte 128]]
     @ map (\<lambda>n. [byte 226, byte 128, byte n])
         [128, 129, 130, 131, 132, 133, 134, 135, 136, 137, 138, 168, 169, 175]
     @ [[byte 226, byte 129, byte 159], [byte 227, byte 128, byte 128]]"

function strip_runes :: "string list \<Rightarrow> string \<Rightarrow> string" where
  "strip_runes rs s =
     (case find (\<lambda>r. r \<noteq> [] \<and> s \<noteq> [] \<and> take (length r) s = r) rs of
        None \<Rightarrow> s
      | Some r \<Rightarrow> strip_runes rs (drop (length r) s))"
  by pat_completeness auto
termination
  by (relation "measure (\<lambda>(rs, s). length s)") (auto simp: find_Some_iff)

declare strip_runes.simps [simp del]

definition TrimSpace :: "string \<Rightarrow> string" where
  "TrimSpace s = rev (strip_runes (map rev space_runes) (rev (strip_runes space_runes s)))"

lemma strip_runes_suffix: "\<exists>p. s = p @ strip_runes rs s"
proof (induction rs s rule: strip_runes.induct)
  case (1 rs s)
  show ?case
  proof (cases "find (\<lambda>r. r \<noteq> [] \<and> s \<noteq> [] \<and> take (length r) s = r) rs")
    case None
    then show ?thesis by (simp add: strip_runes.simps [of rs s])
  next
    case (Some r)
    with 1 obtain p where "drop (length r) s = p @ strip_runes rs (drop (length r) s)" by blast
    with Some show ?thesis
      by (subst strip_runes.simps) (metis append_assoc append_take_drop_id option.simps(5))
  qed
qed

lemma set_TrimSpace: "set (TrimSpace s) \<subseteq> set s"
proof -
  have *: "set (strip_runes rs t) \<subseteq> set t" for rs t
    using strip_runes_suffix [of t rs] by (metis set_append sup_ge2)
  show ?thesis
    using * [of "map rev space_runes" "rev (strip_runes space_runes s)"] * [of space_runes s]
    by (auto simp: TrimSpace_def)
qed

section \<open>Machine arithmetic\<close>

text \<open>Go's \<open>int\<close> has 64 bits; the wrap-around is written out where an overflow can be reached.\<close>

definition int64 :: "int \<Rightarrow> int" where
  "int64 x = (x + 2 ^ 63) mod 2 ^ 64 - 2 ^ 63"

lemma int64_id: "- (2 ^ 63) \<le> x \<Longrightarrow> x < 2 ^ 63 \<Longrightarrow> int64 x = x"
  by (simp add: int64_def)

end
