(* ===== verification/Netip.thy ===== *)
theory Netip
  imports Go_Prelude
begin

text \<open>
  The values of Go's \<open>net/netip\<close> that every component of the program computes with: addresses
  (\<open>netip.Addr\<close>: invalid, IPv4, or IPv6 with an optional zone) and prefixes (\<open>netip.Prefix\<close>), with
  the operations the sources call. Addresses are machine words of 32 and 128 bits, masks are bitwise
  operations; the second half of the theory reads them as natural numbers, which is what the
  proofs about routing prefixes use: a prefix is an aligned interval of addresses.
\<close>

unbundle bit_operations_syntax

section \<open>Addresses\<close>

datatype Addr = AddrZero | Addr4 "32 word" | Addr6 "128 word" string

fun Is4 :: "Addr \<Rightarrow> bool" where
  "Is4 (Addr4 w) = True"
| "Is4 _ = False"

fun Is6 :: "Addr \<Rightarrow> bool" where
  "Is6 (Addr6 w z) = True"
| "Is6 _ = False"

definition Addr_IsValid :: "Addr \<Rightarrow> bool" where
  "Addr_IsValid a \<longleftrightarrow> a \<noteq> AddrZero"

fun BitLen :: "Addr \<Rightarrow> nat" where
  "BitLen AddrZero = 0"
| "BitLen (Addr4 w) = 32"
| "BitLen (Addr6 w z) = 128"

fun Zone :: "Addr \<Rightarrow> string" where
  "Zone (Addr6 w z) = z"
| "Zone _ = []"

fun withoutZone :: "Addr \<Rightarrow> Addr" where
  "withoutZone (Addr6 w z) = Addr6 w []"
| "withoutZone a = a"

text \<open>\<open>Addr.Is4In6\<close> and \<open>Addr.Unmap\<close>: the block \<open>::ffff:0:0/96\<close>.\<close>

fun Is4In6 :: "Addr \<Rightarrow> bool" where
  "Is4In6 (Addr6 w z) = (drop_bit 32 w = 65535)"
| "Is4In6 _ = False"

fun Unmap :: "Addr \<Rightarrow> Addr" where
  "Unmap (Addr6 w z) = (if Is4In6 (Addr6 w z) then Addr4 (ucast w) else Addr6 w z)"
| "Unmap a = a"

text \<open>The classification predicates; a mapped IPv4 address is classified as that IPv4 address.\<close>

definition IsLoopback :: "Addr \<Rightarrow> bool" where
  "IsLoopback a = (case Unmap a of AddrZero \<Rightarrow> False
     | Addr4 w \<Rightarrow> drop_bit 24 w = 127
     | Addr6 w z \<Rightarrow> w = 1)"

definition IsPrivate :: "Addr \<Rightarrow> bool" where
  "IsPrivate a = (case Unmap a of AddrZero \<Rightarrow> False
     | Addr4 w \<Rightarrow> drop_bit 24 w = 10 \<or> drop_bit 20 w = 2753 \<or> drop_bit 16 w = 49320
     | Addr6 w z \<Rightarrow> drop_bit 121 w = 126)"

definition IsLinkLocalUnicast :: "Addr \<Rightarrow> bool" where
  "IsLinkLocalUnicast a = (case Unmap a of AddrZero \<Rightarrow> False
     | Addr4 w \<Rightarrow> drop_bit 16 w = 43518
     | Addr6 w z \<Rightarrow> drop_bit 118 w = 1018)"

definition IsMulticast :: "Addr \<Rightarrow> bool" where
  "IsMulticast a = (case Unmap a of AddrZero \<Rightarrow> False
     | Addr4 w \<Rightarrow> drop_bit 28 w = 14
     | Addr6 w z \<Rightarrow> drop_bit 120 w = 255)"

definition IsGlobalUnicast :: "Addr \<Rightarrow> bool" where
  "IsGlobalUnicast a = (let u = Unmap a in
     if u = AddrZero then False
     else if Is4 u \<and> (u = Addr4 0 \<or> u = Addr4 (- 1)) then False
     else u \<noteq> Addr6 0 [] \<and> \<not> IsLoopback u \<and> \<not> IsMulticast u \<and> \<not> IsLinkLocalUnicast u)"

text \<open>The number an address denotes, and \<open>Addr.Less\<close>: width, value, zone, in this order.\<close>

fun addr_val :: "Addr \<Rightarrow> nat" where
  "addr_val AddrZero = 0"
| "addr_val (Addr4 w) = unat w"
| "addr_val (Addr6 w z) = unat w"

definition Addr_Less :: "Addr \<Rightarrow> Addr \<Rightarrow> bool" where
  "Addr_Less a b \<longleftrightarrow> (BitLen a, addr_val a, Zone a) < (BitLen b, addr_val b, Zone b)"

lemma Addr_key_eq: "(BitLen a, addr_val a, Zone a) = (BitLen b, addr_val b, Zone b) \<longleftrightarrow> a = b"
  by (cases a; cases b) (auto simp: word_unat_eq_iff)

instantiation Addr :: linorder
begin

definition less_Addr :: "Addr \<Rightarrow> Addr \<Rightarrow> bool" where
  "less_Addr = Addr_Less"

definition less_eq_Addr :: "Addr \<Rightarrow> Addr \<Rightarrow> bool" where
  "less_eq_Addr a b \<longleftrightarrow> (BitLen a, addr_val a, Zone a) \<le> (BitLen b, addr_val b, Zone b)"

instance
proof
  fix a b c :: Addr
  show "a < b \<longleftrightarrow> a \<le> b \<and> \<not> b \<le> a"
    unfolding less_Addr_def Addr_Less_def less_eq_Addr_def by (rule less_le_not_le)
  show "a \<le> a" unfolding less_eq_Addr_def by (rule order_refl)
  show "a \<le> b \<Longrightarrow> b \<le> c \<Longrightarrow> a \<le> c" unfolding less_eq_Addr_def by (rule order_trans)
  show "a \<le> b \<Longrightarrow> b \<le> a \<Longrightarrow> a = b"
    unfolding less_eq_Addr_def using Addr_key_eq antisym by blast
  show "a \<le> b \<or> b \<le> a" unfolding less_eq_Addr_def by (rule linear)
qed

end

section \<open>Prefixes\<close>

datatype Prefix = MkPrefix (Prefix_Addr: Addr) (bitsPlusOne: nat)

abbreviation PrefixZero :: Prefix where
  "PrefixZero \<equiv> MkPrefix AddrZero 0"

definition Prefix_Bits :: "Prefix \<Rightarrow> int" where
  "Prefix_Bits p = int (bitsPlusOne p) - 1"

definition Prefix_IsValid :: "Prefix \<Rightarrow> bool" where
  "Prefix_IsValid p \<longleftrightarrow> 0 < bitsPlusOne p"

definition PrefixFrom :: "Addr \<Rightarrow> int \<Rightarrow> Prefix" where
  "PrefixFrom ip bits =
     MkPrefix (withoutZone ip)
       (if ip \<noteq> AddrZero \<and> 0 \<le> bits \<and> bits \<le> int (BitLen ip) then nat bits + 1 else 0)"

text \<open>\<open>Addr.Prefix\<close> keeps the top bits of the address; an out-of-range length is an error.\<close>

definition keep_top :: "nat \<Rightarrow> 'a::len word \<Rightarrow> 'a word" where
  "keep_top b w = w AND NOT (mask (LENGTH('a) - b))"

fun Addr_Prefix :: "Addr \<Rightarrow> int \<Rightarrow> Prefix option" where
  "Addr_Prefix AddrZero b = (if b < 0 then None else Some PrefixZero)"
| "Addr_Prefix (Addr4 w) b =
     (if b < 0 \<or> 32 < b then None else Some (PrefixFrom (Addr4 (keep_top (nat b) w)) b))"
| "Addr_Prefix (Addr6 w z) b =
     (if b < 0 \<or> 128 < b then None else Some (PrefixFrom (Addr6 (keep_top (nat b) w) z) b))"

definition Masked :: "Prefix \<Rightarrow> Prefix" where
  "Masked p = (case Addr_Prefix (Prefix_Addr p) (Prefix_Bits p) of
     None \<Rightarrow> PrefixZero | Some q \<Rightarrow> q)"

text \<open>
  \<open>Prefix.Contains\<close>: the IPv4 case shifts the differing bits out, the IPv6 case masks them.
\<close>

fun Contains_bits :: "nat \<Rightarrow> Addr \<Rightarrow> Addr \<Rightarrow> bool" where
  "Contains_bits b (Addr4 w) (Addr4 x) = (drop_bit (32 - b) (x XOR w) = 0)"
| "Contains_bits b (Addr6 w z) (Addr6 x z') = (keep_top b (x XOR w) = 0)"
| "Contains_bits b _ _ = False"

definition Contains :: "Prefix \<Rightarrow> Addr \<Rightarrow> bool" where
  "Contains p ip \<longleftrightarrow>
     Prefix_IsValid p \<and> Zone ip = [] \<and> Contains_bits (bitsPlusOne p - 1) (Prefix_Addr p) ip"

section \<open>Prefixes as intervals of numbers\<close>

text \<open>
  \<open>pfx_wf\<close> is the representation invariant of \<open>netip.Prefix\<close>; \<open>pfx_ok\<close> is what the program keeps
  of every prefix it stores: valid, and equal to its own \<open>Masked()\<close> form. \<open>free_bits\<close> is the number
  of host bits.
\<close>

definition pfx_wf :: "Prefix \<Rightarrow> bool" where
  "pfx_wf p \<longleftrightarrow> Zone (Prefix_Addr p) = [] \<and> bitsPlusOne p \<le> BitLen (Prefix_Addr p) + 1
     \<and> (Prefix_Addr p = AddrZero \<longrightarrow> bitsPlusOne p = 0)"

definition pfx_ok :: "Prefix \<Rightarrow> bool" where
  "pfx_ok p \<longleftrightarrow> pfx_wf p \<and> Prefix_IsValid p \<and> Masked p = p"

definition free_bits :: "Prefix \<Rightarrow> nat" where
  "free_bits p = BitLen (Prefix_Addr p) + 1 - bitsPlusOne p"

lemma keep_top_push: "keep_top b (w :: 'a::len word) =
    push_bit (LENGTH('a) - b) (drop_bit (LENGTH('a) - b) w)"
  unfolding keep_top_def by (rule bit_eqI) (auto simp: bit_simps)

lemma unat_drop: "unat (drop_bit k (w :: 'a::len word)) = unat w div 2 ^ k"
  by (simp add: unat_drop_bit_eq drop_bit_eq_div [where 'a = nat])

lemma unat_keep_top:
  "unat (keep_top b (w :: 'a::len word)) =
     unat w div 2 ^ (LENGTH('a) - b) * 2 ^ (LENGTH('a) - b)"
proof -
  let ?k = "LENGTH('a) - b"
  have "unat w div 2 ^ ?k * 2 ^ ?k \<le> unat w" by simp
  also have "\<dots> < 2 ^ LENGTH('a)" by simp
  finally have "take_bit LENGTH('a) (unat w div 2 ^ ?k * 2 ^ ?k) = unat w div 2 ^ ?k * 2 ^ ?k"
    by (rule take_bit_nat_eq_self)
  then show ?thesis
    by (simp add: keep_top_push unsigned_push_bit_eq unat_drop push_bit_eq_mult [where 'a = nat])
qed

lemma drop_xor_zero: "drop_bit k (x XOR w) = 0 \<longleftrightarrow> drop_bit k x = drop_bit k (w :: 'a::len word)"
  by (auto simp: bit_eq_iff bit_simps)

lemma keep_xor_zero:
  "keep_top b (x XOR w) = 0 \<longleftrightarrow>
     drop_bit (LENGTH('a) - b) x = drop_bit (LENGTH('a) - b) (w :: 'a::len word)"
proof -
  have "keep_top b (x XOR w) = 0 \<longleftrightarrow> drop_bit (LENGTH('a) - b) (x XOR w) = 0"
  proof
    assume "keep_top b (x XOR w) = 0"
    then have "unat (x XOR w) div 2 ^ (LENGTH('a) - b) = 0"
      using unat_keep_top [of b "x XOR w"] by simp
    then show "drop_bit (LENGTH('a) - b) (x XOR w) = 0"
      by (simp add: word_unat_eq_iff unat_drop del: drop_bit_xor)
  qed (simp add: keep_top_push del: drop_bit_xor)
  then show ?thesis by (simp only: drop_xor_zero)
qed

lemma unat_drop_eq:
  "drop_bit k x = drop_bit k (w :: 'a::len word) \<longleftrightarrow> unat x div 2 ^ k = unat w div 2 ^ k"
  by (simp add: word_unat_eq_iff unat_drop)

lemma Contains_iff:
  "Contains p a \<longleftrightarrow> Prefix_IsValid p \<and> Zone a = [] \<and> Prefix_Addr p \<noteq> AddrZero
     \<and> BitLen a = BitLen (Prefix_Addr p)
     \<and> addr_val a div 2 ^ free_bits p = addr_val (Prefix_Addr p) div 2 ^ free_bits p"
proof (cases p)
  case (MkPrefix ip n)
  show ?thesis
  proof (cases n)
    case 0
    with MkPrefix show ?thesis by (simp add: Contains_def Prefix_IsValid_def)
  next
    case (Suc m)
    with MkPrefix show ?thesis
      by (cases ip; cases a)
        (auto simp: Contains_def Prefix_IsValid_def free_bits_def keep_xor_zero drop_xor_zero
          unat_drop_eq simp del: drop_bit_xor)
  qed
qed

lemma free_bits_le: "Prefix_IsValid p \<Longrightarrow> free_bits p \<le> BitLen (Prefix_Addr p)"
  by (auto simp: free_bits_def Prefix_IsValid_def)

lemma unat_less_exp: "unat (w :: 32 word) < 4294967296"
    "unat (v :: 128 word) < 340282366920938463463374607431768211456"
  using unsigned_less [of w] unsigned_less [of v] by simp_all

lemma addr_val_less: "addr_val a < 2 ^ BitLen a"
  by (cases a) (simp_all add: unat_less_exp)

text \<open>What \<open>Masked\<close> computes, and the prefixes it leaves alone.\<close>

lemma Masked_simps:
  assumes "pfx_wf p" "Prefix_IsValid p"
  shows "bitsPlusOne (Masked p) = bitsPlusOne p"
    "BitLen (Prefix_Addr (Masked p)) = BitLen (Prefix_Addr p)"
    "Zone (Prefix_Addr (Masked p)) = []"
    "addr_val (Prefix_Addr (Masked p)) =
       addr_val (Prefix_Addr p) div 2 ^ free_bits p * 2 ^ free_bits p"
proof -
  obtain ip n where p: "p = MkPrefix ip (Suc n)"
    using assms(2) by (cases p; cases "bitsPlusOne p") (auto simp: Prefix_IsValid_def)
  with assms(1) have "ip \<noteq> AddrZero" "n \<le> BitLen ip" "Zone ip = []"
    by (auto simp: pfx_wf_def)
  with p show "bitsPlusOne (Masked p) = bitsPlusOne p"
    "BitLen (Prefix_Addr (Masked p)) = BitLen (Prefix_Addr p)"
    "Zone (Prefix_Addr (Masked p)) = []"
    "addr_val (Prefix_Addr (Masked p)) =
       addr_val (Prefix_Addr p) div 2 ^ free_bits p * 2 ^ free_bits p"
    by (cases ip; simp add: Masked_def Prefix_Bits_def PrefixFrom_def free_bits_def unat_keep_top)+
qed

lemma Prefix_eq_iff:
  "p = q \<longleftrightarrow> Prefix_Addr p = Prefix_Addr q \<and> bitsPlusOne p = bitsPlusOne q"
  by (cases p; cases q) simp

lemma Prefix_key_eq:
  assumes "Zone (Prefix_Addr p) = []" "Zone (Prefix_Addr q) = []"
  shows "p = q \<longleftrightarrow> BitLen (Prefix_Addr p) = BitLen (Prefix_Addr q)
      \<and> addr_val (Prefix_Addr p) = addr_val (Prefix_Addr q) \<and> bitsPlusOne p = bitsPlusOne q"
  using assms Addr_key_eq [of "Prefix_Addr p" "Prefix_Addr q"] by (auto simp: Prefix_eq_iff)

lemma pfx_ok_iff:
  "pfx_ok p \<longleftrightarrow> pfx_wf p \<and> Prefix_IsValid p \<and> 2 ^ free_bits p dvd addr_val (Prefix_Addr p)"
proof -
  have "Masked p = p \<longleftrightarrow> 2 ^ free_bits p dvd addr_val (Prefix_Addr p)"
    if "pfx_wf p" "Prefix_IsValid p"
  proof -
    have "Zone (Prefix_Addr p) = []" using that(1) by (simp add: pfx_wf_def)
    then have "Masked p = p \<longleftrightarrow>
        addr_val (Prefix_Addr p) div 2 ^ free_bits p * 2 ^ free_bits p = addr_val (Prefix_Addr p)"
      using Masked_simps [OF that] by (simp add: Prefix_key_eq)
    then show ?thesis by (metis dvd_div_mult_self dvd_triv_right)
  qed
  then show ?thesis by (auto simp: pfx_ok_def)
qed

lemma Masked_wf: "pfx_wf (Masked p)"
  by (cases p; cases "Prefix_Addr p")
    (auto simp: Masked_def pfx_wf_def PrefixFrom_def Prefix_Bits_def split: if_splits)

lemma Masked_ok:
  assumes "pfx_wf p" "Prefix_IsValid p"
  shows "pfx_ok (Masked p)"
proof -
  have "free_bits (Masked p) = free_bits p"
    using Masked_simps [OF assms] by (simp add: free_bits_def)
  then show ?thesis
    using Masked_simps [OF assms] Masked_wf [of p] assms
    by (simp add: pfx_ok_iff Prefix_IsValid_def)
qed

lemma Masked_idem: "Masked (Masked p) = Masked p"
proof (cases "pfx_wf p \<and> Prefix_IsValid p")
  case True
  then show ?thesis using Masked_ok [of p] by (simp add: pfx_ok_def)
next
  case False
  then show ?thesis
    by (cases p; cases "Prefix_Addr p")
      (auto simp: Masked_def pfx_wf_def PrefixFrom_def Prefix_Bits_def Prefix_IsValid_def
        keep_top_def split: if_splits)
qed

lemma Contains_Masked:
  assumes "pfx_wf p"
  shows "Contains (Masked p) a \<longleftrightarrow> Contains p a"
proof (cases "Prefix_IsValid p")
  case True
  have "free_bits (Masked p) = free_bits p"
    using Masked_simps [OF assms True] by (simp add: free_bits_def)
  then show ?thesis
    using Masked_simps [OF assms True] True
    by (cases "Prefix_Addr p"; cases "Prefix_Addr (Masked p)")
      (auto simp: Contains_iff Prefix_IsValid_def)
next
  case False
  then have "\<not> Prefix_IsValid (Masked p)"
    by (cases p; cases "Prefix_Addr p")
      (auto simp: Masked_def Prefix_Bits_def Prefix_IsValid_def)
  with False show ?thesis by (simp add: Contains_iff)
qed

end
