(* ===== verification/Source.thy ===== *)
theory Source
  imports Netip
begin

text \<open>
  \<open>internal/source\<close>: the order on prefixes, family filtering, normalisation (drop invalid entries,
  mask, deduplicate, sort) and aggregation (drop covered prefixes, merge sibling pairs until nothing
  changes). The functions sort their argument in place before they read it; since no caller reads
  the argument afterwards, the model returns the new list. Log output is left out.
\<close>

section \<open>Order and family\<close>

definition prefixLess :: "Prefix \<Rightarrow> Prefix \<Rightarrow> bool" where
  "prefixLess a b =
     (if Addr_Less (Prefix_Addr a) (Prefix_Addr b) then True
      else if Addr_Less (Prefix_Addr b) (Prefix_Addr a) then False
      else Prefix_Bits a < Prefix_Bits b)"

instantiation Prefix :: linorder
begin

definition less_Prefix :: "Prefix \<Rightarrow> Prefix \<Rightarrow> bool" where
  "less_Prefix = prefixLess"

definition less_eq_Prefix :: "Prefix \<Rightarrow> Prefix \<Rightarrow> bool" where
  "less_eq_Prefix p q \<longleftrightarrow> \<not> prefixLess q p"

instance
  by standard (auto simp: less_Prefix_def less_eq_Prefix_def prefixLess_def Prefix_Bits_def
      simp flip: less_Addr_def intro: Prefix.expand split: if_splits)

end

text \<open>
  \<open>sort.Slice\<close> with this comparison: the order is total, so the algorithm does not matter and the
  result is the sorted permutation.
\<close>

definition sortPrefixes :: "Prefix list \<Rightarrow> Prefix list" where
  "sortPrefixes prefixes = sort prefixes"

fun filterFamily_loop :: "string \<Rightarrow> Prefix list \<Rightarrow> Prefix list" where
  "filterFamily_loop family [] = []"
| "filterFamily_loop family (p # ps) =
     (if family = ''ipv4'' \<and> Is4 (Prefix_Addr p) then [p] else [])
     @ (if family = ''ipv6'' \<and> Is6 (Prefix_Addr p) then [p] else [])
     @ filterFamily_loop family ps"

definition FilterFamily :: "Prefix list \<Rightarrow> string \<Rightarrow> Prefix list" where
  "FilterFamily prefixes family =
     (if family = '''' \<or> family = ''dual'' then prefixes else filterFamily_loop family prefixes)"

section \<open>Aggregation\<close>

fun removeCovered_loop :: "Prefix list \<Rightarrow> Prefix list \<Rightarrow> Prefix list" where
  "removeCovered_loop out [] = out"
| "removeCovered_loop out (p # ps) =
     (if list_ex (\<lambda>kept. Is4 (Prefix_Addr kept) = Is4 (Prefix_Addr p)
           \<and> Prefix_Bits kept \<le> Prefix_Bits p \<and> Contains kept (Prefix_Addr p)) out
      then removeCovered_loop out ps
      else removeCovered_loop (out @ [p]) ps)"

definition removeCovered :: "Prefix list \<Rightarrow> Prefix list" where
  "removeCovered prefixes = removeCovered_loop [] (sortPrefixes prefixes)"

definition mergePair :: "Prefix \<Rightarrow> Prefix \<Rightarrow> Prefix option" where
  "mergePair a b =
     (if Is4 (Prefix_Addr a) \<noteq> Is4 (Prefix_Addr b) \<or> Prefix_Bits a \<noteq> Prefix_Bits b
         \<or> Prefix_Bits a = 0
      then None
      else
        let parent = Masked (PrefixFrom (Prefix_Addr a) (Prefix_Bits a - 1)) in
        if Contains parent (Prefix_Addr a) \<and> Contains parent (Prefix_Addr b) then
          let pa = Masked (PrefixFrom (Prefix_Addr a) (Prefix_Bits a));
              pb = Masked (PrefixFrom (Prefix_Addr b) (Prefix_Bits b)) in
          if pa \<noteq> pb \<and> Masked (PrefixFrom (Prefix_Addr b) (Prefix_Bits b - 1)) = parent
          then Some parent else None
        else None)"

fun mergeOnePass_loop :: "Prefix list \<Rightarrow> bool \<Rightarrow> Prefix list \<Rightarrow> Prefix list \<times> bool" where
  "mergeOnePass_loop out changed [] = (out, changed)"
| "mergeOnePass_loop out changed [a] = (out @ [a], changed)"
| "mergeOnePass_loop out changed (a # b # ps) =
     (case mergePair a b of
        Some parent \<Rightarrow> mergeOnePass_loop (out @ [parent]) True ps
      | None \<Rightarrow> mergeOnePass_loop (out @ [a]) changed (b # ps))"

definition mergeOnePass :: "Prefix list \<Rightarrow> Prefix list \<times> bool" where
  "mergeOnePass prefixes = mergeOnePass_loop [] False (sortPrefixes prefixes)"

text \<open>
  The loop of \<open>Aggregate\<close> ends: a pass that changes something returns a shorter list, and no pass
  and no removal of covered prefixes ever returns a longer one.
\<close>

lemma length_removeCovered_loop: "length (removeCovered_loop out ps) \<le> length out + length ps"
  by (induction out ps rule: removeCovered_loop.induct) auto

lemma length_removeCovered: "length (removeCovered ps) \<le> length ps"
  using length_removeCovered_loop [of "[]" "sort ps"]
  by (simp add: removeCovered_def sortPrefixes_def)

lemma length_mergeOnePass_loop:
  "mergeOnePass_loop out changed ps = (next, ch) \<Longrightarrow>
     length next \<le> length out + length ps \<and> (ch \<noteq> changed \<longrightarrow> length next < length out + length ps)"
  by (induction out changed ps rule: mergeOnePass_loop.induct)
    (auto split: option.splits)

lemma length_mergeOnePass:
  "mergeOnePass ps = (next, ch) \<Longrightarrow>
     length next \<le> length ps \<and> (ch \<longrightarrow> length next < length ps)"
  using length_mergeOnePass_loop [of "[]" False "sort ps"]
  by (auto simp: mergeOnePass_def sortPrefixes_def)

lemma Aggregate_decreases:
  assumes "mergeOnePass current = (next0, changed)"
    and "changed \<or> length (removeCovered next0) \<noteq> length current"
  shows "length (removeCovered next0) < length current"
  using length_mergeOnePass [OF assms(1)] length_removeCovered [of next0] assms(2) by auto

function Aggregate_loop :: "Prefix list \<Rightarrow> Prefix list" where
  "Aggregate_loop current =
     (case mergeOnePass current of (next0, changed) \<Rightarrow>
        let next = removeCovered next0 in
        if \<not> changed \<and> length next = length current then next else Aggregate_loop next)"
  by pat_completeness auto
termination
  by (relation "measure length") (auto intro: Aggregate_decreases [OF sym])

declare Aggregate_loop.simps [simp del]

definition Aggregate :: "Prefix list \<Rightarrow> Prefix list" where
  "Aggregate prefixes =
     (if length prefixes < 2 then prefixes else Aggregate_loop (removeCovered prefixes))"

section \<open>Normalisation\<close>

fun Normalize_loop :: "Prefix set \<Rightarrow> Prefix list \<Rightarrow> Prefix list \<Rightarrow> Prefix list" where
  "Normalize_loop seen valid [] = valid"
| "Normalize_loop seen valid (p # ps) =
     (if \<not> Prefix_IsValid p then Normalize_loop seen valid ps
      else if Masked p \<in> seen then Normalize_loop seen valid ps
      else Normalize_loop (insert (Masked p) seen) (valid @ [Masked p]) ps)"

definition Normalize :: "Prefix list \<Rightarrow> bool \<Rightarrow> Prefix list" where
  "Normalize prefixes aggregate =
     (let valid = sortPrefixes (Normalize_loop {} [] prefixes) in
      if aggregate then Aggregate valid else valid)"

section \<open>Family filtering\<close>

text \<open>
  The program filters two kinds of values by the configured family: prefixes here, addresses in
  the planner. The contract they share, over the family strings the configuration admits:
\<close>

locale family_filter =
  fixes filt :: "string \<Rightarrow> 'a list \<Rightarrow> 'a list"
    and is4 is6 :: "'a \<Rightarrow> bool"
  assumes filt_dual: "family = '''' \<or> family = ''dual'' \<Longrightarrow> filt family xs = xs"
    and filt_4: "filt ''ipv4'' xs = filter is4 xs"
    and filt_6: "filt ''ipv6'' xs = filter is6 xs"
    and disjoint46: "\<not> (is4 x \<and> is6 x)"
begin

definition family_ok :: "string \<Rightarrow> bool" where
  "family_ok family \<longleftrightarrow> family \<in> {'''', ''dual'', ''ipv4'', ''ipv6''}"

lemma filt_filter:
  assumes "family_ok family"
  shows "filt family xs =
    filter (\<lambda>x. (family = ''ipv4'' \<longrightarrow> is4 x) \<and> (family = ''ipv6'' \<longrightarrow> is6 x)) xs"
  using assms by (auto simp: family_ok_def filt_dual filt_4 filt_6)

lemma filt_idem: "family_ok family \<Longrightarrow> filt family (filt family xs) = filt family xs"
  by (simp add: filt_filter)

lemma filt_subset: "family_ok family \<Longrightarrow> set (filt family xs) \<subseteq> set xs"
  by (auto simp: filt_filter)

lemma filt_split_families:
  "\<forall>x \<in> set xs. is4 x \<or> is6 x \<Longrightarrow>
     mset xs = mset (filt ''ipv4'' xs) + mset (filt ''ipv6'' xs)"
proof (induction xs)
  case (Cons x xs)
  with disjoint46 [of x] show ?case by (auto simp: filt_4 filt_6)
qed (simp add: filt_4 filt_6)

end

lemma Is4_Is6: "\<not> (Is4 a \<and> Is6 a)" "Is4 a \<or> Is6 a \<longleftrightarrow> a \<noteq> AddrZero"
  by (cases a; simp)+

interpretation pff: family_filter "\<lambda>family ps. FilterFamily ps family"
  "\<lambda>p. Is4 (Prefix_Addr p)" "\<lambda>p. Is6 (Prefix_Addr p)"
proof
  fix xs
  show "FilterFamily xs ''ipv4'' = filter (\<lambda>p. Is4 (Prefix_Addr p)) xs"
    by (simp add: FilterFamily_def) (induction xs; simp)
  show "FilterFamily xs ''ipv6'' = filter (\<lambda>p. Is6 (Prefix_Addr p)) xs"
    by (simp add: FilterFamily_def) (induction xs; simp)
qed (use Is4_Is6 in \<open>auto simp: FilterFamily_def\<close>)

lemma FilterFamily_subset: "set (FilterFamily ps family) \<subseteq> set ps"
proof -
  have "set (filterFamily_loop family ps) \<subseteq> set ps"
    by (induction ps) auto
  then show ?thesis by (simp add: FilterFamily_def)
qed

text \<open>
  The same loop with a bound on the number of passes: \<open>None\<close> when they are used up.
\<close>

fun Aggregate_passes :: "nat \<Rightarrow> Prefix list \<Rightarrow> Prefix list option" where
  "Aggregate_passes 0 current = None"
| "Aggregate_passes (Suc n) current =
     (case mergeOnePass current of (next0, changed) \<Rightarrow>
        let next = removeCovered next0 in
        if \<not> changed \<and> length next = length current then Some next else Aggregate_passes n next)"

lemma Aggregate_passes_enough: "length ps < n \<Longrightarrow> Aggregate_passes n ps = Some (Aggregate_loop ps)"
proof (induction n arbitrary: ps)
  case (Suc n)
  obtain next0 changed where m: "mergeOnePass ps = (next0, changed)" by (cases "mergeOnePass ps")
  show ?case
  proof (cases "\<not> changed \<and> length (removeCovered next0) = length ps")
    case True
    then show ?thesis using m by (simp add: Aggregate_loop.simps [of ps])
  next
    case False
    then have "length (removeCovered next0) < length ps" using Aggregate_decreases [OF m] by blast
    then have "Aggregate_passes n (removeCovered next0) = Some (Aggregate_loop (removeCovered next0))"
      using Suc by simp
    then show ?thesis using m False by (auto simp: Aggregate_loop.simps [of ps])
  qed
qed simp

lemma length_Aggregate_loop: "length (Aggregate_loop ps) \<le> length ps"
proof (induction ps rule: Aggregate_loop.induct)
  case (1 ps)
  obtain next0 changed where m: "mergeOnePass ps = (next0, changed)" by (cases "mergeOnePass ps")
  show ?case
  proof (cases "\<not> changed \<and> length (removeCovered next0) = length ps")
    case False
    then show ?thesis
      using "1.IH" [OF m [symmetric] refl] Aggregate_decreases [OF m] m
      by (simp add: Aggregate_loop.simps [of ps] Let_def)
  qed (simp add: Aggregate_loop.simps [of ps] m)
qed

lemma length_Aggregate: "length (Aggregate ps) \<le> length ps"
  using length_Aggregate_loop [of "removeCovered ps"] length_removeCovered [of ps] by (simp add: Aggregate_def)

end
