(* ===== verification/Netip_Text.thy ===== *)
theory Netip_Text
  imports Netip
begin

text \<open>
  The text forms of addresses and prefixes: \<open>netip.ParseAddr\<close>, \<open>netip.ParsePrefix\<close> and the
  \<open>String\<close> methods (dotted decimal; IPv6 groups in hexadecimal with the first longest run of two or
  more zero groups written as a double colon; the mapped form; zones). The program reads addresses
  from its configuration and sources, prints prefixes into its state files and uses the printed
  forms as map keys. Shown here: what is printed is read back, so printing is injective.
\<close>

section \<open>Numbers as digit groups\<close>

fun be_digits :: "nat \<Rightarrow> nat \<Rightarrow> nat \<Rightarrow> nat list" where
  "be_digits B 0 n = []"
| "be_digits B (Suc k) n = be_digits B k (n div B) @ [n mod B]"

definition be_val :: "nat \<Rightarrow> nat list \<Rightarrow> nat" where
  "be_val B ds = foldl (\<lambda>a d. a * B + d) 0 ds"

lemma be_val_snoc [simp]: "be_val B (ds @ [d]) = be_val B ds * B + d" "be_val B [] = 0"
  by (simp_all add: be_val_def)

lemma be_val_digits: "be_val B (be_digits B k n) = n mod B ^ k"
  by (induction k arbitrary: n) (simp_all add: mod_mult2_eq mult.commute add.commute)

lemma length_be_digits [simp]: "length (be_digits B k n) = k"
  by (induction k arbitrary: n) auto

lemma be_digits_less: "0 < B \<Longrightarrow> d \<in> set (be_digits B k n) \<Longrightarrow> d < B"
  by (induction k arbitrary: n) auto

text \<open>\<open>Addr.AsSlice\<close> and \<open>netip.AddrFromSlice\<close>: 4 or 16 bytes, most significant first.\<close>

fun AsSlice :: "Addr \<Rightarrow> 8 word list" where
  "AsSlice AddrZero = []"
| "AsSlice (Addr4 w) = map word_of_nat (be_digits 256 4 (unat w))"
| "AsSlice (Addr6 w z) = map word_of_nat (be_digits 256 16 (unat w))"

definition AddrFromSlice :: "8 word list \<Rightarrow> Addr option" where
  "AddrFromSlice bs =
     (let n = be_val 256 (map unat bs) in
      if length bs = 4 then Some (Addr4 (word_of_nat n))
      else if length bs = 16 then Some (Addr6 (word_of_nat n) [])
      else None)"

lemma map_unat_bytes: "\<forall>d \<in> set ds. d < 256 \<Longrightarrow> map unat (map (word_of_nat :: nat \<Rightarrow> 8 word) ds) = ds"
  by (induction ds) (auto simp: unat_of_nat)

lemma AddrFromSlice_AsSlice:
  "a \<noteq> AddrZero \<Longrightarrow> AddrFromSlice (AsSlice a) = Some (withoutZone a)"
proof -
  have "map unat (map (word_of_nat :: nat \<Rightarrow> 8 word) (be_digits 256 k n)) = be_digits 256 k n" for k n
    by (rule map_unat_bytes) (auto dest: be_digits_less [rotated])
  moreover have "be_val 256 (be_digits 256 4 (unat (w :: 32 word))) = unat w" for w
    unfolding be_val_digits using unat_less_exp(1) [of w] by simp
  moreover have "be_val 256 (be_digits 256 16 (unat (w :: 128 word))) = unat w" for w
    unfolding be_val_digits using unat_less_exp(2) [of w] by simp
  moreover assume "a \<noteq> AddrZero"
  ultimately show ?thesis by (cases a) (simp_all add: AddrFromSlice_def Let_def del: map_map)
qed

section \<open>IPv4\<close>

definition string4 :: "32 word \<Rightarrow> string" where
  "string4 w = join_with ''.'' (map (radix_str 10) (be_digits 256 4 (unat w)))"

definition parse_octet :: "string \<Rightarrow> nat option" where
  "parse_octet s =
     (if s = [] \<or> (1 < length s \<and> hd s = CHR ''0'') then None
      else case radix_val 10 s of None \<Rightarrow> None | Some v \<Rightarrow> if v \<le> 255 then Some v else None)"

definition parse_octets :: "string \<Rightarrow> nat list option" where
  "parse_octets s =
     (let fs = split_on (CHR ''.'') s in
      if length fs = 4 then those (map parse_octet fs) else None)"

definition parseIPv4 :: "string \<Rightarrow> Addr option" where
  "parseIPv4 s = map_option (\<lambda>ds. Addr4 (word_of_nat (be_val 256 ds))) (parse_octets s)"

section \<open>IPv6\<close>

text \<open>The run of zero groups to compress: the longest of length two or more, the first of them.\<close>

fun best_run :: "nat \<Rightarrow> nat list \<Rightarrow> nat \<times> nat \<Rightarrow> nat \<times> nat" where
  "best_run i [] best = best"
| "best_run i (g # gs) best =
     (let l = length (takeWhile (\<lambda>x. x = 0) (g # gs)) in
      best_run (Suc i) gs (if 2 \<le> l \<and> snd best < l then (i, l) else best))"

definition string_groups :: "nat list \<Rightarrow> string" where
  "string_groups gs =
     (let (s, l) = best_run 0 gs (255, 0); hex = map (radix_str 16) in
      if l = 0 then join_with '':'' (hex gs)
      else join_with '':'' (hex (take s gs)) @ ''::'' @ join_with '':'' (hex (drop (s + l) gs)))"

definition string6 :: "128 word \<Rightarrow> string" where
  "string6 w = string_groups (be_digits 65536 8 (unat w))"

definition zone_suffix :: "string \<Rightarrow> string" where
  "zone_suffix z = (if z = [] then [] else CHR ''%'' # z)"

fun Addr_String :: "Addr \<Rightarrow> string" where
  "Addr_String AddrZero = ''invalid IP''"
| "Addr_String (Addr4 w) = string4 w"
| "Addr_String (Addr6 w z) =
     (if Is4In6 (Addr6 w z) then ''::ffff:'' @ string4 (ucast w) else string6 w) @ zone_suffix z"

definition parse_hex :: "string \<Rightarrow> nat option" where
  "parse_hex s = (if s = [] \<or> 4 < length s then None else radix_val 16 s)"

text \<open>Colon-separated groups; the last one may be an embedded dotted-decimal address.\<close>

fun parse_fields :: "string list \<Rightarrow> nat list option" where
  "parse_fields [] = Some []"
| "parse_fields [f] = (case parse_hex f of Some g \<Rightarrow> Some [g]
     | None \<Rightarrow> map_option (\<lambda>ds. [ds ! 0 * 256 + ds ! 1, ds ! 2 * 256 + ds ! 3]) (parse_octets f))"
| "parse_fields (f # fs) = (case parse_hex f of None \<Rightarrow> None
     | Some g \<Rightarrow> map_option (\<lambda>gs. g # gs) (parse_fields fs))"

text \<open>The first double colon.\<close>

fun cut_ellipsis :: "string \<Rightarrow> (string \<times> string) option" where
  "cut_ellipsis (c # d # s) =
     (if c = CHR '':'' \<and> d = CHR '':'' then Some ([], s)
      else map_option (\<lambda>(l, r). (c # l, r)) (cut_ellipsis (d # s)))"
| "cut_ellipsis s = None"

definition parse_groups :: "string \<Rightarrow> nat list option" where
  "parse_groups s =
     (case cut_ellipsis s of
        None \<Rightarrow> (case parse_fields (split_on (CHR '':'') s) of
            None \<Rightarrow> None | Some gs \<Rightarrow> if length gs = 8 then Some gs else None)
      | Some (l, r) \<Rightarrow>
          (case (if l = [] then Some [] else those (map parse_hex (split_on (CHR '':'') l)),
                 if r = [] then Some [] else parse_fields (split_on (CHR '':'') r)) of
             (Some a, Some b) \<Rightarrow>
               if length a + length b \<le> 7
               then Some (a @ replicate (8 - length a - length b) 0 @ b) else None
           | _ \<Rightarrow> None))"

definition parseIPv6 :: "string \<Rightarrow> Addr option" where
  "parseIPv6 s =
     (let body = takeWhile (\<lambda>c. c \<noteq> CHR ''%'') s; rest = dropWhile (\<lambda>c. c \<noteq> CHR ''%'') s in
      if rest = ''%'' then None
      else map_option (\<lambda>gs. Addr6 (word_of_nat (be_val 65536 gs)) (tl rest)) (parse_groups body))"

definition ParseAddr :: "string \<Rightarrow> Addr option" where
  "ParseAddr s =
     (case find (\<lambda>c. c = CHR ''.'' \<or> c = CHR '':'' \<or> c = CHR ''%'') s of
        None \<Rightarrow> None
      | Some c \<Rightarrow> if c = CHR ''.'' then parseIPv4 s
          else if c = CHR '':'' then parseIPv6 s else None)"

section \<open>Prefixes\<close>

definition Prefix_String :: "Prefix \<Rightarrow> string" where
  "Prefix_String p =
     (if Prefix_IsValid p then Addr_String (Prefix_Addr p) @ ''/'' @ Itoa (Prefix_Bits p)
      else ''invalid Prefix'')"

text \<open>The parts before and after the last slash; no sign and no leading zero in the length.\<close>

definition cut_last :: "char \<Rightarrow> string \<Rightarrow> (string \<times> string) option" where
  "cut_last c s =
     (if c \<in> set s
      then Some (rev (tl (dropWhile (\<lambda>x. x \<noteq> c) (rev s))), rev (takeWhile (\<lambda>x. x \<noteq> c) (rev s)))
      else None)"

definition parse_bits :: "string \<Rightarrow> nat option" where
  "parse_bits s =
     (if s = [] \<or> (1 < length s \<and> \<not> (CHR ''1'' \<le> hd s \<and> hd s \<le> CHR ''9'')) then None
      else radix_val 10 s)"

definition ParsePrefix :: "string \<Rightarrow> Prefix option" where
  "ParsePrefix s =
     (case cut_last (CHR ''/'') s of
        None \<Rightarrow> None
      | Some (a, b) \<Rightarrow>
          (case ParseAddr a of
             None \<Rightarrow> None
           | Some ip \<Rightarrow>
               if Zone ip \<noteq> [] then None
               else (case parse_bits b of
                       None \<Rightarrow> None
                     | Some n \<Rightarrow> if n \<le> BitLen ip then Some (PrefixFrom ip (int n)) else None)))"

lemma parse_not_zero: "ParseAddr s = Some a \<Longrightarrow> a \<noteq> AddrZero"
  by (auto simp: ParseAddr_def parseIPv4_def parseIPv6_def Let_def split: option.splits if_splits)

lemma ParsePrefix_wf:
  assumes "ParsePrefix s = Some p"
  shows "pfx_wf p" "Prefix_IsValid p"
proof -
  obtain ip n where ip: "ip \<noteq> AddrZero" "Zone ip = []" "n \<le> BitLen ip" "p = PrefixFrom ip (int n)"
    using assms
    by (auto simp: ParsePrefix_def split: option.splits if_splits dest!: parse_not_zero)
  then show "pfx_wf p" "Prefix_IsValid p"
    by (cases ip; auto simp: pfx_wf_def PrefixFrom_def Prefix_IsValid_def)+
qed

lemma ParsePrefix_Masked_ok: "ParsePrefix s = Some p \<Longrightarrow> pfx_ok (Masked p)"
  using ParsePrefix_wf Masked_ok by blast

section \<open>Reading back IPv4\<close>

lemma radix_val_None: "c \<in> set s \<Longrightarrow> digit_value c = None \<Longrightarrow> radix_val b s = None"
  by (induction s rule: rev_induct) (auto simp: radix_val_snoc split: option.splits)

lemma those_map_Some: "(\<forall>x \<in> set xs. f (g x) = Some x) \<Longrightarrow> those (map f (map g xs)) = Some xs"
  by (induction xs) auto

lemma digit_char_0: "digit_char 0 = CHR ''0''"
  by code_simp

lemma parse_octet_str: "d < 256 \<Longrightarrow> parse_octet (radix_str 10 d) = Some d"
proof -
  assume d: "d < 256"
  have "length (radix_str 10 0) = 1" by (simp add: radix_str.simps)
  then have "\<not> (1 < length (radix_str 10 d) \<and> hd (radix_str 10 d) = CHR ''0'')"
    using hd_radix_str [of 10 d] by (cases "d = 0") (auto simp: digit_char_0)
  with d show ?thesis by (auto simp: parse_octet_def radix_val_radix_str)
qed

lemma parse_octets_string4: "parse_octets (string4 w) = Some (be_digits 256 4 (unat w))"
proof -
  let ?ds = "be_digits 256 4 (unat w)"
  have "?ds \<noteq> []" by (metis length_be_digits list.size(3) zero_neq_numeral)
  then have "split_on (CHR ''.'') (string4 w) = map (radix_str 10) ?ds"
    unfolding string4_def by (intro split_on_join) (auto simp: not_in_radix_str)
  moreover have "those (map parse_octet (map (radix_str 10) ?ds)) = Some ?ds"
    by (rule those_map_Some) (auto dest: be_digits_less [rotated] intro!: parse_octet_str)
  ultimately show ?thesis by (simp add: parse_octets_def)
qed

lemma parseIPv4_string4: "parseIPv4 (string4 w) = Some (Addr4 w)"
proof -
  have "be_val 256 (be_digits 256 4 (unat w)) = unat w"
    unfolding be_val_digits using unat_less_exp(1) [of w] by simp
  then show ?thesis by (simp add: parseIPv4_def parse_octets_string4)
qed

lemma not_in_join:
  assumes "c \<notin> set sep" "\<forall>f \<in> set fs. c \<notin> set f"
  shows "c \<notin> set (join_with sep fs)"
  using set_join_with [of sep fs] assms by blast

lemma not_in_string4 [go_str]:
  "digit_value c = None \<Longrightarrow> c \<noteq> CHR ''.'' \<Longrightarrow> c \<notin> set (string4 w)"
  unfolding string4_def by (rule not_in_join) (auto simp: not_in_radix_str)

section \<open>Reading back IPv6\<close>

lemma best_run_inv:
  assumes "snd best = 0 \<or> (2 \<le> snd best \<and> fst best + snd best \<le> length all
      \<and> (\<forall>j < snd best. all ! (fst best + j) = 0))"
    and "i \<le> length all" and "gs = drop i all" and "(s, l) = best_run i gs best"
  shows "l = 0 \<or> (2 \<le> l \<and> s + l \<le> length all \<and> (\<forall>j < l. all ! (s + j) = 0))"
  using assms
proof (induction i gs best rule: best_run.induct)
  case (1 i best)
  then show ?case by (metis best_run.simps(1) fst_conv snd_conv)
next
  case (2 i g gs best)
  let ?l = "length (takeWhile (\<lambda>x. x = 0) (g # gs))"
  let ?best = "if 2 \<le> ?l \<and> snd best < ?l then (i, ?l) else best"
  have i: "i < length all" using "2.prems"(3) by (metis drop_eq_Nil leI list.distinct(1))
  have gs: "gs = drop (Suc i) all" using "2.prems"(3) by (metis drop_Suc list.sel(3) tl_drop)
  have zero: "all ! (i + j) = 0" if "j < ?l" for j
  proof -
    have "(g # gs) ! j = 0"
      using that nth_mem [OF that] takeWhile_nth [OF that] by (metis set_takeWhileD)
    moreover have "j < length (g # gs)" using that length_takeWhile_le order_less_le_trans by blast
    ultimately show ?thesis using "2.prems"(2,3) by simp
  qed
  have "i + ?l \<le> length all"
    using length_takeWhile_le [of "\<lambda>x. x = 0" "g # gs"] "2.prems"(2,3) by (metis add.commute le_diff_conv2 length_drop)
  then have "snd ?best = 0 \<or> (2 \<le> snd ?best \<and> fst ?best + snd ?best \<le> length all
      \<and> (\<forall>j < snd ?best. all ! (fst ?best + j) = 0))"
    using zero "2.prems"(1) by auto
  from "2.IH" [OF refl this _ gs] i "2.prems"(4) show ?case by (simp add: Let_def)
qed

lemma list_split_zeros:
  assumes "s + l \<le> length gs" "\<forall>j < l. gs ! (s + j) = 0"
  shows "take s gs @ replicate l 0 @ drop (s + l) gs = gs"
proof -
  have "take l (drop s gs) = replicate l 0"
    by (rule nth_equalityI) (use assms in auto)
  then show ?thesis by (metis append_take_drop_id drop_drop add.commute)
qed

lemma cut_free: "CHR '':'' \<notin> set f \<Longrightarrow> cut_ellipsis f = None"
  by (induction f rule: cut_ellipsis.induct) auto

lemma cut_here: "CHR '':'' \<notin> set f \<Longrightarrow> cut_ellipsis (f @ CHR '':'' # CHR '':'' # r) = Some (f, r)"
proof (induction f)
  case (Cons c f)
  then show ?case by (cases f) auto
qed simp

lemma cut_app:
  "CHR '':'' \<notin> set f \<Longrightarrow> x \<noteq> CHR '':'' \<Longrightarrow>
     cut_ellipsis (f @ CHR '':'' # x # s) = map_option (\<lambda>(l, r). (f @ CHR '':'' # l, r)) (cut_ellipsis (x # s))"
proof (induction f)
  case (Cons c f)
  then show ?case by (cases f) (auto simp: option.map_comp comp_def split_def)
qed simp

definition plain_field :: "string \<Rightarrow> bool" where
  "plain_field f \<longleftrightarrow> f \<noteq> [] \<and> CHR '':'' \<notin> set f"

lemma join_hd:
  assumes "fs \<noteq> []" "\<forall>f \<in> set fs. plain_field f"
  obtains x s where "join_with '':'' fs @ t = x # s" "x \<noteq> CHR '':''"
proof (cases fs)
  case (Cons f fs')
  with assms obtain x f' where "f = x # f'" "x \<noteq> CHR '':''"
    by (cases f) (auto simp: plain_field_def)
  with Cons that show thesis by (cases fs') auto
qed (use assms in simp)

lemma cut_join_None:
  "\<forall>f \<in> set fs. plain_field f \<Longrightarrow> cut_ellipsis (join_with '':'' fs) = None"
proof (induction fs)
  case (Cons f fs)
  show ?case
  proof (cases "fs = []")
    case True
    with Cons show ?thesis by (simp add: cut_free plain_field_def)
  next
    case False
    with Cons.prems obtain x s where "join_with '':'' fs = x # s" "x \<noteq> CHR '':''"
      using join_hd [of fs "[]"] by auto
    with Cons False show ?thesis by (simp add: join_with_Cons cut_app plain_field_def)
  qed
qed simp

lemma cut_join_here:
  "\<forall>f \<in> set fs. plain_field f \<Longrightarrow>
     cut_ellipsis (join_with '':'' fs @ CHR '':'' # CHR '':'' # r) = Some (join_with '':'' fs, r)"
proof (induction fs)
  case (Cons f fs)
  show ?case
  proof (cases "fs = []")
    case True
    with Cons show ?thesis by (simp add: cut_here plain_field_def)
  next
    case False
    with Cons.prems obtain x s where "join_with '':'' fs @ CHR '':'' # CHR '':'' # r = x # s" "x \<noteq> CHR '':''"
      using join_hd [of fs] by auto
    with Cons False show ?thesis by (simp add: join_with_Cons cut_app plain_field_def)
  qed
qed simp

lemma parse_hex_str: "g < 65536 \<Longrightarrow> parse_hex (radix_str 16 g) = Some g"
  using length_radix_str [of 16 g 4] by (auto simp: parse_hex_def radix_val_radix_str)

lemma plain_hex: "plain_field (radix_str 16 g)"
  by (simp add: plain_field_def not_in_radix_str)

lemma parse_fields_hex:
  "\<forall>g \<in> set gs. g < 65536 \<Longrightarrow> parse_fields (map (radix_str 16) gs) = Some gs"
  by (induction gs rule: induct_list012) (auto simp: parse_hex_str)

lemma split_on_hex:
  "gs \<noteq> [] \<Longrightarrow> split_on (CHR '':'') (join_with '':'' (map (radix_str 16) gs)) = map (radix_str 16) gs"
  using plain_hex by (intro split_on_join) (auto simp: plain_field_def)

lemma join_hex_Nil: "join_with '':'' (map (radix_str 16) gs) = [] \<longleftrightarrow> gs = []"
  by (cases gs; cases "tl gs") auto

lemma parse_string_groups:
  assumes len: "length gs = 8" and small: "\<forall>g \<in> set gs. g < 65536"
  shows "parse_groups (string_groups gs) = Some gs"
proof -
  obtain s l where run: "(s, l) = best_run 0 gs (255, 0)" by (metis surj_pair)
  let ?hex = "map (radix_str 16)"
  have inv: "l = 0 \<or> (2 \<le> l \<and> s + l \<le> length gs \<and> (\<forall>j < l. gs ! (s + j) = 0))"
    using best_run_inv [of "(255, 0)" gs 0 gs s l] run by simp
  have plain: "\<forall>f \<in> set (?hex hs). plain_field f" for hs by (auto simp: plain_hex)
  show ?thesis
  proof (cases "l = 0")
    case True
    have "gs \<noteq> []" using len by auto
    then show ?thesis
      using True run [symmetric] len small cut_join_None [OF plain, of gs]
      by (simp add: string_groups_def parse_groups_def split_on_hex parse_fields_hex)
  next
    case False
    let ?a = "take s gs" and ?b = "drop (s + l) gs"
    have zeros: "?a @ replicate l 0 @ ?b = gs" using inv False by (simp add: list_split_zeros)
    have str: "string_groups gs = join_with '':'' (?hex ?a) @ CHR '':'' # CHR '':'' # join_with '':'' (?hex ?b)"
      using False run [symmetric] by (simp add: string_groups_def Let_def)
    have bounds: "\<forall>g \<in> set ?a. g < 65536" "\<forall>g \<in> set ?b. g < 65536"
      using small by (auto dest: in_set_takeD in_set_dropD)
    have a: "?a \<noteq> [] \<Longrightarrow> those (map parse_hex (?hex ?a)) = Some ?a"
      using bounds(1) by (intro those_map_Some) (auto simp: parse_hex_str)
    have lens: "length ?a = s" "length ?b = 8 - (s + l)" "s + l \<le> 8" "2 \<le> l"
      using inv False len by auto
    then have "8 - length ?a - length ?b = l" "length ?a + length ?b \<le> 7" by auto
    with a bounds(2) zeros show ?thesis
      unfolding parse_groups_def str cut_join_here [OF plain]
      by (auto simp: join_hex_Nil split_on_hex parse_fields_hex)
  qed
qed

text \<open>The mapped form: five zero groups, \<open>ffff\<close> and a dotted-decimal address.\<close>

lemma parse_groups_4in6:
  "parse_groups (''::ffff:'' @ string4 w) =
     (let ds = be_digits 256 4 (unat w) in
      Some ([0, 0, 0, 0, 0, 65535, ds ! 0 * 256 + ds ! 1, ds ! 2 * 256 + ds ! 3]))"
proof -
  have colon: "CHR '':'' \<notin> set (string4 w)" by (rule not_in_string4) simp_all
  have "length (be_digits 256 4 (unat w)) = 4" by simp
  then obtain a b ds where abds: "be_digits 256 4 (unat w) = a # b # ds"
    by (metis length_Suc_conv numeral_eq_Suc pred_numeral_simps)
  then have "CHR ''.'' \<in> set (string4 w)" by (cases ds) (auto simp: string4_def)
  then have dot: "parse_hex (string4 w) = None" by (simp add: parse_hex_def radix_val_None)
  let ?r = "''ffff:'' @ string4 w"
  have split: "split_on (CHR '':'') ?r = [''ffff'', string4 w]"
    using split_on_append [of "CHR '':''" "''ffff''" "string4 w"] colon by (simp add: split_on_free)
  have "parse_hex ''ffff'' = Some 65535"
    by (simp add: parse_hex_def radix_val_def digit_value_def)
  then have fields: "parse_fields [''ffff'', string4 w] = (let ds = be_digits 256 4 (unat w) in
      Some [65535, ds ! 0 * 256 + ds ! 1, ds ! 2 * 256 + ds ! 3])"
    by (simp add: dot parse_octets_string4 Let_def)
  have cut: "cut_ellipsis (''::ffff:'' @ string4 w) = Some ([], ?r)" by simp
  have zeros: "replicate 5 (0 :: nat) = [0, 0, 0, 0, 0]" by (simp add: numeral_eq_Suc)
  show ?thesis
    unfolding parse_groups_def cut option.case prod.case split fields Let_def
    by (simp add: zeros)
qed

lemma not_in_hex_join:
  "digit_value c = None \<Longrightarrow> c \<noteq> CHR '':'' \<Longrightarrow> c \<notin> set (join_with '':'' (map (radix_str 16) gs))"
  by (rule not_in_join) (auto simp: not_in_radix_str)

lemma not_in_string6 [go_str]:
  "digit_value c = None \<Longrightarrow> c \<noteq> CHR '':'' \<Longrightarrow> c \<notin> set (string6 w)"
  by (auto simp: string6_def string_groups_def not_in_hex_join Let_def split: prod.splits)

text \<open>Which of the separators comes first decides the family.\<close>

lemma find_first:
  assumes "\<forall>c \<in> set f. digit_value c \<noteq> None" "x = CHR ''.'' \<or> x = CHR '':''"
  shows "find (\<lambda>c. c = CHR ''.'' \<or> c = CHR '':'' \<or> c = CHR ''%'') (f @ x # r) = Some x"
  using assms by (induction f) auto

lemma digits_radix_str: "2 \<le> b \<Longrightarrow> b \<le> 16 \<Longrightarrow> \<forall>c \<in> set (radix_str b n). digit_value c \<noteq> None"
  using not_in_radix_str by blast

lemma join_first:
  assumes "2 \<le> length ds"
  obtains f r where "join_with [x] (map (radix_str b) ds) = radix_str b f @ x # r"
  using assms by (cases ds; cases "tl ds") auto

lemma string6_first:
  obtains f r where "\<forall>c \<in> set f. digit_value c \<noteq> None" "string6 w = f @ CHR '':'' # r"
proof -
  let ?gs = "be_digits 65536 8 (unat w)"
  obtain s l where run: "best_run 0 ?gs (255, 0) = (s, l)" by fastforce
  show thesis
  proof (cases "l = 0")
    case True
    obtain f r where "join_with '':'' (map (radix_str 16) ?gs) = radix_str 16 f @ CHR '':'' # r"
      by (rule join_first [of ?gs]) auto
    with True run that [of "radix_str 16 f" r] digits_radix_str [of 16] show thesis
      by (simp add: string6_def string_groups_def)
  next
    case False
    let ?b = "CHR '':'' # join_with '':'' (map (radix_str 16) (drop (s + l) ?gs))"
    let ?a = "take s ?gs"
    have str: "string6 w = join_with '':'' (map (radix_str 16) ?a) @ CHR '':'' # ?b"
      using False run by (simp add: string6_def string_groups_def Let_def)
    consider "?a = []" | g where "?a = [g]" | "2 \<le> length ?a"
      by (cases ?a; cases "tl ?a") auto
    then show thesis
    proof cases
      case 1
      with str that [of "[]"] show thesis by simp
    next
      case (2 g)
      with str that [of "radix_str 16 g"] digits_radix_str [of 16 g] show thesis by simp
    next
      case 3
      obtain f r where "join_with '':'' (map (radix_str 16) ?a) = radix_str 16 f @ CHR '':'' # r"
        by (rule join_first [OF 3])
      with str that [of "radix_str 16 f"] digits_radix_str [of 16 f] show thesis by simp
    qed
  qed
qed

lemma be_val_128: "be_val 65536 (be_digits 65536 8 (unat (w :: 128 word))) = unat w"
  unfolding be_val_digits using unat_less_exp(2) [of w] by simp

lemma zone_split:
  assumes "CHR ''%'' \<notin> set s"
  shows "takeWhile (\<lambda>c. c \<noteq> CHR ''%'') (s @ zone_suffix z) = s"
    "dropWhile (\<lambda>c. c \<noteq> CHR ''%'') (s @ zone_suffix z) = zone_suffix z"
  using assms by (auto simp: zone_suffix_def takeWhile_append2 dropWhile_append2
      intro: takeWhile_append2 [THEN trans] dropWhile_append2 [THEN trans])

lemma parseIPv6_zone:
  assumes "CHR ''%'' \<notin> set s" "parse_groups s = Some gs"
  shows "parseIPv6 (s @ zone_suffix z) = Some (Addr6 (word_of_nat (be_val 65536 gs)) z)"
  using assms zone_split [OF assms(1), of z] by (auto simp: parseIPv6_def zone_suffix_def Let_def)

lemma be_val_4in6:
  assumes "drop_bit 32 w = (65535 :: 128 word)"
  shows "let ds = be_digits 256 4 (unat (ucast w :: 32 word)) in
    be_val 65536 [0, 0, 0, 0, 0, 65535, ds ! 0 * 256 + ds ! 1, ds ! 2 * 256 + ds ! 3] = unat w"
proof -
  let ?u = "unat (ucast w :: 32 word)"
  have "length (be_digits 256 4 ?u) = Suc (Suc (Suc (Suc 0)))" by simp
  then obtain a b c d where ds: "be_digits 256 4 ?u = [a, b, c, d]"
    by (auto simp only: length_Suc_conv length_0_conv)
  have "be_val 256 (be_digits 256 4 ?u) = ?u"
    unfolding be_val_digits using unat_less_exp(1) [of "ucast w"] by simp
  then have u: "((a * 256 + b) * 256 + c) * 256 + d = ?u" by (simp add: ds be_val_def)
  have "unat (drop_bit 32 w) = 65535" using assms by simp
  then have hi: "unat w div 4294967296 = 65535" by (simp add: unat_drop)
  have "?u = unat w mod 4294967296"
    by (simp add: unsigned_ucast_eq take_bit_eq_mod [where 'a = nat])
  then have "unat w = 65535 * 4294967296 + ?u"
    using hi div_mult_mod_eq [of "unat w" 4294967296] by simp
  with u show ?thesis by (simp add: ds be_val_def)
qed

section \<open>Round trips\<close>

lemma ParseAddr_String4: "ParseAddr (string4 w) = Some (Addr4 w)"
proof -
  obtain f r where "string4 w = radix_str 10 f @ CHR ''.'' # r"
    unfolding string4_def by (rule join_first [of "be_digits 256 4 (unat w)"]) auto
  then have "find (\<lambda>c. c = CHR ''.'' \<or> c = CHR '':'' \<or> c = CHR ''%'') (string4 w) = Some (CHR ''.'')"
    using find_first [OF digits_radix_str] by simp
  then show ?thesis by (simp add: ParseAddr_def parseIPv4_string4)
qed

lemma ParseAddr_colon:
  assumes "\<forall>c \<in> set f. digit_value c \<noteq> None"
  shows "ParseAddr (f @ CHR '':'' # r) = parseIPv6 (f @ CHR '':'' # r)"
  using find_first [OF assms, of "CHR '':''"] by (simp add: ParseAddr_def)

lemma ParseAddr_String6: "ParseAddr (Addr_String (Addr6 w z)) = Some (Addr6 w z)"
proof (cases "Is4In6 (Addr6 w z)")
  case True
  let ?s = "''::ffff:'' @ string4 (ucast w)"
  have "ParseAddr (?s @ zone_suffix z) = parseIPv6 (?s @ zone_suffix z)"
    using ParseAddr_colon [of "[]"] by simp
  also have "CHR ''%'' \<notin> set ?s" using not_in_string4 [of "CHR ''%''"] by auto
  from parseIPv6_zone [OF this] be_val_4in6 [of w] True
  have "parseIPv6 (?s @ zone_suffix z) = Some (Addr6 w z)"
    unfolding parse_groups_4in6 Let_def by simp
  finally show ?thesis using True by simp
next
  case False
  obtain f r where fr: "\<forall>c \<in> set f. digit_value c \<noteq> None" "string6 w = f @ CHR '':'' # r"
    by (rule string6_first)
  have "parse_groups (string6 w) = Some (be_digits 65536 8 (unat w))"
    unfolding string6_def
    by (rule parse_string_groups) (auto dest: be_digits_less [rotated])
  from parseIPv6_zone [OF not_in_string6 this] be_val_128 [of w]
  have "parseIPv6 (string6 w @ zone_suffix z) = Some (Addr6 w z)" by simp
  then show ?thesis using False ParseAddr_colon [OF fr(1), of "r @ zone_suffix z"] fr(2) by simp
qed

lemma ParseAddr_String: "a \<noteq> AddrZero \<Longrightarrow> ParseAddr (Addr_String a) = Some a"
  by (cases a) (use ParseAddr_String4 ParseAddr_String6 in \<open>simp_all del: Addr_String.simps(3)\<close>)

lemma ParseAddr_invalid: "ParseAddr ''invalid IP'' = None"
  by (simp add: ParseAddr_def)

lemma cut_last_append:
  "c \<notin> set b \<Longrightarrow> cut_last c (a @ c # b) = Some (a, b)"
  by (auto simp: cut_last_def takeWhile_append dropWhile_append)

lemma digit_value_f: "digit_value (CHR ''f'') = Some 15"
  by (simp add: digit_value_def)

lemma not_in_Addr_String [go_str]:
  assumes "digit_value c = None" "c \<noteq> CHR ''.''" "c \<noteq> CHR '':''" "c \<notin> set ''invalid IP''"
    and "Zone a = []"
  shows "c \<notin> set (Addr_String a)"
proof (cases a)
  case AddrZero
  then show ?thesis using assms(4) by (simp only: Addr_String.simps) simp
next
  case (Addr4 w)
  then show ?thesis using assms(1,2) by (simp add: not_in_string4)
next
  case (Addr6 w z)
  have "c \<noteq> CHR ''f''" using assms(1) digit_value_f by auto
  then have "c \<notin> set ''::ffff:''" using assms(3) by simp
  then show ?thesis
    using Addr6 assms(1,2,3,5) not_in_string4 [of c "ucast w"] not_in_string6 [of c w]
    by (simp only: Addr_String.simps zone_suffix_def Zone.simps split: if_split) simp
qed

lemma hd_digit: "0 < n \<Longrightarrow> CHR ''1'' \<le> hd (radix_str 10 n) \<and> hd (radix_str 10 n) \<le> CHR ''9''"
proof -
  assume n: "0 < n"
  have "hd (radix_str 10 n) \<in> digit_char ` {..<10}"
    using set_radix_str [of 10 n] hd_in_set [OF radix_str_not_Nil, of 10 n] by auto
  then obtain d where d: "hd (radix_str 10 n) = digit_char d" "d < 10" by auto
  with hd_radix_str [of 10 n] n have "d \<noteq> 0" by (cases "d = 0") auto
  with d show ?thesis by (simp add: less_eq_char_def of_char_digit_char)
qed

lemma parse_bits_Itoa: "parse_bits (Itoa (int n)) = Some n"
proof -
  have "length (radix_str 10 0) = 1" by (simp add: radix_str.simps)
  then show ?thesis
    using hd_digit [of n]
    by (cases "n = 0") (auto simp: parse_bits_def Itoa_def radix_val_radix_str)
qed

lemma ParsePrefix_String:
  assumes "pfx_wf p" "Prefix_IsValid p"
  shows "ParsePrefix (Prefix_String p) = Some p"
proof -
  obtain ip n where p: "p = MkPrefix ip (Suc n)"
    using assms(2) by (cases p; cases "bitsPlusOne p") (auto simp: Prefix_IsValid_def)
  with assms(1) have ip: "ip \<noteq> AddrZero" "n \<le> BitLen ip" "Zone ip = []" by (auto simp: pfx_wf_def)
  then have "PrefixFrom ip (int n) = p" using p by (cases ip) (auto simp: PrefixFrom_def)
  moreover have "Prefix_String p = Addr_String ip @ CHR ''/'' # Itoa (int n)"
    using p by (simp add: Prefix_String_def Prefix_IsValid_def Prefix_Bits_def)
  ultimately show ?thesis
    using ip in_Itoa [of "CHR ''/''" "int n"]
    by (simp add: ParsePrefix_def cut_last_append ParseAddr_String parse_bits_Itoa)
qed

text \<open>A printer with a reader that inverts it is injective.\<close>

locale text_codec =
  fixes print :: "'a \<Rightarrow> string" and parse :: "string \<Rightarrow> 'a option" and dom :: "'a \<Rightarrow> bool"
  assumes parse_print: "dom x \<Longrightarrow> parse (print x) = Some x"
begin

lemma print_inj: "dom x \<Longrightarrow> dom y \<Longrightarrow> print x = print y \<longleftrightarrow> x = y"
  by (metis option.inject parse_print)

lemma parse_print_map: "\<forall>x \<in> set xs. dom x \<Longrightarrow> those (map parse (map print xs)) = Some xs"
  by (rule those_map_Some) (simp add: parse_print)

end

interpretation addr_codec: text_codec Addr_String ParseAddr "\<lambda>a. a \<noteq> AddrZero"
  by unfold_locales (rule ParseAddr_String)

interpretation prefix_codec: text_codec Prefix_String ParsePrefix "\<lambda>p. pfx_wf p \<and> Prefix_IsValid p"
  by unfold_locales (simp add: ParsePrefix_String)

lemma Addr_String_inj: "Addr_String a = Addr_String b \<longleftrightarrow> a = b"
  by (metis Addr_String.simps(1) ParseAddr_String ParseAddr_invalid addr_codec.print_inj option.discI)

end
