(* ===== verification/Config.thy ===== *)
theory Config
  imports Netip_Text
begin

text \<open>
  \<open>internal/config\<close>: the configuration records, the defaults, the enabled groups and validation.
  Validation collects every problem it finds; the model keeps the problems as values of a datatype
  (with the path strings the code builds) instead of the joined message. Reading the file and
  decoding YAML are parameters of \<open>Load\<close>: the decoder is a third-party package.
\<close>

section \<open>Records\<close>

text \<open>\<open>time.Duration\<close> counts nanoseconds.\<close>

type_synonym Duration = int

abbreviation Second :: Duration where
  "Second \<equiv> 1000000000"

record HealthCheck =
  hc_Targets :: "string list"
  hc_Timeout :: Duration

record GatewayConfig =
  gw_Name :: string
  gw_Dev :: string
  gw_Via :: string
  gw_Via4 :: string
  gw_Via6 :: string
  gw_OnLink :: bool
  gw_HealthCheck :: HealthCheck

record NextHopConfig =
  nh_Dev :: string
  nh_Via :: string
  nh_Via4 :: string
  nh_Via6 :: string
  nh_OnLink :: bool
  nh_HealthCheck :: HealthCheck
  nh_Gateways :: "GatewayConfig list"

record TargetConfig =
  tg_Table :: int
  tg_Dev :: string
  tg_Via :: string
  tg_Via4 :: string
  tg_Via6 :: string
  tg_OnLink :: bool
  tg_Family :: string
  tg_HealthCheck :: HealthCheck
  tg_Gateways :: "GatewayConfig list"
  tg_Default :: "NextHopConfig option"
  tg_ExcludeLocalIPs :: bool
  tg_ExcludePrefixes :: "string list"

record RuleConfig =
  rc_Enabled :: bool
  rc_Priority :: int
  rc_FWMark :: "32 word"
  rc_Mask :: "32 word"
  rc_Table :: int
  rc_From :: string

record SourceConfig =
  sc_Type :: string
  sc_Country :: string
  sc_URL :: string

record RouteGroup =
  g_Name :: string
  g_Enabled :: bool
  g_Source :: SourceConfig
  g_Target :: TargetConfig
  g_Rule :: RuleConfig

record GlobalConfig =
  RefreshInterval :: Duration
  HealthCheckInterval :: Duration
  HTTPTimeout :: Duration
  StateDir :: string
  LogFormat :: string
  MetricsListen :: string
  RouteProtocol :: int
  RulePriorityBase :: int
  RulePriorityStep :: int
  EnablePrefixAggregation :: bool
  CleanupOnShutdown :: bool

record Defaults =
  EnableRUBuiltinSource :: "bool option"

record Routing =
  RUDefault :: RouteGroup

record Config =
  c_Global :: GlobalConfig
  c_Defaults :: Defaults
  c_Routing :: Routing
  SpecialZones :: "RouteGroup list"

section \<open>Defaults and groups\<close>

definition default_if :: "bool \<Rightarrow> 'a \<Rightarrow> 'a \<Rightarrow> 'a" where
  "default_if unset v x = (if unset then v else x)"

definition ApplyDefaults :: "Config \<Rightarrow> Config" where
  "ApplyDefaults c =
     (let g = c_Global c; ru = RUDefault (c_Routing c); src = g_Source ru in
      c\<lparr>c_Global := g\<lparr>
            RefreshInterval := default_if (RefreshInterval g = 0) (3600 * Second) (RefreshInterval g),
            HealthCheckInterval :=
              default_if (HealthCheckInterval g = 0) (5 * Second) (HealthCheckInterval g),
            HTTPTimeout := default_if (HTTPTimeout g = 0) (30 * Second) (HTTPTimeout g),
            StateDir := default_if (StateDir g = '''') ''/var/lib/route-sync'' (StateDir g),
            LogFormat := default_if (LogFormat g = '''') ''text'' (LogFormat g),
            MetricsListen := default_if (MetricsListen g = '''') ''127.0.0.1:9108'' (MetricsListen g),
            RouteProtocol := default_if (RouteProtocol g = 0) 99 (RouteProtocol g),
            RulePriorityBase := default_if (RulePriorityBase g = 0) 1000 (RulePriorityBase g),
            RulePriorityStep := default_if (RulePriorityStep g = 0) 10 (RulePriorityStep g)\<rparr>,
        c_Defaults := (c_Defaults c)\<lparr>EnableRUBuiltinSource :=
            (case EnableRUBuiltinSource (c_Defaults c) of None \<Rightarrow> Some True | Some v \<Rightarrow> Some v)\<rparr>,
        c_Routing := (c_Routing c)\<lparr>RUDefault := ru\<lparr>
            g_Name := default_if (g_Name ru = '''') ''ru_default'' (g_Name ru),
            g_Source := (if sc_Type src = ''''
              then src\<lparr>sc_Type := ''ripe_country'', sc_Country := ''RU''\<rparr> else src)\<rparr>\<rparr>\<rparr>)"

definition DisableRUDefault :: "Config \<Rightarrow> Config" where
  "DisableRUDefault c =
     c\<lparr>c_Defaults := (c_Defaults c)\<lparr>EnableRUBuiltinSource := Some False\<rparr>,
       c_Routing := (c_Routing c)\<lparr>RUDefault := (RUDefault (c_Routing c))\<lparr>g_Enabled := False\<rparr>\<rparr>\<rparr>"

definition ru_active :: "Config \<Rightarrow> bool" where
  "ru_active c \<longleftrightarrow> g_Enabled (RUDefault (c_Routing c))
     \<and> EnableRUBuiltinSource (c_Defaults c) \<noteq> None
     \<and> the (EnableRUBuiltinSource (c_Defaults c))"

definition Groups :: "Config \<Rightarrow> RouteGroup list" where
  "Groups c =
     (if ru_active c then [(RUDefault (c_Routing c))\<lparr>g_Name := ''ru_default''\<rparr>] else [])
     @ filter g_Enabled (SpecialZones c)"

section \<open>Validation\<close>

datatype hop_error =
    HopNoGateway string
  | HopBlankName string
  | HopDevRequired string
  | ViaNotIP string
  | ViaAmbiguous string Addr
  | Via4NotIP string
  | Via4NotIPv4 string
  | Via6NotIP string
  | Via6NotIPv6 string
  | HealthTargetInvalid string string
  | HealthTimeoutNegative string

datatype group_error =
    NameRequired
  | CountryRequired
  | URLRequired
  | SourceTypeUnknown
  | TableRequired
  | DevRequired
  | FamilyUnknown
  | HopError hop_error
  | ExcludePrefixInvalid string
  | RulePriorityTableRequired
  | RuleTableMismatch
  | RuleFromInvalid

datatype config_error =
    LogFormatUnknown
  | RouteProtocolRange
  | RulePriorityNotPositive
  | GroupInvalid string "group_error list"
  | SpecialPriorityTooLow string int int

definition validateHealthCheck :: "string \<Rightarrow> HealthCheck \<Rightarrow> hop_error list" where
  "validateHealthCheck path hc =
     concat (map (\<lambda>raw. case ParseAddr raw of
         None \<Rightarrow> [HealthTargetInvalid path raw]
       | Some addr \<Rightarrow> if \<not> Addr_IsValid addr then [HealthTargetInvalid path raw] else [])
       (hc_Targets hc))
     @ (if hc_Timeout hc < 0 then [HealthTimeoutNegative path] else [])"

definition mergeHealthChecks :: "HealthCheck \<Rightarrow> HealthCheck \<Rightarrow> HealthCheck" where
  "mergeHealthChecks parent child =
     (let out = (if 0 < length (hc_Targets child) then parent\<lparr>hc_Targets := hc_Targets child\<rparr> else parent)
      in if hc_Timeout child \<noteq> 0 then out\<lparr>hc_Timeout := hc_Timeout child\<rparr> else out)"

fun coalesce :: "string list \<Rightarrow> string" where
  "coalesce [] = ''''"
| "coalesce (v # vs) = (if v \<noteq> '''' then v else coalesce vs)"

definition gateways_path :: "string \<Rightarrow> nat \<Rightarrow> string" where
  "gateways_path path i = path @ ''.gateways['' @ Itoa (int i) @ '']''"

definition merge_gateway :: "NextHopConfig \<Rightarrow> GatewayConfig \<Rightarrow> NextHopConfig" where
  "merge_gateway h gw =
     \<lparr>nh_Dev = coalesce [gw_Dev gw, nh_Dev h], nh_Via = gw_Via gw, nh_Via4 = gw_Via4 gw,
      nh_Via6 = gw_Via6 gw, nh_OnLink = (gw_OnLink gw \<or> nh_OnLink h),
      nh_HealthCheck = mergeHealthChecks (nh_HealthCheck h) (gw_HealthCheck gw), nh_Gateways = []\<rparr>"

text \<open>
  The call for a gateway gets a merged hop without gateways, so the recursion is one level deep.
\<close>

function validateNextHop :: "string \<Rightarrow> string \<Rightarrow> NextHopConfig \<Rightarrow> bool \<Rightarrow> hop_error list" where
  "validateNextHop path family h requireDev =
     validateHealthCheck (path @ ''.health_check'') (nh_HealthCheck h)
     @ (if 0 < length (nh_Gateways h) then
          concat (map (\<lambda>(i, gw).
            let gwPath = gateways_path path i; merged = merge_gateway h gw in
            (if nh_Via merged = '''' \<and> nh_Via4 merged = '''' \<and> nh_Via6 merged = ''''
               then [HopNoGateway gwPath] else [])
            @ (if gw_Name gw \<noteq> '''' \<and> TrimSpace (gw_Name gw) = '''' then [HopBlankName gwPath] else [])
            @ validateHealthCheck (gwPath @ ''.health_check'') (nh_HealthCheck merged)
            @ validateNextHop gwPath family merged True)
            (enumerate 0 (nh_Gateways h)))
        else
          (if requireDev \<and> nh_Dev h = '''' then [HopDevRequired path] else [])
          @ (if nh_Via h \<noteq> '''' then
               (case ParseAddr (nh_Via h) of
                  None \<Rightarrow> [ViaNotIP path]
                | Some addr \<Rightarrow> if family = ''dual'' \<and> nh_Via4 h = '''' \<and> nh_Via6 h = ''''
                    then [ViaAmbiguous path addr] else [])
             else [])
          @ (if nh_Via4 h \<noteq> '''' then
               (case ParseAddr (nh_Via4 h) of
                  None \<Rightarrow> [Via4NotIP path]
                | Some addr \<Rightarrow> if \<not> Is4 addr then [Via4NotIPv4 path] else [])
             else [])
          @ (if nh_Via6 h \<noteq> '''' then
               (case ParseAddr (nh_Via6 h) of
                  None \<Rightarrow> [Via6NotIP path]
                | Some addr \<Rightarrow> if \<not> Is6 addr then [Via6NotIPv6 path] else [])
             else []))"
  by pat_completeness auto
termination
  by (relation "measure (\<lambda>(path, family, h, requireDev). length (nh_Gateways h))")
    (auto simp: merge_gateway_def)

declare validateNextHop.simps [simp del]

definition target_hop :: "TargetConfig \<Rightarrow> NextHopConfig" where
  "target_hop t = \<lparr>nh_Dev = tg_Dev t, nh_Via = tg_Via t, nh_Via4 = tg_Via4 t, nh_Via6 = tg_Via6 t,
     nh_OnLink = tg_OnLink t, nh_HealthCheck = tg_HealthCheck t, nh_Gateways = tg_Gateways t\<rparr>"

definition validateGroup :: "RouteGroup \<Rightarrow> group_error list" where
  "validateGroup g =
     (let t = g_Target g; r = g_Rule g;
          family = (if tg_Family t = '''' then ''dual'' else tg_Family t) in
      (if g_Name g = '''' then [NameRequired] else [])
      @ (if sc_Type (g_Source g) = ''ripe_country''
           then (if sc_Country (g_Source g) = '''' then [CountryRequired] else [])
         else if sc_Type (g_Source g) = ''txt''
           then (if sc_URL (g_Source g) = '''' then [URLRequired] else [])
         else [SourceTypeUnknown])
      @ (if tg_Table t \<le> 0 then [TableRequired] else [])
      @ (if tg_Dev t = '''' \<and> length (tg_Gateways t) = 0 then [DevRequired] else [])
      @ (if family \<noteq> ''dual'' \<and> family \<noteq> ''ipv4'' \<and> family \<noteq> ''ipv6'' then [FamilyUnknown] else [])
      @ map HopError (validateNextHop ''target'' family (target_hop t) False)
      @ (case tg_Default t of None \<Rightarrow> []
         | Some d \<Rightarrow> map HopError (validateNextHop ''target.default'' family d True))
      @ concat (map (\<lambda>raw. case ParsePrefix raw of None \<Rightarrow> [ExcludePrefixInvalid raw] | Some _ \<Rightarrow> [])
          (tg_ExcludePrefixes t))
      @ (if rc_Enabled r then
           (if rc_Priority r \<le> 0 \<or> rc_Table r \<le> 0 then [RulePriorityTableRequired] else [])
           @ (if rc_Table r \<noteq> tg_Table t then [RuleTableMismatch] else [])
           @ (if rc_From r \<noteq> '''' then
                (case ParsePrefix (rc_From r) of None \<Rightarrow> [RuleFromInvalid] | Some _ \<Rightarrow> [])
              else [])
         else []))"

definition Validate :: "Config \<Rightarrow> config_error list" where
  "Validate c =
     (let g = c_Global c; ru = RUDefault (c_Routing c) in
      (if LogFormat g \<noteq> ''text'' \<and> LogFormat g \<noteq> ''json'' then [LogFormatUnknown] else [])
      @ (if RouteProtocol g < 1 \<or> 255 < RouteProtocol g then [RouteProtocolRange] else [])
      @ (if RulePriorityBase g \<le> 0 \<or> RulePriorityStep g \<le> 0 then [RulePriorityNotPositive] else [])
      @ concat (map (\<lambda>grp. case validateGroup grp of [] \<Rightarrow> [] | errs \<Rightarrow> [GroupInvalid (g_Name grp) errs])
          (Groups c))
      @ (if ru_active c then
           concat (map (\<lambda>z.
             if g_Enabled z \<and> rc_Enabled (g_Rule z) \<and> rc_Enabled (g_Rule ru)
                \<and> rc_Priority (g_Rule z) \<ge> rc_Priority (g_Rule ru)
             then [SpecialPriorityTooLow (g_Name z) (rc_Priority (g_Rule z)) (rc_Priority (g_Rule ru))]
             else []) (SpecialZones c))
         else []))"

section \<open>Loading\<close>

datatype load_error =
    ReadError string
  | YamlError string
  | ConfigInvalid "config_error list"

definition validated :: "Config \<Rightarrow> (load_error, Config) result" where
  "validated c = (if Validate c = [] then Inr c else Inl (ConfigInvalid (Validate c)))"

definition Load ::
  "(string \<Rightarrow> (string, string) result) \<Rightarrow> (string \<Rightarrow> (string, Config) result) \<Rightarrow> string
     \<Rightarrow> (load_error, Config) result" where
  "Load readFile yamlUnmarshal path =
     (case readFile path of
        Inl e \<Rightarrow> Inl (ReadError e)
      | Inr b \<Rightarrow> (case yamlUnmarshal b of
          Inl e \<Rightarrow> Inl (YamlError e)
        | Inr c \<Rightarrow> validated (ApplyDefaults c)))"

section \<open>What a validated configuration promises\<close>

lemma validateNextHop_leaf:
  assumes "validateNextHop path family h req = []" "nh_Gateways h = []"
  shows "nh_Via4 h \<noteq> [] \<Longrightarrow> \<exists>a. ParseAddr (nh_Via4 h) = Some a \<and> Is4 a"
    "nh_Via6 h \<noteq> [] \<Longrightarrow> \<exists>a. ParseAddr (nh_Via6 h) = Some a \<and> Is6 a"
    "nh_Via h \<noteq> [] \<Longrightarrow> \<exists>a. ParseAddr (nh_Via h) = Some a"
    "req \<Longrightarrow> nh_Dev h \<noteq> []"
proof -
  note v = assms(1) [unfolded validateNextHop.simps [of path] append_is_Nil_conv assms(2)]
  show "\<exists>a. ParseAddr (nh_Via4 h) = Some a \<and> Is4 a" if "nh_Via4 h \<noteq> []"
    using v that by (cases "ParseAddr (nh_Via4 h)") (simp_all split: if_splits)
  show "\<exists>a. ParseAddr (nh_Via6 h) = Some a \<and> Is6 a" if "nh_Via6 h \<noteq> []"
    using v that by (cases "ParseAddr (nh_Via6 h)") (simp_all split: if_splits)
  show "\<exists>a. ParseAddr (nh_Via h) = Some a" if "nh_Via h \<noteq> []"
    using v that by (cases "ParseAddr (nh_Via h)") simp_all
  show "nh_Dev h \<noteq> []" if "req" using v that by (simp split: if_splits)
qed

lemma validateGroup_hops:
  assumes "validateGroup g = []"
  obtains family where "validateNextHop ''target'' family (target_hop (g_Target g)) False = []"
    "\<And>d. tg_Default (g_Target g) = Some d \<Longrightarrow> validateNextHop ''target.default'' family d True = []"
proof -
  note v = assms [unfolded validateGroup_def Let_def append_is_Nil_conv]
  show thesis
    by (rule that [of "if tg_Family (g_Target g) = [] then ''dual'' else tg_Family (g_Target g)"])
      (use v in simp_all)
qed

lemma validateGroup_fields:
  assumes "validateGroup g = []"
  shows "g_Name g \<noteq> []" "0 < tg_Table (g_Target g)"
    "tg_Family (g_Target g) \<in> {[], ''dual'', ''ipv4'', ''ipv6''}"
    "sc_Type (g_Source g) = ''ripe_country'' \<and> sc_Country (g_Source g) \<noteq> []
     \<or> sc_Type (g_Source g) = ''txt'' \<and> sc_URL (g_Source g) \<noteq> []"
    "tg_Dev (g_Target g) \<noteq> [] \<or> tg_Gateways (g_Target g) \<noteq> []"
    "\<forall>raw \<in> set (tg_ExcludePrefixes (g_Target g)). \<exists>p. ParsePrefix raw = Some p"
    "rc_Enabled (g_Rule g) \<Longrightarrow> 0 < rc_Priority (g_Rule g) \<and> rc_Table (g_Rule g) = tg_Table (g_Target g)"
    "rc_Enabled (g_Rule g) \<Longrightarrow> rc_From (g_Rule g) \<noteq> [] \<Longrightarrow> \<exists>p. ParsePrefix (rc_From (g_Rule g)) = Some p"
proof -
  note v = assms [unfolded validateGroup_def Let_def append_is_Nil_conv]
  show "g_Name g \<noteq> []" "0 < tg_Table (g_Target g)" using v by (simp_all split: if_splits)
  show "tg_Family (g_Target g) \<in> {[], ''dual'', ''ipv4'', ''ipv6''}"
    using v by (cases "tg_Family (g_Target g) = []") (simp_all split: if_splits)
  show "sc_Type (g_Source g) = ''ripe_country'' \<and> sc_Country (g_Source g) \<noteq> []
     \<or> sc_Type (g_Source g) = ''txt'' \<and> sc_URL (g_Source g) \<noteq> []"
    using v by (simp split: if_splits)
  show "tg_Dev (g_Target g) \<noteq> [] \<or> tg_Gateways (g_Target g) \<noteq> []" using v by (auto split: if_splits)
  show "\<forall>raw \<in> set (tg_ExcludePrefixes (g_Target g)). \<exists>p. ParsePrefix raw = Some p"
  proof
    fix raw assume "raw \<in> set (tg_ExcludePrefixes (g_Target g))"
    then have "(case ParsePrefix raw of None \<Rightarrow> [ExcludePrefixInvalid raw] | Some _ \<Rightarrow> []) = []"
      using v by simp
    then show "\<exists>p. ParsePrefix raw = Some p" by (cases "ParsePrefix raw") simp_all
  qed
  show "0 < rc_Priority (g_Rule g) \<and> rc_Table (g_Rule g) = tg_Table (g_Target g)" if "rc_Enabled (g_Rule g)"
    using v that by (simp split: if_splits)
  show "\<exists>p. ParsePrefix (rc_From (g_Rule g)) = Some p" if "rc_Enabled (g_Rule g)" "rc_From (g_Rule g) \<noteq> []"
    using v that by (cases "ParsePrefix (rc_From (g_Rule g))") simp_all
qed

lemma Validate_groups: "Validate c = [] \<Longrightarrow> grp \<in> set (Groups c) \<Longrightarrow> validateGroup grp = []"
  unfolding Validate_def Let_def append_is_Nil_conv by (cases "validateGroup grp") force+

lemma Validate_global:
  assumes "Validate c = []"
  shows "1 \<le> RouteProtocol (c_Global c)" "RouteProtocol (c_Global c) \<le> 255"
    "0 < RulePriorityBase (c_Global c)" "0 < RulePriorityStep (c_Global c)"
    "LogFormat (c_Global c) = ''text'' \<or> LogFormat (c_Global c) = ''json''"
  using assms [unfolded Validate_def Let_def append_is_Nil_conv] by (simp_all split: if_splits)

lemma Validate_special_priority:
  assumes "Validate c = []" "ru_active c" "rc_Enabled (g_Rule (RUDefault (c_Routing c)))"
    and "z \<in> set (SpecialZones c)" "g_Enabled z" "rc_Enabled (g_Rule z)"
  shows "rc_Priority (g_Rule z) < rc_Priority (g_Rule (RUDefault (c_Routing c)))"
proof -
  let ?check = "\<lambda>z. if g_Enabled z \<and> rc_Enabled (g_Rule z) \<and> rc_Enabled (g_Rule (RUDefault (c_Routing c)))
      \<and> rc_Priority (g_Rule z) \<ge> rc_Priority (g_Rule (RUDefault (c_Routing c)))
    then [SpecialPriorityTooLow (g_Name z) (rc_Priority (g_Rule z)) (rc_Priority (g_Rule (RUDefault (c_Routing c))))]
    else []"
  have "concat (map ?check (SpecialZones c)) = []"
    using assms(1) [unfolded Validate_def Let_def append_is_Nil_conv] assms(2) by presburger
  then have "?check z = []" unfolding concat_eq_Nil_conv set_map using assms(4) by blast
  then show ?thesis using assms(3,5,6) by (simp split: if_splits)
qed

section \<open>Defaults\<close>

lemma default_if_idem [simp]:
  "default_if (default_if (x = z) v x = z) v (default_if (x = z) v x) = default_if (x = z) v x"
  by (simp add: default_if_def)

lemma ApplyDefaults_idem: "ApplyDefaults (ApplyDefaults c) = ApplyDefaults c"
  by (cases "sc_Type (g_Source (RUDefault (c_Routing c))) = []")
    (simp_all add: ApplyDefaults_def Let_def split: option.split)

end
