(* ===== verification/Metrics.thy ===== *)
theory Metrics
  imports Go_Prelude
begin

text \<open>
  \<open>internal/metrics\<close>: the registry of counters and gauges, label escaping and the text the metrics
  endpoint serves. Every value stored is a whole number (counts, 0 or 1, route metrics, a Unix time)
  well inside the range a \<open>float64\<close> represents exactly, so values are integers. The registry's lock
  makes each operation atomic. The endpoint is a server state and the one path it serves.
\<close>

record Registry =
  counters :: "(string \<times> int) list"
  gauges :: "(string \<times> int) list"

definition New_Registry :: Registry where
  "New_Registry = \<lparr>counters = [], gauges = []\<rparr>"

definition Inc :: "string \<Rightarrow> Registry \<Rightarrow> Registry" where
  "Inc name r =
     r\<lparr>counters := go_map_set (counters r) name
         ((case map_of (counters r) name of None \<Rightarrow> 0 | Some v \<Rightarrow> v) + 1)\<rparr>"

definition Set_Gauge :: "string \<Rightarrow> int \<Rightarrow> Registry \<Rightarrow> Registry" where
  "Set_Gauge name value r = r\<lparr>gauges := go_map_set (gauges r) name value\<rparr>"

definition sanitize :: "string \<Rightarrow> string" where
  "sanitize s = concat (map (\<lambda>c.
     if c = CHR 0x5C then [CHR 0x5C, CHR 0x5C]
     else if c = CHR 0x22 then [CHR 0x5C, CHR 0x22]
     else if c = CHR 0x0A then ''_''
     else [c]) s)"

definition group_gauge_name :: "string \<Rightarrow> string \<Rightarrow> string" where
  "group_gauge_name name grp = name @ ''{group='' @ [CHR 0x22] @ sanitize grp @ [CHR 0x22] @ ''}''"

definition SetGroupGauge :: "string \<Rightarrow> string \<Rightarrow> int \<Rightarrow> Registry \<Rightarrow> Registry" where
  "SetGroupGauge name grp value r = Set_Gauge (group_gauge_name name grp) value r"

definition Handler :: "range_order \<Rightarrow> range_order \<Rightarrow> Registry \<Rightarrow> string" where
  "Handler ord_c ord_g r =
     concat (map (\<lambda>(k, v). ''route_sync_'' @ k @ '' '' @ Itoa v @ [CHR 0x0A])
       (go_map_range ord_c (counters r)))
     @ concat (map (\<lambda>(k, v). ''route_sync_'' @ k @ '' '' @ Itoa v @ ''.000000'' @ [CHR 0x0A])
       (go_map_range ord_g (gauges r)))"

section \<open>The registry as two maps\<close>

definition counter :: "Registry \<Rightarrow> string \<Rightarrow> int" where
  "counter r name = (case map_of (counters r) name of None \<Rightarrow> 0 | Some v \<Rightarrow> v)"

definition gauge :: "Registry \<Rightarrow> string \<Rightarrow> int option" where
  "gauge r = map_of (gauges r)"

definition reg_inv :: "Registry \<Rightarrow> bool" where
  "reg_inv r \<longleftrightarrow> distinct (map fst (counters r)) \<and> distinct (map fst (gauges r))
     \<and> (\<forall>(k, v) \<in> set (counters r). 0 < v)"

named_theorems registry \<open>what the registry operations do to counters and gauges\<close>

lemma counter_Inc [registry]: "counter (Inc name r) n = counter r n + (if n = name then 1 else 0)"
  by (auto simp: counter_def Inc_def)

lemma counter_Set [registry]:
  "counter (Set_Gauge g v r) n = counter r n" "counter (SetGroupGauge g grp v r) n = counter r n"
  by (simp_all add: counter_def Set_Gauge_def SetGroupGauge_def)

lemma gauge_Set [registry]:
  "gauge (Set_Gauge g v r) = (gauge r)(g \<mapsto> v)"
  "gauge (SetGroupGauge g grp v r) = (gauge r)(group_gauge_name g grp \<mapsto> v)"
  by (simp_all add: gauge_def Set_Gauge_def SetGroupGauge_def)

lemma gauge_Inc [registry]: "gauge (Inc name r) = gauge r"
  by (simp add: gauge_def Inc_def)

lemma set_go_map_set: "set (go_map_set m k v) \<subseteq> insert (k, v) (set m)"
  by (induction m k v rule: go_map_set.induct) auto

lemma reg_inv_New: "reg_inv New_Registry"
  by (simp add: reg_inv_def New_Registry_def)

lemma Inc_counter: "Inc name r = r\<lparr>counters := go_map_set (counters r) name (counter r name + 1)\<rparr>"
  by (simp add: Inc_def counter_def)

lemma reg_inv_Inc:
  assumes "reg_inv r"
  shows "reg_inv (Inc name r)"
proof -
  have "0 \<le> counter r name"
    using assms by (force simp: counter_def reg_inv_def split: option.splits dest: map_of_SomeD)
  then have "\<forall>(k, v) \<in> set (go_map_set (counters r) name (counter r name + 1)). 0 < v"
    using set_go_map_set [of "counters r" name "counter r name + 1"] assms
    by (fastforce simp: reg_inv_def)
  then show ?thesis using assms by (simp add: reg_inv_def Inc_counter distinct_go_map_set)
qed

lemma reg_inv_Set: "reg_inv r \<Longrightarrow> reg_inv (Set_Gauge name v r)"
  by (auto simp: reg_inv_def Set_Gauge_def distinct_go_map_set)

section \<open>Label escaping\<close>

text \<open>
  The reader of the exposition format: a label value ends at the first quote that no backslash
  escapes.
\<close>

fun read_label :: "string \<Rightarrow> (string \<times> string) option" where
  "read_label [] = None"
| "read_label [c] = (if c = CHR 0x22 then Some ([], []) else None)"
| "read_label (c # d # s) =
     (if c = CHR 0x22 then Some ([], d # s)
      else if c = CHR 0x5C then map_option (\<lambda>(v, r). (d # v, r)) (read_label s)
      else map_option (\<lambda>(v, r). (c # v, r)) (read_label (d # s)))"

definition flat_newline :: "string \<Rightarrow> string" where
  "flat_newline s = map (\<lambda>c. if c = CHR 0x0A then CHR ''_'' else c) s"

locale label_escaper =
  fixes esc :: "string \<Rightarrow> string"
  assumes esc_Nil: "esc [] = []"
    and esc_Cons: "esc (c # s) =
      (if c = CHR 0x5C then [CHR 0x5C, CHR 0x5C] else if c = CHR 0x22 then [CHR 0x5C, CHR 0x22]
       else if c = CHR 0x0A then ''_'' else [c]) @ esc s"
begin

lemma read_label_esc: "read_label (esc s @ CHR 0x22 # rest) = Some (flat_newline s, rest)"
proof (induction s)
  case Nil
  then show ?case by (cases rest) (simp_all add: esc_Nil flat_newline_def)
next
  case (Cons c s)
  have "\<exists>d t. esc s @ CHR 0x22 # rest = d # t" by (cases "esc s") auto
  then obtain d t where "esc s @ CHR 0x22 # rest = d # t" by blast
  with Cons show ?case by (auto simp: esc_Cons flat_newline_def)
qed

lemma esc_no_newline: "CHR 0x0A \<notin> set (esc s)"
  by (induction s) (auto simp: esc_Nil esc_Cons)

lemma esc_inj: "CHR 0x0A \<notin> set s \<Longrightarrow> CHR 0x0A \<notin> set t \<Longrightarrow> esc s = esc t \<longleftrightarrow> s = t"
proof -
  have flat: "CHR 0x0A \<notin> set u \<Longrightarrow> flat_newline u = u" for u
    by (induction u) (auto simp: flat_newline_def)
  assume "CHR 0x0A \<notin> set s" "CHR 0x0A \<notin> set t"
  then have rd: "read_label (esc s @ [CHR 0x22]) = Some (s, [])" "read_label (esc t @ [CHR 0x22]) = Some (t, [])"
    using read_label_esc [of s "[]"] read_label_esc [of t "[]"] by (simp_all only: flat not_False_eq_True)
  show ?thesis using rd by (metis Pair_inject option.inject)
qed

end

interpretation metrics_label: label_escaper sanitize
  by unfold_locales (simp_all add: sanitize_def)

section \<open>The endpoint\<close>

text \<open>
  \<open>Serve\<close>: one goroutine listens until an error, another shuts the server down when the context is
  cancelled, also when that comes first. The handler is registered for one path; for every other
  \<open>http.ServeMux\<close> answers by itself, which is \<open>None\<close> here. The five seconds that \<open>Shutdown\<close> grants to
  requests under way are left out.
\<close>

datatype server = Starting | Serving | ServeFailed | ShutDown

datatype server_event = Listen bool | ContextDone

fun serve_step :: "server_event \<Rightarrow> server \<Rightarrow> server" where
  "serve_step (Listen ok) Starting = (if ok then Serving else ServeFailed)"
| "serve_step ContextDone Starting = ShutDown"
| "serve_step ContextDone Serving = ShutDown"
| "serve_step ev s = s"

definition Serve :: "server_event list \<Rightarrow> server" where
  "Serve evs = fold serve_step evs Starting"

definition serve_reply :: "server \<Rightarrow> string \<Rightarrow> range_order \<Rightarrow> range_order \<Rightarrow> Registry \<Rightarrow> string option" where
  "serve_reply s url_path ord_c ord_g r =
     (if s = Serving \<and> url_path = ''/metrics'' then Some (Handler ord_c ord_g r) else None)"

text \<open>A failed or closed server stays so.\<close>

lemma serve_final: "s = ServeFailed \<or> s = ShutDown \<Longrightarrow> fold serve_step evs s = s"
proof (induction evs)
  case (Cons ev evs)
  then show ?case by (cases ev) auto
qed simp

lemma Serve_ContextDone:
  assumes "ContextDone \<in> set evs"
  shows "Serve evs \<noteq> Serving"
proof -
  obtain xs ys where "evs = xs @ ContextDone # ys" using assms by (meson split_list)
  then show ?thesis by (cases "fold serve_step xs Starting") (simp_all add: Serve_def serve_final)
qed

end
