(* ===== verification/Rtnl.thy ===== *)
theory Rtnl
  imports Netip_Text
begin

text \<open>
  \<open>internal/rtnl\<close>: the program's routes and rules, the \<open>Kernel\<close> interface the other components use,
  and \<open>NetlinkKernel\<close>, its implementation over the netlink package. A kernel operation reads the
  state \<open>'w\<close> of the world; the ones that change it return the new state. The netlink package is
  third-party code: its calls are the fields of a record \<open>Netlink\<close> that is an argument of every
  definition here, and so are the values \<open>netlink.NewRule()\<close> starts from.
\<close>

unbundle bit_operations_syntax

section \<open>Types\<close>

definition RouteTypeUnicast :: int where
  "RouteTypeUnicast = 0"

definition RouteTypeThrow :: int where
  "RouteTypeThrow = 1"

record Route =
  rt_Group :: string
  rt_Table :: int
  rt_Protocol :: int
  rt_Type :: int
  rt_Dev :: string
  rt_LinkIndex :: int
  rt_Via :: Addr
  rt_OnLink :: bool
  rt_Metric :: int
  rt_Dst :: Prefix

record Rule =
  ru_Group :: string
  ru_Priority :: int
  ru_Table :: int
  ru_HasFWMark :: bool
  ru_FWMark :: "32 word"
  ru_Mask :: "32 word"
  ru_From :: Prefix

definition zero_Route :: Route where
  "zero_Route = \<lparr>rt_Group = '''', rt_Table = 0, rt_Protocol = 0, rt_Type = 0, rt_Dev = '''',
     rt_LinkIndex = 0, rt_Via = AddrZero, rt_OnLink = False, rt_Metric = 0, rt_Dst = PrefixZero\<rparr>"

definition zero_Rule :: Rule where
  "zero_Rule = \<lparr>ru_Group = '''', ru_Priority = 0, ru_Table = 0, ru_HasFWMark = False, ru_FWMark = 0,
     ru_Mask = 0, ru_From = PrefixZero\<rparr>"

datatype kernel_error = EEXIST | ESRCH | ENOENT | ErrUnsupported | OtherError string

record 'w Kernel =
  LinkIndexByName :: "string \<Rightarrow> 'w \<Rightarrow> (kernel_error, int) result"
  ListRoutes :: "int \<Rightarrow> int \<Rightarrow> int \<Rightarrow> 'w \<Rightarrow> (kernel_error, Route list) result"
  AddRoute :: "Route \<Rightarrow> 'w \<Rightarrow> kernel_error option \<times> 'w"
  DeleteRoute :: "Route \<Rightarrow> 'w \<Rightarrow> kernel_error option \<times> 'w"
  ListRules :: "int \<Rightarrow> 'w \<Rightarrow> (kernel_error, Rule list) result"
  AddRule :: "Rule \<Rightarrow> 'w \<Rightarrow> kernel_error option \<times> 'w"
  DeleteRule :: "Rule \<Rightarrow> 'w \<Rightarrow> kernel_error option \<times> 'w"

section \<open>Netlink values\<close>

text \<open>\<open>net.IPNet\<close>, \<open>net.CIDRMask\<close> and \<open>IPMask.Size\<close>; a mask that is no prefix mask has size (0, 0).\<close>

record IPNet =
  ipn_IP :: "8 word list"
  ipn_Mask :: "8 word list"

definition CIDRMask :: "int \<Rightarrow> nat \<Rightarrow> 8 word list" where
  "CIDRMask ones bits =
     (if (bits \<noteq> 32 \<and> bits \<noteq> 128) \<or> ones < 0 \<or> int bits < ones then []
      else map word_of_nat (be_digits 256 (bits div 8) (2 ^ bits - 2 ^ (bits - nat ones))))"

definition mask_bits :: "8 word list \<Rightarrow> bool list" where
  "mask_bits m = concat (map (\<lambda>b. map (bit b) [7, 6, 5, 4, 3, 2, 1, 0]) m)"

definition Mask_Size :: "8 word list \<Rightarrow> int \<times> int" where
  "Mask_Size m =
     (let bs = mask_bits m; ones = length (takeWhile (\<lambda>b. b) bs) in
      if list_all (\<lambda>b. \<not> b) (drop ones bs) then (int ones, int (length bs)) else (0, 0))"

record NlRoute =
  nl_Table :: int
  nl_Protocol :: int
  nl_LinkIndex :: int
  nl_Dst :: "IPNet option"
  nl_Gw :: "8 word list option"
  nl_Flags :: int
  nl_Priority :: int
  nl_Type :: int

record NlRule =
  nr_Priority :: int
  nr_Table :: int
  nr_Mark :: "32 word"
  nr_Mask :: "32 word option"
  nr_Src :: "IPNet option"

datatype nl_family = FAMILY_V4 | FAMILY_V6

text \<open>Values of the Linux user API: the throw route type and the on-link flag.\<close>

definition RTN_THROW :: int where
  "RTN_THROW = 9"

definition FLAG_ONLINK :: int where
  "FLAG_ONLINK = 4"

record 'w Netlink =
  nk_LinkByName :: "string \<Rightarrow> 'w \<Rightarrow> (kernel_error, int) result"
  nk_RouteListFiltered :: "nl_family \<Rightarrow> int \<Rightarrow> int \<Rightarrow> 'w \<Rightarrow> (kernel_error, NlRoute list) result"
  nk_RouteAdd :: "NlRoute \<Rightarrow> 'w \<Rightarrow> kernel_error option \<times> 'w"
  nk_RouteDel :: "NlRoute \<Rightarrow> 'w \<Rightarrow> kernel_error option \<times> 'w"
  nk_RuleList :: "nl_family \<Rightarrow> 'w \<Rightarrow> (kernel_error, NlRule list) result"
  nk_RuleAdd :: "NlRule \<Rightarrow> 'w \<Rightarrow> kernel_error option \<times> 'w"
  nk_RuleDel :: "NlRule \<Rightarrow> 'w \<Rightarrow> kernel_error option \<times> 'w"
  nk_NewRule :: NlRule

section \<open>Conversions\<close>

definition prefixToIPNet :: "Prefix \<Rightarrow> IPNet" where
  "prefixToIPNet p =
     (let bits = (if Is6 (Prefix_Addr p) then 128 else 32) in
      \<lparr>ipn_IP = AsSlice (Prefix_Addr (Masked p)), ipn_Mask = CIDRMask (Prefix_Bits p) bits\<rparr>)"

definition ipNetToPrefix :: "IPNet \<Rightarrow> Prefix option" where
  "ipNetToPrefix n =
     (case AddrFromSlice (ipn_IP n) of
        None \<Rightarrow> None
      | Some addr \<Rightarrow> Some (Masked (PrefixFrom (Unmap addr) (fst (Mask_Size (ipn_Mask n))))))"

definition ignoreExists :: "kernel_error option \<Rightarrow> kernel_error option" where
  "ignoreExists err = (if err = Some EEXIST then None else err)"

definition ignoreNotFound :: "kernel_error option \<Rightarrow> kernel_error option" where
  "ignoreNotFound err = (if err = Some ESRCH \<or> err = Some ENOENT then None else err)"

definition family_of :: "int \<Rightarrow> nl_family" where
  "family_of family = (if family = 6 then FAMILY_V6 else FAMILY_V4)"

section \<open>NetlinkKernel\<close>

definition nl_LinkIndexByName :: "'w Netlink \<Rightarrow> string \<Rightarrow> 'w \<Rightarrow> (kernel_error, int) result" where
  "nl_LinkIndexByName nl name w = nk_LinkByName nl name w"

text \<open>One listed netlink route; routes without a destination or with an unreadable one are skipped.\<close>

definition route_of_nl :: "NlRoute \<Rightarrow> Route option" where
  "route_of_nl r =
     (case nl_Dst r of
        None \<Rightarrow> None
      | Some d \<Rightarrow> (case ipNetToPrefix d of
          None \<Rightarrow> None
        | Some p \<Rightarrow>
            let rr = zero_Route\<lparr>rt_Table := nl_Table r, rt_Protocol := nl_Protocol r,
                  rt_LinkIndex := nl_LinkIndex r, rt_Dst := p,
                  rt_OnLink := (nl_Flags r AND FLAG_ONLINK \<noteq> 0), rt_Metric := nl_Priority r\<rparr>;
                rr = (if nl_Type r = RTN_THROW then rr\<lparr>rt_Type := RouteTypeThrow\<rparr> else rr) in
            Some (case nl_Gw r of
                None \<Rightarrow> rr
              | Some gw \<Rightarrow> (case AddrFromSlice gw of
                  None \<Rightarrow> rr | Some addr \<Rightarrow> rr\<lparr>rt_Via := Unmap addr\<rparr>))))"

definition nl_ListRoutes ::
  "'w Netlink \<Rightarrow> int \<Rightarrow> int \<Rightarrow> int \<Rightarrow> 'w \<Rightarrow> (kernel_error, Route list) result" where
  "nl_ListRoutes nl table family protocol w =
     (case nk_RouteListFiltered nl (family_of family) table protocol w of
        Inl e \<Rightarrow> Inl e
      | Inr nlrs \<Rightarrow> Inr (List.map_filter route_of_nl nlrs))"

text \<open>The message both route operations send; a throw route carries no device and no gateway.\<close>

definition nl_route_msg :: "Route \<Rightarrow> NlRoute" where
  "nl_route_msg r =
     (let nlr = \<lparr>nl_Table = rt_Table r, nl_Protocol = rt_Protocol r, nl_LinkIndex = rt_LinkIndex r,
                 nl_Dst = Some (prefixToIPNet (rt_Dst r)), nl_Gw = None, nl_Flags = 0,
                 nl_Priority = rt_Metric r, nl_Type = 0\<rparr> in
      if rt_Type r = RouteTypeThrow then nlr\<lparr>nl_Type := RTN_THROW, nl_LinkIndex := 0\<rparr>
      else
        let nlr = (if Addr_IsValid (rt_Via r) then nlr\<lparr>nl_Gw := Some (AsSlice (rt_Via r))\<rparr> else nlr) in
        if rt_OnLink r then nlr\<lparr>nl_Flags := nl_Flags nlr OR FLAG_ONLINK\<rparr> else nlr)"

definition nl_AddRoute :: "'w Netlink \<Rightarrow> Route \<Rightarrow> 'w \<Rightarrow> kernel_error option \<times> 'w" where
  "nl_AddRoute nl r w = (case nk_RouteAdd nl (nl_route_msg r) w of (err, w') \<Rightarrow> (ignoreExists err, w'))"

definition nl_DeleteRoute :: "'w Netlink \<Rightarrow> Route \<Rightarrow> 'w \<Rightarrow> kernel_error option \<times> 'w" where
  "nl_DeleteRoute nl r w =
     (case nk_RouteDel nl (nl_route_msg r) w of (err, w') \<Rightarrow> (ignoreNotFound err, w'))"

definition rule_of_nl :: "NlRule \<Rightarrow> Rule" where
  "rule_of_nl r =
     (let rr = zero_Rule\<lparr>ru_Priority := nr_Priority r, ru_Table := nr_Table r, ru_FWMark := nr_Mark r\<rparr>;
          rr = (case nr_Mask r of None \<Rightarrow> rr | Some m \<Rightarrow> rr\<lparr>ru_HasFWMark := True, ru_Mask := m\<rparr>) in
      case nr_Src r of None \<Rightarrow> rr
      | Some src \<Rightarrow> (case ipNetToPrefix src of None \<Rightarrow> rr | Some p \<Rightarrow> rr\<lparr>ru_From := p\<rparr>))"

definition nl_ListRules :: "'w Netlink \<Rightarrow> int \<Rightarrow> 'w \<Rightarrow> (kernel_error, Rule list) result" where
  "nl_ListRules nl family w =
     (case nk_RuleList nl (family_of family) w of
        Inl e \<Rightarrow> Inl e
      | Inr nlrs \<Rightarrow> Inr (map rule_of_nl nlrs))"

definition nl_rule_msg :: "'w Netlink \<Rightarrow> Rule \<Rightarrow> NlRule" where
  "nl_rule_msg nl r =
     (let nlr = (nk_NewRule nl)\<lparr>nr_Priority := ru_Priority r, nr_Table := ru_Table r\<rparr>;
          nlr = (if ru_HasFWMark r then nlr\<lparr>nr_Mark := ru_FWMark r, nr_Mask := Some (ru_Mask r)\<rparr> else nlr) in
      if Prefix_IsValid (ru_From r) then nlr\<lparr>nr_Src := Some (prefixToIPNet (ru_From r))\<rparr> else nlr)"

definition nl_AddRule :: "'w Netlink \<Rightarrow> Rule \<Rightarrow> 'w \<Rightarrow> kernel_error option \<times> 'w" where
  "nl_AddRule nl r w = (case nk_RuleAdd nl (nl_rule_msg nl r) w of (err, w') \<Rightarrow> (ignoreExists err, w'))"

definition nl_DeleteRule :: "'w Netlink \<Rightarrow> Rule \<Rightarrow> 'w \<Rightarrow> kernel_error option \<times> 'w" where
  "nl_DeleteRule nl r w =
     (case nk_RuleDel nl (nl_rule_msg nl r) w of (err, w') \<Rightarrow> (ignoreNotFound err, w'))"

definition NetlinkKernel :: "'w Netlink \<Rightarrow> 'w Kernel" where
  "NetlinkKernel nl =
     \<lparr>LinkIndexByName = nl_LinkIndexByName nl, ListRoutes = nl_ListRoutes nl, AddRoute = nl_AddRoute nl,
      DeleteRoute = nl_DeleteRoute nl, ListRules = nl_ListRules nl, AddRule = nl_AddRule nl,
      DeleteRule = nl_DeleteRule nl\<rparr>"

text \<open>On other systems every operation fails.\<close>

definition UnsupportedKernel :: "'w Kernel" where
  "UnsupportedKernel =
     \<lparr>LinkIndexByName = (\<lambda>_ _. Inl ErrUnsupported), ListRoutes = (\<lambda>_ _ _ _. Inl ErrUnsupported),
      AddRoute = (\<lambda>_ w. (Some ErrUnsupported, w)), DeleteRoute = (\<lambda>_ w. (Some ErrUnsupported, w)),
      ListRules = (\<lambda>_ _. Inl ErrUnsupported), AddRule = (\<lambda>_ w. (Some ErrUnsupported, w)),
      DeleteRule = (\<lambda>_ w. (Some ErrUnsupported, w))\<rparr>"

section \<open>Destinations survive the kernel\<close>

lemma bits_be_digit:
  "map (bit (word_of_nat (n mod 256) :: 8 word)) [7, 6, 5, 4, 3, 2, 1, 0] =
     map (bit n) [7, 6, 5, 4, 3, 2, 1, 0]"
  by (simp add: bit_simps take_bit_eq_mod [of 8, simplified, symmetric] flip: take_bit_eq_mod)

lemma mask_bits_snoc: "mask_bits (bs @ [b]) = mask_bits bs @ map (bit b) [7, 6, 5, 4, 3, 2, 1, 0]"
  by (simp add: mask_bits_def)

lemma bit_div_256: "bit (n div 256 :: nat) i = bit n (i + 8)"
proof -
  have "n div 256 = drop_bit 8 n" by (simp add: drop_bit_eq_div)
  then show ?thesis by (simp add: bit_drop_bit_eq add.commute)
qed

lemma rev_upt_8: "rev [0..<8 * Suc k] = map (\<lambda>i. i + 8) (rev [0..<8 * k]) @ [7, 6, 5, 4, 3, 2, 1, 0]"
proof -
  have "[0..<8 * Suc k] = [0..<8] @ [8..<8 + 8 * k]" using upt_add_eq_append [of 0 8 "8 * k"] by simp
  moreover have "[8..<8 + 8 * k] = map (\<lambda>i. i + 8) [0..<8 * k]"
    by (simp add: map_add_upt add.commute)
  moreover have "[0..<8] = [0, 1, 2, 3, 4, 5, 6, 7]" by (simp add: upt_rec)
  ultimately show ?thesis by (simp add: rev_map)
qed

lemma mask_bits_be_digits:
  "mask_bits (map word_of_nat (be_digits 256 k n)) = map (bit n) (rev [0..<8 * k])"
proof (induction k arbitrary: n)
  case 0
  then show ?case by (simp add: mask_bits_def)
next
  case (Suc k)
  let ?byte = "word_of_nat :: nat \<Rightarrow> 8 word"
  have "map ?byte (be_digits 256 (Suc k) n) =
      map ?byte (be_digits 256 k (n div 256)) @ [?byte (n mod 256)]" by simp
  then have "mask_bits (map ?byte (be_digits 256 (Suc k) n)) =
      map (bit (n div 256)) (rev [0..<8 * k]) @ map (bit n) [7, 6, 5, 4, 3, 2, 1, 0]"
    by (simp only: mask_bits_snoc bits_be_digit Suc.IH)
  also have "\<dots> = map (bit n) (rev [0..<8 * Suc k])"
    unfolding rev_upt_8 by (simp add: bit_div_256)
  finally show ?case .
qed

lemma bit_netmask:
  assumes "ones \<le> bits"
  shows "bit (2 ^ bits - 2 ^ (bits - ones) :: nat) i \<longleftrightarrow> bits - ones \<le> i \<and> i < bits"
proof -
  have "push_bit (bits - ones) (mask ones :: nat) = (2 ^ ones - 1) * 2 ^ (bits - ones)"
    by (simp add: push_bit_eq_mult mask_eq_exp_minus_1)
  also have "\<dots> = 2 ^ bits - 2 ^ (bits - ones)"
    using assms by (simp add: diff_mult_distrib flip: power_add)
  finally have eq: "2 ^ bits - 2 ^ (bits - ones) = push_bit (bits - ones) (mask ones :: nat)" ..
  show ?thesis using assms unfolding eq by (auto simp: bit_push_bit_iff bit_mask_iff)
qed

lemma map_netmask:
  assumes "ones \<le> bits"
  shows "map (bit (2 ^ bits - 2 ^ (bits - ones) :: nat)) (rev [0..<bits]) =
    replicate ones True @ replicate (bits - ones) False"
proof (rule nth_equalityI)
  fix i assume "i < length (map (bit (2 ^ bits - 2 ^ (bits - ones) :: nat)) (rev [0..<bits]))"
  then have "i < bits" by simp
  then show "map (bit (2 ^ bits - 2 ^ (bits - ones) :: nat)) (rev [0..<bits]) ! i =
      (replicate ones True @ replicate (bits - ones) False) ! i"
    using assms by (auto simp: rev_nth nth_append bit_netmask)
qed (use assms in simp)

lemma Mask_Size_CIDRMask:
  assumes "bits = 32 \<or> bits = 128" "ones \<le> bits"
  shows "Mask_Size (CIDRMask (int ones) bits) = (int ones, int bits)"
proof -
  have "8 * (bits div 8) = bits" using assms(1) by auto
  then have "mask_bits (CIDRMask (int ones) bits) = replicate ones True @ replicate (bits - ones) False"
    using assms mask_bits_be_digits [of "bits div 8"] map_netmask [OF assms(2)]
    by (auto simp: CIDRMask_def)
  moreover have "takeWhile (\<lambda>b. b) (replicate ones True @ replicate (bits - ones) False) = replicate ones True"
    by (simp add: takeWhile_append)
  ultimately show ?thesis using assms(2) by (simp add: Mask_Size_def Let_def list_all_iff)
qed

text \<open>
  A destination sent to the kernel and listed again is the masked prefix, except in the block of
  IPv4-mapped addresses, where \<open>Unmap\<close> changes the family.
\<close>

lemma ipNetToPrefix_prefixToIPNet:
  assumes "pfx_wf p" "Prefix_IsValid p" "\<not> Is4In6 (Prefix_Addr (Masked p))"
  shows "ipNetToPrefix (prefixToIPNet p) = Some (Masked p)"
proof -
  let ?m = "Masked p" and ?a = "Prefix_Addr (Masked p)" and ?n = "bitsPlusOne p - 1"
  note m = Masked_simps [OF assms(1,2)]
  have a: "?a \<noteq> AddrZero" "Zone ?a = []" "Unmap ?a = ?a" "withoutZone ?a = ?a"
    using m assms by (cases ?a; cases "Prefix_Addr p"; auto simp: pfx_wf_def Prefix_IsValid_def)+
  have bits: "(if Is6 (Prefix_Addr p) then 128 else 32) = BitLen ?a" "?n \<le> BitLen ?a"
    "BitLen ?a = 32 \<or> BitLen ?a = 128" "Prefix_Bits p = int ?n"
    using m(2) assms a(1)
    by (cases "Prefix_Addr p"; cases ?a; auto simp: pfx_wf_def Prefix_IsValid_def Prefix_Bits_def)+
  have "PrefixFrom ?a (int ?n) = ?m"
    using a bits m(1) assms(2)
    by (cases ?m) (auto simp: PrefixFrom_def Prefix_IsValid_def)
  then show ?thesis
    using a bits Mask_Size_CIDRMask [OF bits(3,2)] AddrFromSlice_AsSlice [OF a(1)]
    by (simp add: ipNetToPrefix_def prefixToIPNet_def Let_def Masked_idem)
qed

end
