(* ===== verification/Health.thy ===== *)
theory Health
  imports Config Metrics Rtnl
begin

text \<open>
  \<open>internal/health\<close>: gateway candidates are probed by pinging targets through their device, ordered
  (healthy ones first, otherwise in configuration order) and given route metrics. Pinging and
  interface lookup read the world \<open>'w\<close>; a ping may change it. Contexts and log output are left out.
\<close>

section \<open>Pinging\<close>

text \<open>
  The waiting time of \<open>ping\<close> is the timeout rounded up to seconds. \<open>Duration.Seconds\<close> is a \<open>float64\<close>; rounding up
  in integers is the same for timeouts below \<open>2^24\<close> seconds, where no nanosecond is lost. The context that kills
  a ping one second after its timeout is among the failures \<open>exec\<close> may report.
\<close>

type_synonym 'w Pinger = "string \<Rightarrow> Addr \<Rightarrow> Duration \<Rightarrow> 'w \<Rightarrow> string option \<times> 'w"

text \<open>
  \<open>ExecPinger.Ping\<close> builds the argument list of the \<open>ping\<close> command; running it (\<open>exec\<close>: command name
  and arguments to an optional error and the combined output) is a parameter.
\<close>

definition ping_args :: "string \<Rightarrow> Addr \<Rightarrow> Duration \<Rightarrow> string list" where
  "ping_args dev target timeout =
     (let family = (if Is6 target then ''-6'' else ''-4'');
          ceil = - ((- timeout) div Second);
          waitSeconds = (if ceil < 1 then 1 else ceil);
          args = [family, ''-c'', ''1'', ''-W'', Itoa waitSeconds];
          args = (if dev \<noteq> '''' then args @ [''-I'', dev] else args) in
      args @ [Addr_String target])"

definition ExecPinger_Ping ::
  "(string \<Rightarrow> string list \<Rightarrow> 'w \<Rightarrow> (string option \<times> string) \<times> 'w) \<Rightarrow> 'w Pinger" where
  "ExecPinger_Ping exec dev target timeout w =
     (case exec ''ping'' (ping_args dev target timeout) w of
        ((Some err, out), w') \<Rightarrow> (Some (err @ '': '' @ out), w')
      | ((None, out), w') \<Rightarrow> (None, w'))"

section \<open>Candidates\<close>

record Candidate =
  cd_Name :: string
  cd_Dev :: string
  cd_OnLink :: bool
  cd_Via :: Addr
  cd_HealthCheck :: HealthCheck

record ResolvedHop =
  h_Name :: string
  h_Dev :: string
  h_LinkIndex :: int
  h_OnLink :: bool
  h_Via :: Addr
  h_Metric :: int
  h_Healthy :: bool
  h_CheckedVia :: Addr

definition metricBase :: int where "metricBase = 100"
definition metricStep :: int where "metricStep = 10"
definition unhealthyMetricOffset :: int where "unhealthyMetricOffset = 1000"

definition defaultIPv4Targets :: "string list" where
  "defaultIPv4Targets = [''8.8.8.8'', ''1.1.1.1'']"

definition defaultIPv6Targets :: "string list" where
  "defaultIPv6Targets = [''2001:4860:4860::8888'', ''2606:4700:4700::1111'']"

fun ping_targets ::
  "string \<Rightarrow> string \<Rightarrow> Duration \<Rightarrow> string list \<Rightarrow> 'w Pinger \<Rightarrow> 'w \<Rightarrow> (bool \<times> Addr) \<times> 'w" where
  "ping_targets family dev timeout [] ping w = ((False, AddrZero), w)"
| "ping_targets family dev timeout (raw # targets) ping w =
     (case ParseAddr raw of
        None \<Rightarrow> ping_targets family dev timeout targets ping w
      | Some addr \<Rightarrow>
          if family = ''ipv4'' \<and> \<not> Is4 addr then ping_targets family dev timeout targets ping w
          else if family = ''ipv6'' \<and> \<not> Is6 addr then ping_targets family dev timeout targets ping w
          else (case ping dev addr timeout w of
              (None, w') \<Rightarrow> ((True, addr), w')
            | (Some err, w') \<Rightarrow> ping_targets family dev timeout targets ping w'))"

definition evaluateCandidate :: "string \<Rightarrow> Candidate \<Rightarrow> 'w Pinger \<Rightarrow> 'w \<Rightarrow> (bool \<times> Addr) \<times> 'w" where
  "evaluateCandidate family c ping w =
     (let timeout = (if hc_Timeout (cd_HealthCheck c) = 0 then Second else hc_Timeout (cd_HealthCheck c));
          targets = (if length (hc_Targets (cd_HealthCheck c)) = 0
            then (if family = ''ipv6'' then defaultIPv6Targets else defaultIPv4Targets)
            else hc_Targets (cd_HealthCheck c)) in
      ping_targets family (cd_Dev c) timeout targets ping w)"

definition boolGauge :: "bool \<Rightarrow> int" where
  "boolGauge v = (if v then 1 else 0)"

definition health_sanitize :: "string \<Rightarrow> string" where
  "health_sanitize s = concat (map (\<lambda>c.
     if c = CHR 0x5C then [CHR 0x5C, CHR 0x5C]
     else if c = CHR 0x22 then [CHR 0x5C, CHR 0x22]
     else if c = CHR 0x0A then ''_''
     else [c]) s)"

interpretation health_label: label_escaper health_sanitize
  by unfold_locales (simp_all add: health_sanitize_def)

definition gateway_gauge :: "string \<Rightarrow> string \<Rightarrow> string \<Rightarrow> string" where
  "gateway_gauge metric scope name =
     metric @ ''{scope='' @ [CHR 0x22] @ health_sanitize scope @ [CHR 0x22] @ '',gateway='' @ [CHR 0x22]
     @ health_sanitize name @ [CHR 0x22] @ ''}''"

section \<open>Select\<close>

fun select_items ::
  "string \<Rightarrow> string \<Rightarrow> nat \<Rightarrow> Candidate list \<Rightarrow> (string \<Rightarrow> 'w \<Rightarrow> (kernel_error, int) result)
     \<Rightarrow> 'w Pinger \<Rightarrow> ResolvedHop list \<Rightarrow> Registry \<Rightarrow> 'w
     \<Rightarrow> (kernel_error, ResolvedHop list) result \<times> Registry \<times> 'w" where
  "select_items family scope i [] link ping items reg w = (Inr items, reg, w)"
| "select_items family scope i (c # cs) link ping items reg w =
     (case link (cd_Dev c) w of
        Inl e \<Rightarrow> (Inl e, reg, w)
      | Inr linkIndex \<Rightarrow>
          (case evaluateCandidate family c ping w of
             ((healthy, checkedVia), w') \<Rightarrow>
               let name = (if cd_Name c = '''' then scope @ ''-'' @ Itoa (int i + 1) else cd_Name c);
                   item = \<lparr>h_Name = name, h_Dev = cd_Dev c, h_LinkIndex = linkIndex,
                     h_OnLink = cd_OnLink c, h_Via = cd_Via c, h_Metric = 0, h_Healthy = healthy,
                     h_CheckedVia = checkedVia\<rparr>;
                   reg' = Set_Gauge (gateway_gauge ''gateway_health'' scope name) (boolGauge healthy) reg in
               select_items family scope (Suc i) cs link ping (items @ [item]) reg' w'))"

fun assign_metrics ::
  "string \<Rightarrow> bool \<Rightarrow> nat \<Rightarrow> ResolvedHop list \<Rightarrow> Registry \<Rightarrow> ResolvedHop list \<times> Registry" where
  "assign_metrics scope hasHealthy i [] reg = ([], reg)"
| "assign_metrics scope hasHealthy i (it # its) reg =
     (let metric = metricBase + int i * metricStep;
          metric = (if hasHealthy \<and> \<not> h_Healthy it then metric + unhealthyMetricOffset else metric);
          reg' = Set_Gauge (gateway_gauge ''gateway_metric'' scope (h_Name it)) metric reg in
      case assign_metrics scope hasHealthy (Suc i) its reg' of
        (out, reg'') \<Rightarrow> (it\<lparr>h_Metric := metric\<rparr> # out, reg''))"

definition order_items :: "ResolvedHop list \<Rightarrow> ResolvedHop list" where
  "order_items items =
     (if list_ex h_Healthy items
      then filter h_Healthy items @ filter (\<lambda>it. \<not> h_Healthy it) items
      else items)"

definition Select ::
  "string \<Rightarrow> string \<Rightarrow> Candidate list \<Rightarrow> (string \<Rightarrow> 'w \<Rightarrow> (kernel_error, int) result)
     \<Rightarrow> 'w Pinger \<Rightarrow> Registry \<Rightarrow> 'w \<Rightarrow> (kernel_error, ResolvedHop list) result \<times> Registry \<times> 'w" where
  "Select family scope candidates link ping reg w =
     (if length candidates = 0 then (Inr [], reg, w)
      else case select_items family scope 0 candidates link ping [] reg w of
        (Inl e, reg', w') \<Rightarrow> (Inl e, reg', w')
      | (Inr items, reg', w') \<Rightarrow>
          (case assign_metrics scope (list_ex h_Healthy items) 0 (order_items items) reg' of
             (out, reg'') \<Rightarrow> (Inr out, reg'', w')))"

section \<open>What is selected\<close>

text \<open>A hop without the outcome of the health check, and the same part of a candidate.\<close>

type_synonym hop_key = "string \<times> bool \<times> Addr"

definition hop_key :: "ResolvedHop \<Rightarrow> hop_key" where
  "hop_key h = (h_Dev h, h_OnLink h, h_Via h)"

definition cand_key :: "Candidate \<Rightarrow> hop_key" where
  "cand_key c = (cd_Dev c, cd_OnLink c, cd_Via c)"

lemma select_items_keys:
  assumes "select_items family scope i cs link ping items reg w = (Inr out, reg', w')"
  shows "map hop_key out = map hop_key items @ map cand_key cs"
  using assms
proof (induction family scope i cs link ping items reg w arbitrary: out rule: select_items.induct)
  case (2 family scope i c cs link ping items reg w)
  then show ?case
    by (auto split: sum.splits prod.splits simp: Let_def hop_key_def cand_key_def)
qed auto

lemma assign_metrics_spec:
  "assign_metrics scope hh i its reg = (out, reg') \<Longrightarrow>
     out = map (\<lambda>(j, it). it\<lparr>h_Metric := metricBase + int j * metricStep
       + (if hh \<and> \<not> h_Healthy it then unhealthyMetricOffset else 0)\<rparr>) (enumerate i its)"
  by (induction scope hh i its reg arbitrary: out reg' rule: assign_metrics.induct)
    (auto simp: Let_def split: prod.splits)

lemma Select_Inr:
  assumes "Select family scope cs link ping reg w = (Inr out, reg', w')"
  obtains items where "map hop_key items = map cand_key cs"
    "out = map (\<lambda>(j, it). it\<lparr>h_Metric := metricBase + int j * metricStep
       + (if list_ex h_Healthy items \<and> \<not> h_Healthy it then unhealthyMetricOffset else 0)\<rparr>)
       (enumerate 0 (order_items items))"
proof (cases "cs = []")
  case True
  with assms that [of "[]"] show thesis by (simp add: Select_def order_items_def)
next
  case False
  with assms obtain items r where
    "select_items family scope 0 cs link ping [] reg w = (Inr items, r, w')"
    "assign_metrics scope (list_ex h_Healthy items) 0 (order_items items) r = (out, reg')"
    by (auto simp: Select_def split: prod.splits sum.splits)
  with that [of items] select_items_keys assign_metrics_spec show thesis by fastforce
qed

lemma mset_order_items: "mset (order_items items) = mset items"
  by (simp add: order_items_def)

lemma enumerate_map_snd: "map (\<lambda>(j, x). f x) (enumerate i xs) = map f xs"
  by (induction xs arbitrary: i) auto

lemma Select_keys:
  assumes "Select family scope cs link ping reg w = (Inr out, reg', w')"
  shows "mset (map hop_key out) = mset (map cand_key cs)"
proof -
  obtain items where items: "map hop_key items = map cand_key cs"
    and out: "out = map (\<lambda>(j, it). it\<lparr>h_Metric := metricBase + int j * metricStep
       + (if list_ex h_Healthy items \<and> \<not> h_Healthy it then unhealthyMetricOffset else 0)\<rparr>)
       (enumerate 0 (order_items items))"
    using Select_Inr [OF assms] by blast
  have "map hop_key out = map hop_key (order_items items)"
    unfolding out map_map
    by (subst enumerate_map_snd [where i = 0, symmetric]) (auto simp: hop_key_def)
  then have "mset (map hop_key out) = image_mset hop_key (mset items)"
    by (simp add: mset_order_items)
  also have "\<dots> = mset (map cand_key cs)" by (simp flip: items)
  finally show ?thesis .
qed

text \<open>
  Position \<open>j\<close> of the ordered hops gets metric \<open>100 + 10 j\<close>, plus 1000 when it is unhealthy and some
  other one is not; hence the metrics are strictly increasing along the list.
\<close>

lemma nth_enumerate_0: "j < length xs \<Longrightarrow> enumerate 0 xs ! j = (j, xs ! j)"
  by (simp add: nth_enumerate_eq)

lemma order_items_healthy:
  assumes "list_ex h_Healthy items" "j < k" "k < length (order_items items)"
    "h_Healthy (order_items items ! k)"
  shows "h_Healthy (order_items items ! j)"
proof -
  let ?a = "filter h_Healthy items" and ?b = "filter (\<lambda>it. \<not> h_Healthy it) items"
  have o: "order_items items = ?a @ ?b" using assms(1) by (simp add: order_items_def)
  have "k < length ?a"
  proof (rule ccontr)
    assume "\<not> k < length ?a"
    then have "order_items items ! k \<in> set ?b"
      using assms(3) o by (metis add_diff_inverse_nat length_append nat_add_left_cancel_less nth_append nth_mem)
    then show False using assms(4) by simp
  qed
  then have "order_items items ! j \<in> set ?a"
    using assms(2) o by (metis nth_append nth_mem order_less_trans)
  then show ?thesis by simp
qed

lemma Select_metrics:
  assumes "Select family scope cs link ping reg w = (Inr out, reg', w')"
  shows "sorted_wrt (\<lambda>x y. h_Metric x < h_Metric y) out"
    "\<forall>x \<in> set out. \<forall>y \<in> set out. h_Healthy x \<longrightarrow> \<not> h_Healthy y \<longrightarrow> h_Metric x + 1000 < h_Metric y"
    "\<forall>j < length out. 100 + 10 * int j \<le> h_Metric (out ! j) \<and> h_Metric (out ! j) \<le> 1100 + 10 * int j"
proof -
  obtain items where out: "out = map (\<lambda>(j, it). it\<lparr>h_Metric := metricBase + int j * metricStep
       + (if list_ex h_Healthy items \<and> \<not> h_Healthy it then unhealthyMetricOffset else 0)\<rparr>)
       (enumerate 0 (order_items items))"
    using Select_Inr [OF assms] by blast
  let ?o = "order_items items" and ?hh = "list_ex h_Healthy items"
  have len: "length out = length ?o" by (simp add: out)
  have nth: "h_Metric (out ! j) = 100 + 10 * int j + (if ?hh \<and> \<not> h_Healthy (?o ! j) then 1000 else 0)"
    "h_Healthy (out ! j) = h_Healthy (?o ! j)" if "j < length ?o" for j
    using that by (simp_all add: out nth_enumerate_0 metricBase_def metricStep_def unhealthyMetricOffset_def)
  have before: "h_Healthy (?o ! j)" if "?hh" "j < k" "k < length ?o" "h_Healthy (?o ! k)" for j k
    using order_items_healthy that by blast
  show "sorted_wrt (\<lambda>x y. h_Metric x < h_Metric y) out"
    unfolding sorted_wrt_iff_nth_less len
  proof (intro allI impI)
    fix j k assume jk: "j < k" "k < length ?o"
    then show "h_Metric (out ! j) < h_Metric (out ! k)"
      using nth(1) [of j] nth(1) [of k] before [of j k] by auto
  qed
  have hh: "?hh" if x: "x \<in> set out" "h_Healthy x" for x
  proof -
    obtain j where j: "j < length ?o" "x = out ! j" using x(1) len by (auto simp: in_set_conv_nth)
    have "?o ! j \<in> set items" using j(1) nth_mem mset_order_items [THEN mset_eq_setD] by blast
    moreover have "h_Healthy (?o ! j)" using nth(2) [OF j(1)] j(2) x(2) by simp
    ultimately show ?thesis by (auto simp: list_ex_iff)
  qed
  show "\<forall>x \<in> set out. \<forall>y \<in> set out. h_Healthy x \<longrightarrow> \<not> h_Healthy y \<longrightarrow> h_Metric x + 1000 < h_Metric y"
  proof (intro ballI impI)
    fix x y assume xy: "x \<in> set out" "y \<in> set out" "h_Healthy x" "\<not> h_Healthy y"
    then obtain j k where jk: "j < length ?o" "x = out ! j" "k < length ?o" "y = out ! k"
      using len by (auto simp: in_set_conv_nth)
    have "?hh" using hh xy by blast
    have st: "h_Healthy (?o ! j)" "\<not> h_Healthy (?o ! k)" using jk xy nth(2) by auto
    then have "j < k" using before [OF \<open>?hh\<close>, of k j] jk by (cases j k rule: linorder_cases) auto
    then show "h_Metric x + 1000 < h_Metric y"
      using nth(1) [OF jk(1)] nth(1) [OF jk(3)] jk(2,4) st \<open>?hh\<close> by simp
  qed
  show "\<forall>j < length out. 100 + 10 * int j \<le> h_Metric (out ! j) \<and> h_Metric (out ! j) \<le> 1100 + 10 * int j"
    using nth len by simp
qed

section \<open>Gateways take no part in their health check\<close>

text \<open>
  A ping goes out through the device of a candidate to a fixed target; the address of the gateway
  takes no part in it. \<open>readdress\<close> gives every candidate another gateway address. A selection over
  readdressed candidates is the old one with readdressed hops: the same pings in the same order, the
  same verdicts, metrics and gauges.
\<close>

definition readdress :: "(Addr \<Rightarrow> Addr) \<Rightarrow> Candidate \<Rightarrow> Candidate" where
  "readdress f c = c\<lparr>cd_Via := f (cd_Via c)\<rparr>"

definition readdress_hop :: "(Addr \<Rightarrow> Addr) \<Rightarrow> ResolvedHop \<Rightarrow> ResolvedHop" where
  "readdress_hop f h = h\<lparr>h_Via := f (h_Via h)\<rparr>"

lemma readdress_simps [simp]:
  "cd_Name (readdress f c) = cd_Name c" "cd_Dev (readdress f c) = cd_Dev c" "cd_OnLink (readdress f c) = cd_OnLink c"
  "cd_Via (readdress f c) = f (cd_Via c)" "cd_HealthCheck (readdress f c) = cd_HealthCheck c"
  "h_Name (readdress_hop f h) = h_Name h" "h_Healthy (readdress_hop f h) = h_Healthy h"
  "h_Via (readdress_hop f h) = f (h_Via h)" "h_Metric (readdress_hop f h) = h_Metric h" "h_Dev (readdress_hop f h) = h_Dev h"
  "(readdress_hop f h)\<lparr>h_Metric := m\<rparr> = readdress_hop f (h\<lparr>h_Metric := m\<rparr>)"
  by (simp_all add: readdress_def readdress_hop_def)

lemma evaluateCandidate_readdress [simp]: "evaluateCandidate family (readdress f c) ping w = evaluateCandidate family c ping w"
  by (simp add: evaluateCandidate_def)

lemma select_items_readdress:
  "select_items family scope i (map (readdress f) cs) link ping (map (readdress_hop f) items) reg w =
     map_prod (map_sum id (map (readdress_hop f))) id (select_items family scope i cs link ping items reg w)"
proof (induction cs arbitrary: i items reg w)
  case (Cons c cs)
  show ?case
  proof (cases "link (cd_Dev c) w")
    case (Inr l)
    obtain healthy v w1 where e: "evaluateCandidate family c ping w = ((healthy, v), w1)" by (metis prod.collapse)
    define name where "name = (if cd_Name c = [] then scope @ ''-'' @ Itoa (int i + 1) else cd_Name c)"
    define item where "item = \<lparr>h_Name = name, h_Dev = cd_Dev c, h_LinkIndex = l, h_OnLink = cd_OnLink c, h_Via = cd_Via c,
      h_Metric = 0, h_Healthy = healthy, h_CheckedVia = v\<rparr>"
    define reg1 where "reg1 = Set_Gauge (gateway_gauge ''gateway_health'' scope name) (boolGauge healthy) reg"
    have "select_items family scope i (map (readdress f) (c # cs)) link ping (map (readdress_hop f) items) reg w =
        select_items family scope (Suc i) (map (readdress f) cs) link ping (map (readdress_hop f) (items @ [item])) reg1 w1"
      using Inr e by (simp add: Let_def readdress_hop_def item_def reg1_def name_def)
    moreover have "select_items family scope i (c # cs) link ping items reg w =
        select_items family scope (Suc i) cs link ping (items @ [item]) reg1 w1"
      using Inr e by (simp add: Let_def item_def reg1_def name_def)
    ultimately show ?thesis by (simp only: Cons.IH)
  qed simp
qed simp

lemma assign_metrics_readdress:
  "assign_metrics scope hh i (map (readdress_hop f) its) reg = map_prod (map (readdress_hop f)) id (assign_metrics scope hh i its reg)"
  by (induction scope hh i its reg rule: assign_metrics.induct) (simp_all add: Let_def split: prod.splits)

lemma order_items_readdress: "order_items (map (readdress_hop f) its) = map (readdress_hop f) (order_items its)"
  by (simp add: order_items_def list_ex_iff filter_map comp_def)

lemma Select_readdress:
  "Select family scope (map (readdress f) cs) link ping reg w =
     map_prod (map_sum id (map (readdress_hop f))) id (Select family scope cs link ping reg w)"
proof (cases "select_items family scope 0 cs link ping [] reg w")
  case (fields res reg1 w1)
  have ex: "list_ex h_Healthy (map (readdress_hop f) its) = list_ex h_Healthy its" for its by (simp add: list_ex_iff)
  have "select_items family scope 0 (map (readdress f) cs) link ping [] reg w = (map_sum id (map (readdress_hop f)) res, reg1, w1)"
    using select_items_readdress [of family scope 0 f cs link ping "[]" reg w] fields by simp
  then show ?thesis
    using fields by (cases res) (auto simp: Select_def order_items_readdress assign_metrics_readdress ex split: prod.splits)
qed

end
