(* ===== verification/Planner.thy ===== *)
theory Planner
  imports Source Health
begin

text \<open>
  \<open>internal/planner\<close>: the routes and rules a group should have, and the difference to the ones the
  kernel has. The difference is computed over two Go maps from printed keys; Go does not fix the
  order in which a map is ranged over, so the orders are arguments of \<open>diffRoutes\<close>, \<open>diffRules\<close> and
  \<open>Build\<close>.
\<close>

section \<open>Inputs and plans\<close>

record InputGroup =
  ig_Config :: RouteGroup
  ig_Prefixes :: "Prefix list"
  ig_ThrowPrefixes :: "Prefix list"
  ig_CoveredLocalAddrs :: "Addr list"
  ig_SourceType :: string
  ig_FromFallback :: bool
  ig_LinkIndex :: int
  ig_DefaultLinkIndex :: int
  ig_TargetHops :: "ResolvedHop list"
  ig_DefaultHops :: "ResolvedHop list"
  ig_CurrentRoutes :: "Route list"
  ig_CurrentRules :: "Rule list"

record GroupPlan =
  gp_Group :: string
  gp_SourceType :: string
  gp_TargetTable :: int
  gp_Family :: string
  gp_DesiredPrefixCount :: nat
  gp_CurrentManagedRouteCount :: nat
  gp_CurrentManagedRuleCount :: nat
  gp_RoutesToAdd :: "Route list"
  gp_RoutesToRemove :: "Route list"
  gp_RulesToAdd :: "Rule list"
  gp_RulesToRemove :: "Rule list"
  gp_SourceFromFallback :: bool

record Plan =
  plan_Groups :: "GroupPlan list"

section \<open>Filtering\<close>

definition matchingHops :: "ResolvedHop list \<Rightarrow> Prefix \<Rightarrow> ResolvedHop list" where
  "matchingHops hops p =
     (if length hops = 0 then []
      else filter (\<lambda>hop. Addr_IsValid (h_Via hop) \<and> Is4 (h_Via hop) = Is4 (Prefix_Addr p)) hops)"

definition removePrefixesCoveringAddrs :: "Prefix list \<Rightarrow> Addr list \<Rightarrow> Prefix list" where
  "removePrefixesCoveringAddrs prefixes addrs =
     (if length prefixes = 0 \<or> length addrs = 0 then prefixes
      else filter (\<lambda>p. \<not> list_ex (\<lambda>addr. Is4 (Prefix_Addr p) = Is4 addr \<and> Contains p addr) addrs)
        prefixes)"

fun filterAddrs_loop :: "string \<Rightarrow> Addr list \<Rightarrow> Addr list" where
  "filterAddrs_loop family [] = []"
| "filterAddrs_loop family (addr # addrs) =
     (if family = ''ipv4'' \<and> Is4 addr then [addr] else [])
     @ (if family = ''ipv6'' \<and> Is6 addr then [addr] else [])
     @ filterAddrs_loop family addrs"

definition filterAddrsByFamily :: "Addr list \<Rightarrow> string \<Rightarrow> Addr list" where
  "filterAddrsByFamily addrs family =
     (if family = '''' \<or> family = ''dual'' then addrs else filterAddrs_loop family addrs)"

interpretation aff: family_filter "\<lambda>family addrs. filterAddrsByFamily addrs family" Is4 Is6
proof
  fix xs
  show "filterAddrsByFamily xs ''ipv4'' = filter Is4 xs"
    by (simp add: filterAddrsByFamily_def) (induction xs; simp)
  show "filterAddrsByFamily xs ''ipv6'' = filter Is6 xs"
    by (simp add: filterAddrsByFamily_def) (induction xs; simp)
qed (use Is4_Is6 in \<open>auto simp: filterAddrsByFamily_def\<close>)

section \<open>Gateways\<close>

text \<open>\<open>addr, _ := netip.ParseAddr(s)\<close>: the error is dropped and the address is the zero one.\<close>

definition parse_or_zero :: "string \<Rightarrow> Addr" where
  "parse_or_zero s = (case ParseAddr s of None \<Rightarrow> AddrZero | Some a \<Rightarrow> a)"

definition nextHopVia :: "NextHopConfig \<Rightarrow> Prefix \<Rightarrow> Addr" where
  "nextHopVia h p =
     (let a = Prefix_Addr p in
      if Is4 a \<and> nh_Via4 h \<noteq> '''' then parse_or_zero (nh_Via4 h)
      else if Is6 a \<and> nh_Via6 h \<noteq> '''' then parse_or_zero (nh_Via6 h)
      else if nh_Via h = '''' then AddrZero
      else
        let addr = parse_or_zero (nh_Via h) in
        if (Is4 a \<and> Is4 addr) \<or> (Is6 a \<and> Is6 addr) then addr else AddrZero)"

definition zero_HealthCheck :: HealthCheck where
  "zero_HealthCheck = \<lparr>hc_Targets = [], hc_Timeout = 0\<rparr>"

definition routeVia :: "TargetConfig \<Rightarrow> Prefix \<Rightarrow> Addr" where
  "routeVia t p =
     nextHopVia \<lparr>nh_Dev = '''', nh_Via = tg_Via t, nh_Via4 = tg_Via4 t, nh_Via6 = tg_Via6 t,
       nh_OnLink = False, nh_HealthCheck = zero_HealthCheck, nh_Gateways = []\<rparr> p"

text \<open>\<open>p, _ := netip.ParsePrefix(s)\<close> likewise. \<open>netip.MustParsePrefix\<close> panics on a malformed text; the
  code calls it on two literals only, which parse (\<open>defaultPrefixes_parse\<close>).\<close>

definition parse_prefix_or_zero :: "string \<Rightarrow> Prefix" where
  "parse_prefix_or_zero s = (case ParsePrefix s of None \<Rightarrow> PrefixZero | Some p \<Rightarrow> p)"

definition MustParsePrefix :: "string \<Rightarrow> Prefix" where
  "MustParsePrefix s = the (ParsePrefix s)"

definition default4 :: Prefix where
  "default4 = MkPrefix (Addr4 0) 1"

definition default6 :: Prefix where
  "default6 = MkPrefix (Addr6 0 '''') 1"

definition defaultPrefixes :: "string \<Rightarrow> Prefix list" where
  "defaultPrefixes family =
     (if family = ''ipv4'' then [MustParsePrefix ''0.0.0.0/0'']
      else if family = ''ipv6'' then [MustParsePrefix ''::/0'']
      else [MustParsePrefix ''0.0.0.0/0'', MustParsePrefix ''::/0''])"

section \<open>Desired state\<close>

definition base_route :: "int \<Rightarrow> InputGroup \<Rightarrow> Prefix \<Rightarrow> Route" where
  "base_route routeProtocol g p =
     zero_Route\<lparr>rt_Group := g_Name (ig_Config g), rt_Table := tg_Table (g_Target (ig_Config g)),
       rt_Protocol := routeProtocol, rt_Dst := p\<rparr>"

definition hop_route :: "int \<Rightarrow> InputGroup \<Rightarrow> Prefix \<Rightarrow> ResolvedHop \<Rightarrow> Route" where
  "hop_route routeProtocol g p hop =
     (base_route routeProtocol g p)\<lparr>rt_Dev := h_Dev hop, rt_LinkIndex := h_LinkIndex hop,
       rt_Via := h_Via hop, rt_OnLink := h_OnLink hop, rt_Metric := h_Metric hop\<rparr>"

definition target_routes :: "int \<Rightarrow> InputGroup \<Rightarrow> Prefix \<Rightarrow> Route list" where
  "target_routes routeProtocol g p =
     (let t = g_Target (ig_Config g); hops = matchingHops (ig_TargetHops g) p in
      if length hops = 0 then
        [(base_route routeProtocol g p)\<lparr>rt_Dev := tg_Dev t, rt_LinkIndex := ig_LinkIndex g,
           rt_Via := routeVia t p, rt_OnLink := tg_OnLink t\<rparr>]
      else map (hop_route routeProtocol g p) hops)"

definition default_routes :: "int \<Rightarrow> InputGroup \<Rightarrow> NextHopConfig \<Rightarrow> Prefix \<Rightarrow> Route list" where
  "default_routes routeProtocol g d p =
     (let hops = matchingHops (ig_DefaultHops g) p in
      if length hops = 0 then
        [(base_route routeProtocol g p)\<lparr>rt_Dev := nh_Dev d, rt_LinkIndex := ig_DefaultLinkIndex g,
           rt_Via := nextHopVia d p, rt_OnLink := nh_OnLink d\<rparr>]
      else map (hop_route routeProtocol g p) hops)"

definition throw_route :: "int \<Rightarrow> InputGroup \<Rightarrow> Prefix \<Rightarrow> Route" where
  "throw_route routeProtocol g p = (base_route routeProtocol g p)\<lparr>rt_Type := RouteTypeThrow\<rparr>"

definition desiredRoutes :: "int \<Rightarrow> InputGroup \<Rightarrow> Prefix list \<Rightarrow> Route list" where
  "desiredRoutes routeProtocol g prefixes =
     (let t = g_Target (ig_Config g) in
      concat (map (target_routes routeProtocol g) prefixes)
      @ map (throw_route routeProtocol g) (FilterFamily (ig_ThrowPrefixes g) (tg_Family t))
      @ (case tg_Default t of None \<Rightarrow> []
         | Some d \<Rightarrow> concat (map (default_routes routeProtocol g d) (defaultPrefixes (tg_Family t)))))"

definition desiredRules :: "InputGroup \<Rightarrow> Rule list" where
  "desiredRules g =
     (let r = g_Rule (ig_Config g) in
      if \<not> rc_Enabled r then []
      else
        let from = (if rc_From r \<noteq> '''' then parse_prefix_or_zero (rc_From r) else PrefixZero) in
        [\<lparr>ru_Group = g_Name (ig_Config g), ru_Priority = rc_Priority r, ru_Table = rc_Table r,
          ru_HasFWMark = (rc_Mask r \<noteq> 0), ru_FWMark = rc_FWMark r, ru_Mask = rc_Mask r,
          ru_From = from\<rparr>])"

section \<open>Differences\<close>

definition routeKey :: "Route \<Rightarrow> string" where
  "routeKey r =
     Itoa (rt_Table r) @ ''|'' @ Itoa (rt_Protocol r) @ ''|'' @ Itoa (rt_Type r) @ ''|''
     @ Itoa (rt_LinkIndex r) @ ''|'' @ Addr_String (rt_Via r) @ ''|'' @ fmt_bool (rt_OnLink r) @ ''|''
     @ Itoa (rt_Metric r) @ ''|'' @ Prefix_String (rt_Dst r)"

definition ruleKey :: "Rule \<Rightarrow> string" where
  "ruleKey r =
     Itoa (ru_Priority r) @ ''|'' @ Itoa (ru_Table r) @ ''|'' @ fmt_bool (ru_HasFWMark r) @ ''|''
     @ Itoa (uint (ru_FWMark r)) @ ''|'' @ Itoa (uint (ru_Mask r)) @ ''|'' @ Prefix_String (ru_From r)"

text \<open>Filling a map from a list by key, and ranging over one map for the keys the other lacks.\<close>

definition key_map :: "('a \<Rightarrow> string) \<Rightarrow> 'a list \<Rightarrow> (string \<times> 'a) list" where
  "key_map key rs = foldl (\<lambda>m r. go_map_set m (key r) r) [] rs"

definition missing :: "range_order \<Rightarrow> (string \<times> 'a) list \<Rightarrow> (string \<times> 'a) list \<Rightarrow> 'a list" where
  "missing ord m other = map snd (filter (\<lambda>(k, r). map_of other k = None) (go_map_range ord m))"

definition diffRoutes ::
  "range_order \<Rightarrow> range_order \<Rightarrow> Route list \<Rightarrow> Route list \<Rightarrow> Route list \<times> Route list" where
  "diffRoutes ord_d ord_c desired current =
     (let dm = key_map routeKey desired; cm = key_map routeKey current in
      (missing ord_d dm cm, missing ord_c cm dm))"

definition diffRules ::
  "range_order \<Rightarrow> range_order \<Rightarrow> Rule list \<Rightarrow> Rule list \<Rightarrow> Rule list \<times> Rule list" where
  "diffRules ord_d ord_c desired current =
     (let dm = key_map ruleKey desired; cm = key_map ruleKey current in
      (missing ord_d dm cm, missing ord_c cm dm))"

text \<open>\<open>ords i j\<close> is the order of the \<open>j\<close>-th map range while group \<open>i\<close> is planned.\<close>

type_synonym plan_orders = "nat \<Rightarrow> nat \<Rightarrow> range_order"

definition plan_prefixes :: "InputGroup \<Rightarrow> Prefix list" where
  "plan_prefixes g =
     (let family0 = tg_Family (g_Target (ig_Config g));
          family = (if family0 = '''' then ''dual'' else family0) in
      removePrefixesCoveringAddrs (FilterFamily (ig_Prefixes g) family)
        (filterAddrsByFamily (ig_CoveredLocalAddrs g) family))"

definition build_group :: "(nat \<Rightarrow> range_order) \<Rightarrow> int \<Rightarrow> InputGroup \<Rightarrow> GroupPlan" where
  "build_group ords routeProtocol g =
     (let family0 = tg_Family (g_Target (ig_Config g));
          family = (if family0 = '''' then ''dual'' else family0);
          prefixes = plan_prefixes g;
          (radd, rrem) = diffRoutes (ords 0) (ords 1) (desiredRoutes routeProtocol g prefixes) (ig_CurrentRoutes g);
          (uadd, urem) = diffRules (ords 2) (ords 3) (desiredRules g) (ig_CurrentRules g) in
      \<lparr>gp_Group = g_Name (ig_Config g), gp_SourceType = ig_SourceType g,
       gp_TargetTable = tg_Table (g_Target (ig_Config g)), gp_Family = family,
       gp_DesiredPrefixCount = length prefixes, gp_CurrentManagedRouteCount = length (ig_CurrentRoutes g),
       gp_CurrentManagedRuleCount = length (ig_CurrentRules g), gp_RoutesToAdd = radd,
       gp_RoutesToRemove = rrem, gp_RulesToAdd = uadd, gp_RulesToRemove = urem,
       gp_SourceFromFallback = ig_FromFallback g\<rparr>)"

definition Build :: "plan_orders \<Rightarrow> int \<Rightarrow> InputGroup list \<Rightarrow> Plan" where
  "Build ords routeProtocol groups =
     \<lparr>plan_Groups = map (\<lambda>(i, g). build_group (ords i) routeProtocol g) (enumerate 0 groups)\<rparr>"

definition Plan_String :: "Plan \<Rightarrow> string" where
  "Plan_String p = concat (map (\<lambda>g.
     ''group='' @ gp_Group g @ '' source='' @ gp_SourceType g @ '' table='' @ Itoa (gp_TargetTable g)
     @ '' family='' @ gp_Family g @ '' desired_prefixes='' @ Itoa (int (gp_DesiredPrefixCount g))
     @ '' current_routes='' @ Itoa (int (gp_CurrentManagedRouteCount g))
     @ '' current_rules='' @ Itoa (int (gp_CurrentManagedRuleCount g))
     @ (if gp_SourceFromFallback g then '' fallback=true'' else '''') @ [CHR 0x0A]
     @ ''  routes: add='' @ Itoa (int (length (gp_RoutesToAdd g)))
     @ '' remove='' @ Itoa (int (length (gp_RoutesToRemove g)))
     @ '' rules: add='' @ Itoa (int (length (gp_RulesToAdd g)))
     @ '' remove='' @ Itoa (int (length (gp_RulesToRemove g))) @ [CHR 0x0A]) (plan_Groups p))"

section \<open>The difference, by keys\<close>

definition keyed_by :: "('a \<Rightarrow> string) \<Rightarrow> (string \<times> 'a) list \<Rightarrow> bool" where
  "keyed_by key m \<longleftrightarrow> distinct (map fst m) \<and> (\<forall>e \<in> set m. fst e = key (snd e))"

lemma keyed_by_set: "keyed_by key m \<Longrightarrow> keyed_by key (go_map_set m (key r) r)"
  using set_go_map_set [of m "key r" r] by (auto simp: keyed_by_def distinct_go_map_set)

lemma key_map_keyed: "keyed_by key m \<Longrightarrow> keyed_by key (foldl (\<lambda>m r. go_map_set m (key r) r) m rs)"
  by (induction rs arbitrary: m) (simp_all add: keyed_by_set)

lemma key_map_keys:
  "fst ` set (foldl (\<lambda>m r. go_map_set m (key r) r) m rs) = fst ` set m \<union> key ` set rs"
  by (induction rs arbitrary: m) (simp_all add: fst_go_map_set)

lemma key_map_values:
  "snd ` set (foldl (\<lambda>m r. go_map_set m (key r) r) m rs) \<subseteq> snd ` set m \<union> set rs"
proof (induction rs arbitrary: m)
  case (Cons r rs)
  have "snd ` set (go_map_set m (key r) r) \<subseteq> insert r (snd ` set m)"
    using image_mono [OF set_go_map_set, of snd m "key r" r] by simp
  then show ?case using Cons.IH [of "go_map_set m (key r) r"] by (simp add: subset_iff) blast
qed simp

lemma key_map_spec:
  "distinct (map fst (key_map key rs))" "\<And>e. e \<in> set (key_map key rs) \<Longrightarrow> fst e = key (snd e)"
  "fst ` set (key_map key rs) = key ` set rs" "snd ` set (key_map key rs) \<subseteq> set rs"
  using key_map_keyed [of key "[]" rs] key_map_keys [of key "[]" rs] key_map_values [of key "[]" rs]
  by (simp_all add: key_map_def keyed_by_def)

lemma map_of_None_iff: "map_of m k = None \<longleftrightarrow> k \<notin> fst ` set m"
  by (rule map_of_eq_None_iff)

locale keyed_diff =
  fixes key :: "'a \<Rightarrow> string"
    and diff :: "range_order \<Rightarrow> range_order \<Rightarrow> 'a list \<Rightarrow> 'a list \<Rightarrow> 'a list \<times> 'a list"
  assumes diff_maps: "diff od oc desired current =
    (missing od (key_map key desired) (key_map key current),
     missing oc (key_map key current) (key_map key desired))"
begin

lemma missing_set:
  assumes "is_range_order ord"
  shows "set (missing ord (key_map key xs) (key_map key ys)) \<subseteq> set xs"
    "key ` set (missing ord (key_map key xs) (key_map key ys)) = key ` set xs - key ` set ys"
proof -
  let ?m = "key_map key xs"
  have range: "set (go_map_range ord ?m) = set ?m"
    by (rule set_go_map_range [OF assms key_map_spec(1)])
  have eq: "set (missing ord ?m (key_map key ys)) = snd ` {e \<in> set ?m. fst e \<notin> key ` set ys}"
    unfolding missing_def set_map set_filter range map_of_None_iff key_map_spec(3) by (simp add: case_prod_beta)
  then show "set (missing ord ?m (key_map key ys)) \<subseteq> set xs"
    using key_map_spec(4) [of key xs] by blast
  have "key ` snd ` {e \<in> set ?m. fst e \<notin> key ` set ys} = fst ` {e \<in> set ?m. fst e \<notin> key ` set ys}"
    unfolding image_image using key_map_spec(2) [of _ key xs] by (intro image_cong) simp_all
  also have "\<dots> = fst ` set ?m - key ` set ys" by auto
  also have "\<dots> = key ` set xs - key ` set ys" unfolding key_map_spec(3) ..
  finally show "key ` set (missing ord ?m (key_map key ys)) = key ` set xs - key ` set ys"
    by (simp add: eq)
qed

lemma missing_distinct:
  assumes "is_range_order ord"
  shows "distinct (map key (missing ord (key_map key xs) (key_map key ys)))"
proof -
  let ?m = "key_map key xs" and ?P = "\<lambda>(k, r). map_of (key_map key ys) k = None"
  have set: "set (go_map_range ord ?m) = set ?m"
    by (rule set_go_map_range [OF assms key_map_spec(1)])
  have "distinct (map fst (go_map_range ord ?m))"
    using is_range_orderD(2) [OF assms] key_map_spec(1) [of key xs] by (simp add: go_map_range_def comp_def)
  then have "distinct (map fst (filter ?P (go_map_range ord ?m)))" by (rule distinct_map_filter)
  moreover have "map key (missing ord ?m (key_map key ys)) = map fst (filter ?P (go_map_range ord ?m))"
    unfolding missing_def map_map using key_map_spec(2) [of _ key xs] set by (intro map_cong) simp_all
  ultimately show ?thesis by simp
qed

lemma missing_mset:
  assumes "is_range_order ord" "is_range_order ord'"
  shows "mset (missing ord m other) = mset (missing ord' m other)"
proof -
  have "mset (go_map_range ord m) = mset (go_map_range ord' m)"
    using assms by (simp add: go_map_range_def is_range_order_def)
  then show ?thesis unfolding missing_def mset_map mset_filter by simp
qed

text \<open>What is added is desired and missing, what is removed is present and not desired.\<close>

lemma diff_keys:
  assumes "is_range_order od" "is_range_order oc" "diff od oc desired current = (add, remove)"
  shows "set add \<subseteq> set desired" "set remove \<subseteq> set current"
    "key ` set add = key ` set desired - key ` set current"
    "key ` set remove = key ` set current - key ` set desired"
    "distinct (map key add)" "distinct (map key remove)"
proof -
  have eq: "add = missing od (key_map key desired) (key_map key current)"
    "remove = missing oc (key_map key current) (key_map key desired)"
    using assms(3) by (simp_all add: diff_maps)
  show "set add \<subseteq> set desired" "set remove \<subseteq> set current"
    "key ` set add = key ` set desired - key ` set current"
    "key ` set remove = key ` set current - key ` set desired"
    "distinct (map key add)" "distinct (map key remove)"
    unfolding eq using missing_set [OF assms(1)] missing_set [OF assms(2)]
      missing_distinct [OF assms(1)] missing_distinct [OF assms(2)] by simp_all
qed

lemma diff_applied:
  assumes "is_range_order od" "is_range_order oc" "diff od oc desired current = (add, remove)"
  shows "(key ` set current - key ` set remove) \<union> key ` set add = key ` set desired"
  using diff_keys(3,4) [OF assms] by auto

lemma diff_empty_iff:
  assumes "is_range_order od" "is_range_order oc" "diff od oc desired current = (add, remove)"
  shows "add = [] \<and> remove = [] \<longleftrightarrow> key ` set desired = key ` set current"
  using diff_keys(3,4) [OF assms] by auto

lemma diff_mset:
  assumes "is_range_order od" "is_range_order oc" "is_range_order od'" "is_range_order oc'"
    and "diff od oc desired current = (add, remove)" "diff od' oc' desired current = (add', remove')"
  shows "mset add = mset add'" "mset remove = mset remove'"
  using missing_mset [OF assms(1,3)] missing_mset [OF assms(2,4)] assms(5,6)
  by (auto simp: diff_maps)

end

interpretation route_diff: keyed_diff routeKey diffRoutes
  by unfold_locales (simp add: diffRoutes_def Let_def)

interpretation rule_diff: keyed_diff ruleKey diffRules
  by unfold_locales (simp add: diffRules_def Let_def)

lemmas parse_eval =
  ParsePrefix_def cut_last_def ParseAddr_def parseIPv4_def parse_octets_def parse_octet_def parseIPv6_def
  parse_groups_def parse_hex_def parse_bits_def radix_val_def digit_value_def PrefixFrom_def be_val_def

lemma foldl_zeros: "foldl (\<lambda>a. (+) (a * B)) (0 :: nat) (replicate n 0) = 0"
  by (induction n) auto

lemma defaultPrefixes_parse:
  "ParsePrefix ''0.0.0.0/0'' = Some default4" "ParsePrefix ''::/0'' = Some default6"
  by (simp_all add: parse_eval default4_def default6_def foldl_zeros)

lemma defaultPrefixes_eq:
  "defaultPrefixes family =
     (if family = ''ipv4'' then [default4] else if family = ''ipv6'' then [default6] else [default4, default6])"
  by (simp add: defaultPrefixes_def MustParsePrefix_def defaultPrefixes_parse)

section \<open>The keys identify the fields\<close>

definition route_fields :: "Route \<Rightarrow> int \<times> int \<times> int \<times> int \<times> Addr \<times> bool \<times> int \<times> Prefix" where
  "route_fields r = (rt_Table r, rt_Protocol r, rt_Type r, rt_LinkIndex r, rt_Via r, rt_OnLink r,
     rt_Metric r, rt_Dst r)"

definition rule_fields :: "Rule \<Rightarrow> int \<times> int \<times> bool \<times> 32 word \<times> 32 word \<times> Prefix" where
  "rule_fields r = (ru_Priority r, ru_Table r, ru_HasFWMark r, ru_FWMark r, ru_Mask r, ru_From r)"

lemma bar_Prefix_String: "pfx_wf p \<Longrightarrow> CHR ''|'' \<notin> set (Prefix_String p)"
  by (simp add: Prefix_String_def in_Itoa not_in_Addr_String pfx_wf_def)

lemma Prefix_String_inj:
  assumes "pfx_wf p" "Prefix_IsValid p" "pfx_wf q" "Prefix_IsValid q"
  shows "Prefix_String p = Prefix_String q \<longleftrightarrow> p = q"
  using ParsePrefix_String [OF assms(1,2)] ParsePrefix_String [OF assms(3,4)] by (metis option.inject)

lemma Prefix_String_invalid: "\<not> Prefix_IsValid p \<Longrightarrow> ParsePrefix (Prefix_String p) = None"
  by (simp add: Prefix_String_def ParsePrefix_def cut_last_def)

lemma routeKey_iff:
  assumes "pfx_wf (rt_Dst r)" "Prefix_IsValid (rt_Dst r)" "pfx_wf (rt_Dst s)" "Prefix_IsValid (rt_Dst s)"
  shows "routeKey r = routeKey s \<longleftrightarrow> route_fields r = route_fields s"
proof -
  have tail_eq: "a @ CHR ''|'' # fmt_bool o1 @ CHR ''|'' # Itoa m1 @ CHR ''|'' # Prefix_String (rt_Dst r) =
    b @ CHR ''|'' # fmt_bool o2 @ CHR ''|'' # Itoa m2 @ CHR ''|'' # Prefix_String (rt_Dst s)
    \<longleftrightarrow> a = b \<and> o1 = o2 \<and> m1 = m2 \<and> rt_Dst r = rt_Dst s" for a b o1 o2 m1 m2
    using sep_back [OF bar_Prefix_String [OF assms(1)] bar_Prefix_String [OF assms(3)],
        of "a @ CHR ''|'' # fmt_bool o1 @ CHR ''|'' # Itoa m1" "b @ CHR ''|'' # fmt_bool o2 @ CHR ''|'' # Itoa m2"]
      sep_back [of "CHR ''|''" "Itoa m1" "Itoa m2" "a @ CHR ''|'' # fmt_bool o1" "b @ CHR ''|'' # fmt_bool o2"]
      sep_back [of "CHR ''|''" "fmt_bool o1" "fmt_bool o2" a b]
    by (simp add: go_str Prefix_String_inj [OF assms])
  show ?thesis
    by (simp add: routeKey_def route_fields_def sep_front go_str tail_eq Addr_String_inj)
qed

lemma ruleKey_iff:
  assumes "pfx_wf (ru_From r)" "pfx_wf (ru_From s)"
    and "ru_From r = PrefixZero \<or> Prefix_IsValid (ru_From r)" "ru_From s = PrefixZero \<or> Prefix_IsValid (ru_From s)"
  shows "ruleKey r = ruleKey s \<longleftrightarrow> rule_fields r = rule_fields s"
proof -
  have "Prefix_String (ru_From r) = Prefix_String (ru_From s) \<longleftrightarrow> ru_From r = ru_From s"
    using assms Prefix_String_inj [of "ru_From r" "ru_From s"] Prefix_String_invalid ParsePrefix_String
    by (metis option.distinct(1))
  then show ?thesis
    by (simp add: ruleKey_def rule_fields_def sep_front go_str word_uint_eq_iff)
qed

section \<open>The desired routes\<close>

lemma set_desiredRoutes:
  "set (desiredRoutes proto g prefixes) =
     (\<Union>p \<in> set prefixes. set (target_routes proto g p))
     \<union> throw_route proto g ` set (FilterFamily (ig_ThrowPrefixes g) (tg_Family (g_Target (ig_Config g))))
     \<union> (case tg_Default (g_Target (ig_Config g)) of None \<Rightarrow> {}
        | Some d \<Rightarrow> \<Union>p \<in> set (defaultPrefixes (tg_Family (g_Target (ig_Config g)))).
            set (default_routes proto g d p))"
  by (cases "tg_Default (g_Target (ig_Config g))") (auto simp: desiredRoutes_def Let_def)

lemma base_route_simps [simp]:
  "rt_Table (base_route proto g p) = tg_Table (g_Target (ig_Config g))"
  "rt_Protocol (base_route proto g p) = proto" "rt_Dst (base_route proto g p) = p"
  "rt_Type (base_route proto g p) = 0" "rt_Via (base_route proto g p) = AddrZero"
  by (simp_all add: base_route_def zero_Route_def)

lemma hop_route_simps [simp]:
  "rt_Table (hop_route proto g p h) = tg_Table (g_Target (ig_Config g))"
  "rt_Protocol (hop_route proto g p h) = proto" "rt_Dst (hop_route proto g p h) = p"
  "rt_Type (hop_route proto g p h) = 0" "rt_Via (hop_route proto g p h) = h_Via h"
  by (simp_all add: hop_route_def)

lemma target_routes_simps:
  assumes "r \<in> set (target_routes proto g p)"
  shows "rt_Table r = tg_Table (g_Target (ig_Config g))" "rt_Protocol r = proto" "rt_Dst r = p"
    "rt_Type r = 0"
  using assms by (auto simp: target_routes_def Let_def split: if_splits)

lemma default_routes_simps:
  assumes "r \<in> set (default_routes proto g d p)"
  shows "rt_Table r = tg_Table (g_Target (ig_Config g))" "rt_Protocol r = proto" "rt_Dst r = p"
    "rt_Type r = 0"
  using assms by (auto simp: default_routes_def Let_def split: if_splits)

lemma target_routes_not_Nil: "target_routes proto g p \<noteq> []" "default_routes proto g d p \<noteq> []"
  by (simp_all add: target_routes_def default_routes_def Let_def)

lemma throw_route_simps [simp]:
  "rt_Table (throw_route proto g p) = tg_Table (g_Target (ig_Config g))"
  "rt_Protocol (throw_route proto g p) = proto" "rt_Dst (throw_route proto g p) = p"
  "rt_Type (throw_route proto g p) = RouteTypeThrow"
  by (simp_all add: throw_route_def)

lemma desiredRoutes_cases:
  assumes "r \<in> set (desiredRoutes proto g prefixes)"
  obtains (target) p where "p \<in> set prefixes" "r \<in> set (target_routes proto g p)"
  | (throw) p where "p \<in> set (FilterFamily (ig_ThrowPrefixes g) (tg_Family (g_Target (ig_Config g))))"
      "r = throw_route proto g p"
  | (default) d p where "tg_Default (g_Target (ig_Config g)) = Some d"
      "p \<in> set (defaultPrefixes (tg_Family (g_Target (ig_Config g))))" "r \<in> set (default_routes proto g d p)"
  using assms unfolding set_desiredRoutes by (auto split: option.splits)

text \<open>Every desired route is owned by the group: its table, the protocol of the daemon.\<close>

lemma desiredRoutes_owned:
  assumes "r \<in> set (desiredRoutes proto g prefixes)"
  shows "rt_Table r = tg_Table (g_Target (ig_Config g))" "rt_Protocol r = proto"
  using assms by (cases rule: desiredRoutes_cases; simp add: target_routes_simps default_routes_simps)+

lemma desiredRoutes_group: "r \<in> set (desiredRoutes proto g prefixes) \<Longrightarrow> rt_Group r = g_Name (ig_Config g)"
  by (auto simp: desiredRoutes_def target_routes_def default_routes_def throw_route_def hop_route_def base_route_def zero_Route_def
      Let_def split: option.splits if_splits)

text \<open>The destinations, kind by kind.\<close>

lemma dst_of_routes:
  "rt_Dst ` set (target_routes proto g p) = {p}" "rt_Dst ` set (default_routes proto g d p) = {p}"
proof -
  have single: "f ` X = {p}" if "\<And>x. x \<in> X \<Longrightarrow> f x = p" "X \<noteq> {}" for f :: "Route \<Rightarrow> Prefix" and X
    using that by auto
  show "rt_Dst ` set (target_routes proto g p) = {p}"
    by (rule single) (auto simp: target_routes_simps target_routes_not_Nil)
  show "rt_Dst ` set (default_routes proto g d p) = {p}"
    by (rule single) (auto simp: default_routes_simps target_routes_not_Nil)
qed

lemma desiredRoutes_kinds:
  "{r \<in> set (desiredRoutes proto g prefixes). rt_Type r = RouteTypeUnicast} =
     (\<Union>p \<in> set prefixes. set (target_routes proto g p))
     \<union> (case tg_Default (g_Target (ig_Config g)) of None \<Rightarrow> {}
        | Some d \<Rightarrow> \<Union>p \<in> set (defaultPrefixes (tg_Family (g_Target (ig_Config g)))). set (default_routes proto g d p))"
  "{r \<in> set (desiredRoutes proto g prefixes). rt_Type r = RouteTypeThrow} =
     throw_route proto g ` set (FilterFamily (ig_ThrowPrefixes g) (tg_Family (g_Target (ig_Config g))))"
  unfolding set_desiredRoutes RouteTypeUnicast_def RouteTypeThrow_def
  by (auto simp: target_routes_simps default_routes_simps RouteTypeThrow_def split: option.splits)

lemma desiredRoutes_dsts:
  "rt_Dst ` {r \<in> set (desiredRoutes proto g prefixes). rt_Type r = RouteTypeUnicast} =
     set prefixes \<union> (if tg_Default (g_Target (ig_Config g)) = None then {} else set (defaultPrefixes (tg_Family (g_Target (ig_Config g)))))"
  "rt_Dst ` {r \<in> set (desiredRoutes proto g prefixes). rt_Type r = RouteTypeThrow} =
     set (FilterFamily (ig_ThrowPrefixes g) (tg_Family (g_Target (ig_Config g))))"
  unfolding desiredRoutes_kinds
  by (cases "tg_Default (g_Target (ig_Config g))") (simp_all add: image_Un image_UN dst_of_routes image_image)

lemma desiredRoutes_type: "r \<in> set (desiredRoutes proto g prefixes) \<Longrightarrow> rt_Type r = RouteTypeUnicast \<or> rt_Type r = RouteTypeThrow"
  by (cases rule: desiredRoutes_cases) (auto simp: target_routes_simps default_routes_simps RouteTypeUnicast_def)

text \<open>The gateway of a route is of the family of its destination, or there is none.\<close>

definition via_ok :: "Addr \<Rightarrow> Prefix \<Rightarrow> bool" where
  "via_ok via p \<longleftrightarrow> \<not> Addr_IsValid via \<or> Is4 via = Is4 (Prefix_Addr p)"

lemma matchingHops_set:
  "set (matchingHops hops p) = {h \<in> set hops. Addr_IsValid (h_Via h) \<and> Is4 (h_Via h) = Is4 (Prefix_Addr p)}"
  by (auto simp: matchingHops_def)

lemma removePrefixesCoveringAddrs_eq:
  "removePrefixesCoveringAddrs ps as =
     filter (\<lambda>p. \<forall>a \<in> set as. Is4 (Prefix_Addr p) = Is4 a \<longrightarrow> \<not> Contains p a) ps"
  by (auto simp: removePrefixesCoveringAddrs_def list_ex_iff intro!: filter_cong)

lemma via_okI: "Is4 via = Is4 (Prefix_Addr p) \<Longrightarrow> via_ok via p" "via_ok AddrZero p"
  by (simp_all add: via_ok_def Addr_IsValid_def)

lemma via_okI6: "Is6 via \<Longrightarrow> Is6 (Prefix_Addr p) \<Longrightarrow> via_ok via p"
  using Is4_Is6(1) [of via] Is4_Is6(1) [of "Prefix_Addr p"] by (simp add: via_ok_def)

lemma nextHopVia_ok:
  assumes "validateNextHop path family h req = []" "nh_Gateways h = []"
  shows "via_ok (nextHopVia h p) p"
proof -
  let ?a = "Prefix_Addr p"
  have ok: "nh_Via4 h \<noteq> [] \<Longrightarrow> Is4 (parse_or_zero (nh_Via4 h))" "nh_Via6 h \<noteq> [] \<Longrightarrow> Is6 (parse_or_zero (nh_Via6 h))"
    using validateNextHop_leaf [OF assms] by (auto simp: parse_or_zero_def)
  consider "Is4 ?a" | "Is6 ?a" | "?a = AddrZero" using Is4_Is6(2) by blast
  then show ?thesis
  proof cases
    case 1
    then show ?thesis
      using ok(1) Is4_Is6(1) by (auto simp: nextHopVia_def via_okI Let_def)
  next
    case 2
    then have "\<not> Is4 ?a" using Is4_Is6(1) by blast
    with 2 show ?thesis
      using ok(2) by (auto simp: nextHopVia_def via_okI via_okI6 Let_def)
  next
    case 3
    then show ?thesis by (simp add: nextHopVia_def Let_def via_okI)
  qed
qed

text \<open>The case of a target without gateways; the planner then uses its addresses.\<close>

lemma routeVia_ok:
  assumes "validateGroup (ig_Config g) = []" "tg_Gateways (g_Target (ig_Config g)) = []"
  shows "via_ok (routeVia (g_Target (ig_Config g)) p) p"
proof -
  let ?t = "g_Target (ig_Config g)"
  obtain family where "validateNextHop ''target'' family (target_hop ?t) False = []"
    using validateGroup_hops [OF assms(1)] by blast
  moreover have "routeVia ?t p = nextHopVia (target_hop ?t) p"
    by (simp add: routeVia_def nextHopVia_def target_hop_def Let_def)
  ultimately show ?thesis using nextHopVia_ok [of _ _ "target_hop ?t"] assms(2) by (simp add: target_hop_def)
qed

text \<open>
  The gateway of any planned route: through a hop it has the family of the destination; the addresses
  beside a list of gateways, which validation does not look at, are used only when the list has no hop of
  the family.
\<close>

lemma desiredRoutes_via:
  assumes "validateGroup (ig_Config g) = []" "r \<in> set (desiredRoutes proto g prefixes)"
  defines "t \<equiv> g_Target (ig_Config g)"
  shows "via_ok (rt_Via r) (rt_Dst r)
    \<or> tg_Gateways t \<noteq> [] \<and> matchingHops (ig_TargetHops g) (rt_Dst r) = [] \<and> rt_Via r = routeVia t (rt_Dst r)
    \<or> (\<exists>d. tg_Default t = Some d \<and> nh_Gateways d \<noteq> [] \<and> matchingHops (ig_DefaultHops g) (rt_Dst r) = []
         \<and> rt_Via r = nextHopVia d (rt_Dst r))"
  using assms(2)
proof (cases rule: desiredRoutes_cases)
  case (target p)
  show ?thesis
  proof (cases "matchingHops (ig_TargetHops g) p = []")
    case True
    then have r: "rt_Dst r = p" "rt_Via r = routeVia t p" using target by (simp_all add: target_routes_def Let_def t_def)
    then show ?thesis using True routeVia_ok [OF assms(1), of p] by (auto simp: t_def)
  next
    case False
    then have "via_ok (rt_Via r) (rt_Dst r)"
      using target by (auto simp: target_routes_def Let_def matchingHops_set intro: via_okI)
    then show ?thesis ..
  qed
next
  case (throw p)
  then show ?thesis by (simp add: throw_route_def via_okI)
next
  case (default d p)
  obtain family where v: "validateNextHop ''target.default'' family d True = []"
    using validateGroup_hops [OF assms(1)] default(1) by blast
  show ?thesis
  proof (cases "matchingHops (ig_DefaultHops g) p = []")
    case True
    then have r: "rt_Dst r = p" "rt_Via r = nextHopVia d p" using default by (simp_all add: default_routes_def Let_def)
    then show ?thesis using True default(1) nextHopVia_ok [OF v, of p] by (auto simp: t_def)
  next
    case False
    then have "via_ok (rt_Via r) (rt_Dst r)"
      using default by (auto simp: default_routes_def Let_def matchingHops_set intro: via_okI)
    then show ?thesis ..
  qed
qed

text \<open>The prefixes that are planned: those of the family that contain no local address to be left alone.\<close>

lemma Contains_family: "Contains p a \<Longrightarrow> Is4 a = Is4 (Prefix_Addr p) \<and> Is6 a = Is6 (Prefix_Addr p)"
  by (cases "Prefix_Addr p"; cases a) (auto simp: Contains_def)

lemma plan_prefixes_iff:
  assumes "tg_Family (g_Target (ig_Config g)) \<in> {'''', ''dual'', ''ipv4'', ''ipv6''}"
  shows "p \<in> set (plan_prefixes g) \<longleftrightarrow>
    p \<in> set (FilterFamily (ig_Prefixes g) (tg_Family (g_Target (ig_Config g))))
    \<and> (\<forall>a \<in> set (ig_CoveredLocalAddrs g). \<not> Contains p a)"
proof -
  let ?f = "tg_Family (g_Target (ig_Config g))"
  have dual: "FilterFamily ps (if ?f = [] then ''dual'' else ?f) = FilterFamily ps ?f"
    "filterAddrsByFamily as (if ?f = [] then ''dual'' else ?f) = filterAddrsByFamily as ?f" for ps as
    by (simp_all add: FilterFamily_def filterAddrsByFamily_def)
  have "a \<in> set (filterAddrsByFamily (ig_CoveredLocalAddrs g) ?f)"
    if "p \<in> set (FilterFamily (ig_Prefixes g) ?f)" "a \<in> set (ig_CoveredLocalAddrs g)" "Contains p a" for a
    using assms that Contains_family [OF that(3)]
      pff.filt_4 [of "ig_Prefixes g"] pff.filt_6 [of "ig_Prefixes g"] aff.filt_4 [of "ig_CoveredLocalAddrs g"]
      aff.filt_6 [of "ig_CoveredLocalAddrs g"] aff.filt_dual [of ?f "ig_CoveredLocalAddrs g"]
    by auto
  moreover have "set (filterAddrsByFamily (ig_CoveredLocalAddrs g) ?f) \<subseteq> set (ig_CoveredLocalAddrs g)"
    using aff.filt_subset [of ?f] assms by (simp add: aff.family_ok_def)
  ultimately show ?thesis
    unfolding plan_prefixes_def Let_def dual removePrefixesCoveringAddrs_eq using Contains_family by fastforce
qed

end
