(* ===== verification/Reconcile.thy ===== *)
theory Reconcile
  imports Planner
begin

text \<open>
  \<open>internal/reconcile/routes\<close> and \<open>internal/reconcile/rules\<close>: reading the routes and rules the daemon
  owns, and applying a plan through the \<open>Kernel\<close> interface. Both \<open>Apply\<close> functions stop at the first
  error and leave what was done so far. The second half of the theory states what they rely on of a
  kernel table (\<open>kernel_table\<close>) and what they achieve on top of it.
\<close>

section \<open>Reading the owned state\<close>

definition wants4 :: "string \<Rightarrow> bool" where
  "wants4 family \<longleftrightarrow> family = ''dual'' \<or> family = '''' \<or> family = ''ipv4''"

definition wants6 :: "string \<Rightarrow> bool" where
  "wants6 family \<longleftrightarrow> family = ''dual'' \<or> family = '''' \<or> family = ''ipv6''"

text \<open>The two listings one after the other; an error ends the reading.\<close>

definition list_families ::
  "string \<Rightarrow> (int \<Rightarrow> (kernel_error, 'a list) result) \<Rightarrow> (kernel_error, 'a list) result" where
  "list_families family lst =
     bind_result (if wants4 family then lst 4 else Inr []) (\<lambda>a.
     bind_result (if wants6 family then lst 6 else Inr []) (\<lambda>b.
     Inr (a @ b)))"

definition routes_CurrentOwned ::
  "'w Kernel \<Rightarrow> int \<Rightarrow> int \<Rightarrow> string \<Rightarrow> 'w \<Rightarrow> (kernel_error, Route list) result" where
  "routes_CurrentOwned k table protocol family w =
     list_families family (\<lambda>f. ListRoutes k table f protocol w)"

definition rules_CurrentOwned ::
  "'w Kernel \<Rightarrow> int \<Rightarrow> int \<Rightarrow> int \<Rightarrow> int \<Rightarrow> string \<Rightarrow> 'w \<Rightarrow> (kernel_error, Rule list) result" where
  "rules_CurrentOwned k table priority base step family w =
     (let low = base; high = int64 (base + int64 (step * 1000)) in
      list_families family (\<lambda>f. bind_result (ListRules k f w) (\<lambda>rs.
        Inr (filter (\<lambda>r. ru_Table r = table \<and> ru_Priority r = priority \<and> low \<le> ru_Priority r
          \<and> ru_Priority r < high) rs))))"

section \<open>Applying a plan\<close>

text \<open>\<open>for _, r := range rs { if err := f(r); err != nil { return err } }\<close>\<close>

fun run_each :: "('r \<Rightarrow> 'w \<Rightarrow> kernel_error option \<times> 'w) \<Rightarrow> 'r list \<Rightarrow> 'w \<Rightarrow> kernel_error option \<times> 'w" where
  "run_each f [] w = (None, w)"
| "run_each f (r # rs) w =
     (case f r w of
        (Some e, w') \<Rightarrow> (Some e, w')
      | (None, w') \<Rightarrow> run_each f rs w')"

definition and_then ::
  "('w \<Rightarrow> kernel_error option \<times> 'w) \<Rightarrow> ('w \<Rightarrow> kernel_error option \<times> 'w) \<Rightarrow> 'w \<Rightarrow> kernel_error option \<times> 'w" where
  "and_then f g w = (case f w of (Some e, w') \<Rightarrow> (Some e, w') | (None, w') \<Rightarrow> g w')"

definition routeIdentity :: "Route \<Rightarrow> string" where
  "routeIdentity r = Prefix_String (rt_Dst r)"

definition routeIdentitySet :: "Route list \<Rightarrow> string set" where
  "routeIdentitySet routes = set (map routeIdentity routes)"

definition conflictingRouteRemovals :: "GroupPlan \<Rightarrow> Route list" where
  "conflictingRouteRemovals gp =
     (let adds = routeIdentitySet (gp_RoutesToAdd gp) in
      filter (\<lambda>r. routeIdentity r \<in> adds) (gp_RoutesToRemove gp))"

definition routes_Apply :: "'w Kernel \<Rightarrow> GroupPlan list \<Rightarrow> 'w \<Rightarrow> kernel_error option \<times> 'w" where
  "routes_Apply k plans =
     and_then
       (run_each (\<lambda>gp. and_then (run_each (DeleteRoute k) (conflictingRouteRemovals gp))
          (run_each (AddRoute k) (gp_RoutesToAdd gp))) plans)
       (run_each (\<lambda>gp.
          let preRemoved = routeIdentitySet (conflictingRouteRemovals gp) in
          run_each (DeleteRoute k) (filter (\<lambda>r. routeIdentity r \<notin> preRemoved) (gp_RoutesToRemove gp))) plans)"

definition rules_Apply :: "'w Kernel \<Rightarrow> GroupPlan list \<Rightarrow> 'w \<Rightarrow> kernel_error option \<times> 'w" where
  "rules_Apply k plans =
     run_each (\<lambda>gp. and_then (run_each (AddRule k) (gp_RulesToAdd gp))
       (run_each (DeleteRule k) (gp_RulesToRemove gp))) plans"

section \<open>A plan as a sequence of operations\<close>

datatype 'r op = Add 'r | Del 'r

fun exec_op :: "('r \<Rightarrow> 'w \<Rightarrow> kernel_error option \<times> 'w) \<Rightarrow> ('r \<Rightarrow> 'w \<Rightarrow> kernel_error option \<times> 'w)
    \<Rightarrow> 'r op \<Rightarrow> 'w \<Rightarrow> kernel_error option \<times> 'w" where
  "exec_op add del (Add r) = add r"
| "exec_op add del (Del r) = del r"

definition pre_removals :: "GroupPlan \<Rightarrow> Route list" where
  "pre_removals gp = filter (\<lambda>r. routeIdentity r \<in> routeIdentity ` set (gp_RoutesToAdd gp)) (gp_RoutesToRemove gp)"

definition post_removals :: "GroupPlan \<Rightarrow> Route list" where
  "post_removals gp = filter (\<lambda>r. routeIdentity r \<notin> routeIdentity ` set (gp_RoutesToAdd gp)) (gp_RoutesToRemove gp)"

definition pass1 :: "GroupPlan \<Rightarrow> Route op list" where
  "pass1 gp = map Del (pre_removals gp) @ map Add (gp_RoutesToAdd gp)"

definition pass2 :: "GroupPlan \<Rightarrow> Route op list" where
  "pass2 gp = map Del (post_removals gp)"

definition route_ops :: "GroupPlan list \<Rightarrow> Route op list" where
  "route_ops plans = concat (map pass1 plans) @ concat (map pass2 plans)"

definition rule_ops :: "GroupPlan list \<Rightarrow> Rule op list" where
  "rule_ops plans = concat (map (\<lambda>gp. map Add (gp_RulesToAdd gp) @ map Del (gp_RulesToRemove gp)) plans)"

lemma run_each_append: "run_each f (xs @ ys) = and_then (run_each f xs) (run_each f ys)"
  by (induction xs) (auto simp: and_then_def split: prod.splits option.splits)

lemma run_each_concat: "run_each f (concat (map h xs)) = run_each (\<lambda>x. run_each f (h x)) xs"
proof
  show "run_each f (concat (map h xs)) w = run_each (\<lambda>x. run_each f (h x)) xs w" for w
    by (induction xs arbitrary: w) (auto simp: run_each_append and_then_def split: prod.splits option.splits)
qed

lemma run_each_map: "run_each f (map g xs) = run_each (\<lambda>x. f (g x)) xs"
proof
  show "run_each f (map g xs) w = run_each (\<lambda>x. f (g x)) xs w" for w
    by (induction xs arbitrary: w) (auto split: prod.splits option.splits)
qed

lemma conflictingRouteRemovals_eq: "conflictingRouteRemovals gp = pre_removals gp"
  by (simp add: conflictingRouteRemovals_def pre_removals_def routeIdentitySet_def)

lemma post_removals_eq:
  "filter (\<lambda>r. routeIdentity r \<notin> routeIdentitySet (conflictingRouteRemovals gp)) (gp_RoutesToRemove gp)
   = post_removals gp"
  by (auto simp: conflictingRouteRemovals_eq pre_removals_def post_removals_def routeIdentitySet_def
      intro!: filter_cong)

lemma routes_Apply_ops: "routes_Apply k plans = run_each (exec_op (AddRoute k) (DeleteRoute k)) (route_ops plans)"
  by (simp add: routes_Apply_def route_ops_def run_each_append run_each_concat run_each_map
      pass1_def pass2_def conflictingRouteRemovals_eq [symmetric] post_removals_eq Let_def)

lemma rules_Apply_ops: "rules_Apply k plans = run_each (exec_op (AddRule k) (DeleteRule k)) (rule_ops plans)"
  by (simp add: rules_Apply_def rule_ops_def run_each_append run_each_concat run_each_map)

definition op_adds :: "'r op list \<Rightarrow> 'r list" where
  "op_adds ops = concat (map (\<lambda>opn. case opn of Add r \<Rightarrow> [r] | Del r \<Rightarrow> []) ops)"

definition op_dels :: "'r op list \<Rightarrow> 'r list" where
  "op_dels ops = concat (map (\<lambda>opn. case opn of Add r \<Rightarrow> [] | Del r \<Rightarrow> [r]) ops)"

lemma op_simps [simp]:
  "op_adds [] = []" "op_adds (Add r # ops) = r # op_adds ops" "op_adds (Del r # ops) = op_adds ops"
  "op_dels [] = []" "op_dels (Add r # ops) = op_dels ops" "op_dels (Del r # ops) = r # op_dels ops"
  "op_adds (xs @ ys) = op_adds xs @ op_adds ys" "op_dels (xs @ ys) = op_dels xs @ op_dels ys"
  "op_adds (map Add rs) = rs" "op_adds (map Del rs) = []" "op_dels (map Del rs) = rs" "op_dels (map Add rs) = []"
  by (simp_all add: op_adds_def op_dels_def comp_def)

lemma op_concat:
  "op_adds (concat xss) = concat (map op_adds xss)" "op_dels (concat xss) = concat (map op_dels xss)"
  by (induction xss) simp_all

section \<open>What a kernel table promises\<close>

text \<open>
  A table of the kernel (routes or rules) as a set of entries. An entry is what the program can
  tell apart of an installed object (\<open>fields\<close>); the kernel holds at most one entry per \<open>ident\<close>. The
  laws are promised for objects the table stores as they are (\<open>kept\<close>), in good states (\<open>invar\<close>):
  an addition that reports success has the entry installed unless one with the same identity was
  there before, a deletion that reports success has removed the entry, an operation that fails has
  changed nothing.
\<close>

locale kernel_table =
  fixes add del :: "'r \<Rightarrow> 'w \<Rightarrow> kernel_error option \<times> 'w"
    and tbl :: "'w \<Rightarrow> 'x set"
    and fields :: "'r \<Rightarrow> 'x"
    and ident :: "'x \<Rightarrow> 'i"
    and kept :: "'r \<Rightarrow> bool"
    and invar :: "'w \<Rightarrow> bool"
  assumes add_new: "invar w \<Longrightarrow> kept r \<Longrightarrow> ident (fields r) \<notin> ident ` tbl w \<Longrightarrow> add r w = (None, w') \<Longrightarrow>
      invar w' \<and> tbl w' = insert (fields r) (tbl w)"
    and add_fails: "invar w \<Longrightarrow> kept r \<Longrightarrow> add r w = (Some e, w') \<Longrightarrow> invar w' \<and> tbl w' = tbl w"
    and del_present: "invar w \<Longrightarrow> kept r \<Longrightarrow> fields r \<in> tbl w \<Longrightarrow> del r w = (None, w') \<Longrightarrow>
      invar w' \<and> tbl w' = tbl w - {fields r}"
    and del_fails: "invar w \<Longrightarrow> kept r \<Longrightarrow> del r w = (Some e, w') \<Longrightarrow> invar w' \<and> tbl w' = tbl w"
begin

definition kt_step :: "'x set \<Rightarrow> 'r op \<Rightarrow> 'x set" where
  "kt_step F opn = (case opn of Add r \<Rightarrow> insert (fields r) F | Del r \<Rightarrow> F - {fields r})"

lemma kt_step_simps [simp]: "kt_step F (Add r) = insert (fields r) F" "kt_step F (Del r) = F - {fields r}"
  by (simp_all add: kt_step_def)

fun kt_safe :: "'x set \<Rightarrow> 'r op list \<Rightarrow> bool" where
  "kt_safe F [] = True"
| "kt_safe F (opn # ops) = ((case opn of
       Add r \<Rightarrow> kept r \<and> ident (fields r) \<notin> ident ` F
     | Del r \<Rightarrow> kept r \<and> fields r \<in> F) \<and> kt_safe (kt_step F opn) ops)"

lemma kt_safe_append: "kt_safe F (xs @ ys) \<longleftrightarrow> kt_safe F xs \<and> kt_safe (foldl kt_step F xs) ys"
  by (induction xs arbitrary: F) auto

lemma exec_op_step:
  assumes "invar w" "kt_safe (tbl w) (opn # ops)" "exec_op add del opn w = (e, w')"
  shows "invar w'" "tbl w' = (if e = None then kt_step (tbl w) opn else tbl w)"
proof -
  have "invar w' \<and> tbl w' = (if e = None then kt_step (tbl w) opn else tbl w)"
  proof (cases opn)
    case (Add r)
    then show ?thesis
      using assms add_new [OF assms(1), of r w'] add_fails [OF assms(1), of r _ w']
      by (cases e) (simp_all add: kt_step_def)
  next
    case (Del r)
    then show ?thesis
      using assms del_present [OF assms(1), of r w'] del_fails [OF assms(1), of r _ w']
      by (cases e) (simp_all add: kt_step_def)
  qed
  then show "invar w'" "tbl w' = (if e = None then kt_step (tbl w) opn else tbl w)" by auto
qed

text \<open>Run to the end, the operations do what they say; interrupted by an error, a prefix of them has.\<close>

lemma run_prefix:
  assumes "invar w" "kt_safe (tbl w) ops" "run_each (exec_op add del) ops w = (e, w')"
  shows "invar w' \<and> (\<exists>n \<le> length ops. tbl w' = foldl kt_step (tbl w) (take n ops) \<and> (e = None \<longrightarrow> n = length ops))"
  using assms
proof (induction ops arbitrary: w)
  case Nil
  then show ?case by simp
next
  case (Cons opn ops)
  obtain e1 w1 where run: "exec_op add del opn w = (e1, w1)" by fastforce
  note step = exec_op_step [OF Cons.prems(1,2) run]
  show ?case
  proof (cases e1)
    case None
    then have "invar w1" "kt_safe (tbl w1) ops" "run_each (exec_op add del) ops w1 = (e, w')"
      using step Cons.prems(2,3) run by simp_all
    from Cons.IH [OF this] obtain n where "invar w'" "n \<le> length ops"
      "tbl w' = foldl kt_step (tbl w1) (take n ops)" "e = None \<longrightarrow> n = length ops" by blast
    then show ?thesis using step None by (intro conjI exI [of _ "Suc n"]) simp_all
  next
    case (Some e')
    then show ?thesis using step Cons.prems(3) run by (intro conjI exI [of _ 0]) auto
  qed
qed

lemma run_complete:
  assumes "invar w" "kt_safe (tbl w) ops" "run_each (exec_op add del) ops w = (None, w')"
  shows "invar w'" "tbl w' = foldl kt_step (tbl w) ops"
  using run_prefix [OF assms] by auto

definition kt_adds :: "'r op list \<Rightarrow> 'x set" where
  "kt_adds ops = {fields r |r. Add r \<in> set ops}"

definition kt_dels :: "'r op list \<Rightarrow> 'x set" where
  "kt_dels ops = {fields r |r. Del r \<in> set ops}"

lemma kt_adds_eq: "kt_adds ops = fields ` set (op_adds ops)" "kt_dels ops = fields ` set (op_dels ops)"
  by (auto simp: kt_adds_def kt_dels_def op_adds_def op_dels_def image_iff split: op.splits)

lemma kt_step_bounds: "F - kt_dels ops \<subseteq> foldl kt_step F ops" "foldl kt_step F ops \<subseteq> F \<union> kt_adds ops"
proof (induction ops arbitrary: F)
  case Nil
  { case 1 show ?case by simp }
  { case 2 show ?case by simp }
next
  case (Cons opn ops)
  { case 1 show ?case using Cons.IH(1) [of "kt_step F opn"]
      by (cases opn) (auto simp: kt_step_def kt_dels_def) }
  { case 2 show ?case using Cons.IH(2) [of "kt_step F opn"]
      by (cases opn) (auto simp: kt_step_def kt_adds_def) }
qed

text \<open>Whatever happens, only entries named by the operations appear or disappear.\<close>

lemma run_frame:
  assumes "invar w" "kt_safe (tbl w) ops" "run_each (exec_op add del) ops w = (e, w')"
  shows "tbl w - kt_dels ops \<subseteq> tbl w'" "tbl w' \<subseteq> tbl w \<union> kt_adds ops"
proof -
  obtain n where n: "tbl w' = foldl kt_step (tbl w) (take n ops)" using run_prefix [OF assms] by blast
  have "kt_dels (take n ops) \<subseteq> kt_dels ops" "kt_adds (take n ops) \<subseteq> kt_adds ops"
    by (auto simp: kt_dels_def kt_adds_def dest: in_set_takeD)
  then show "tbl w - kt_dels ops \<subseteq> tbl w'" "tbl w' \<subseteq> tbl w \<union> kt_adds ops"
    using kt_step_bounds [of "tbl w" "take n ops"] unfolding n by blast+
qed

text \<open>
  The general condition for a sequence to run undisturbed: what is deleted is there and deleted
  once, no identity is added twice, and an entry in the way of an addition has been deleted
  before it.
\<close>

fun kt_cleared :: "'x set \<Rightarrow> 'x set \<Rightarrow> 'r op list \<Rightarrow> bool" where
  "kt_cleared F D [] = True"
| "kt_cleared F D (Add r # ops) =
     ((\<forall>x \<in> F. ident x = ident (fields r) \<longrightarrow> x \<in> D) \<and> kt_cleared F D ops)"
| "kt_cleared F D (Del r # ops) = kt_cleared F (insert (fields r) D) ops"

lemma kt_cleared_append:
  "kt_cleared F D (xs @ ys) \<longleftrightarrow> kt_cleared F D xs \<and> kt_cleared F (D \<union> fields ` set (op_dels xs)) ys"
  by (induction F D xs rule: kt_cleared.induct) auto

lemma kt_cleared_mono: "kt_cleared F D ops \<Longrightarrow> D \<subseteq> D' \<Longrightarrow> kt_cleared F D' ops"
  by (induction F D ops arbitrary: D' rule: kt_cleared.induct) (auto dest: insert_mono)

lemma kt_cleared_concat: "\<forall>xs \<in> set xss. kt_cleared F {} xs \<Longrightarrow> kt_cleared F D (concat xss)"
  by (induction xss arbitrary: D) (auto simp: kt_cleared_append intro: kt_cleared_mono)

lemma kt_cleared_forget: "kt_cleared F (insert x D) ops \<Longrightarrow> kt_cleared (F - {x}) D ops"
  by (induction F D ops rule: kt_cleared.induct) (auto simp: insert_commute)

lemma kt_cleared_insert:
  "kt_cleared F D ops \<Longrightarrow> \<forall>r \<in> set (op_adds ops). ident (fields r) \<noteq> ident x \<Longrightarrow> kt_cleared (insert x F) D ops"
  by (induction F D ops rule: kt_cleared.induct) auto

lemma run_effect:
  assumes "\<forall>r \<in> set (op_adds ops) \<union> set (op_dels ops). kept r"
    and "fields ` set (op_dels ops) \<subseteq> F" "distinct (map fields (op_dels ops))"
    and "distinct (map (\<lambda>r. ident (fields r)) (op_adds ops))" "kt_cleared F {} ops"
  shows "kt_safe F ops \<and>
    foldl kt_step F ops = (F - fields ` set (op_dels ops)) \<union> fields ` set (op_adds ops)"
  using assms
proof (induction ops arbitrary: F)
  case Nil
  then show ?case by simp
next
  case (Cons opn ops)
  show ?case
  proof (cases opn)
    case (Add r)
    let ?F = "insert (fields r) F"
    have free: "ident (fields r) \<notin> ident ` F" using Cons.prems(5) Add by auto
    have "\<forall>s \<in> set (op_adds ops). ident (fields s) \<noteq> ident (fields r)"
      using Cons.prems(4) Add by (auto simp: image_iff)
    then have "kt_cleared ?F {} ops" using Cons.prems(5) Add kt_cleared_insert by simp
    then have "kt_safe ?F ops \<and> foldl kt_step ?F ops = (?F - fields ` set (op_dels ops)) \<union> fields ` set (op_adds ops)"
      using Cons.IH [of ?F] Cons.prems Add by auto
    moreover have "fields r \<notin> fields ` set (op_dels ops)" using Cons.prems(2) Add free by auto
    ultimately show ?thesis using Cons.prems(1) Add free by auto
  next
    case (Del r)
    let ?F = "F - {fields r}"
    have "kt_cleared ?F {} ops" using Cons.prems(5) Del kt_cleared_forget by simp
    moreover have "fields ` set (op_dels ops) \<subseteq> ?F" using Cons.prems(2,3) Del by simp blast
    ultimately have "kt_safe ?F ops \<and> foldl kt_step ?F ops = (?F - fields ` set (op_dels ops)) \<union> fields ` set (op_adds ops)"
      using Cons.IH [of ?F] Cons.prems Del by simp
    then show ?thesis using Cons.prems(1,2) Del by auto
  qed
qed

end

section \<open>Plans of several groups\<close>

definition group_table :: "InputGroup \<Rightarrow> int" where
  "group_table g = tg_Table (g_Target (ig_Config g))"

definition group_family :: "InputGroup \<Rightarrow> string" where
  "group_family g = tg_Family (g_Target (ig_Config g))"

lemma Build_groups:
  "plan_Groups (Build ords proto gs) = map (\<lambda>e. build_group (ords (fst e)) proto (snd e)) (enumerate 0 gs)"
  by (simp add: Build_def case_prod_beta)

lemma snd_enumerate: "snd ` set (enumerate n gs) = set gs"
  by (metis list.set_map map_snd_enumerate)

lemma in_enumerate: "e \<in> set (enumerate n gs) \<Longrightarrow> snd e \<in> set gs"
  using snd_enumerate by fast

lemma image_diff_by:
  assumes "\<And>r s. r \<in> A \<union> B \<Longrightarrow> s \<in> A \<union> B \<Longrightarrow> key r = key s \<longleftrightarrow> content r = content s"
    and "X \<subseteq> A" "key ` X = key ` A - key ` B"
  shows "content ` X = content ` A - content ` B"
proof (intro equalityI subsetI)
  fix x assume "x \<in> content ` X"
  then obtain r where r: "r \<in> X" "x = content r" by blast
  then have "key r \<in> key ` A - key ` B" unfolding assms(3) [symmetric] by blast
  then have "content r \<notin> content ` B" using assms(1) [of r] r(1) assms(2) by blast
  then show "x \<in> content ` A - content ` B" using r assms(2) by auto
next
  fix x assume "x \<in> content ` A - content ` B"
  then obtain r where r: "r \<in> A" "x = content r" "content r \<notin> content ` B" by blast
  then have "key r \<notin> key ` B" using assms(1) [of r] by blast
  then have "key r \<in> key ` X" unfolding assms(3) using r(1) by blast
  then obtain s where s: "s \<in> X" "key r = key s" by blast
  then have "content r = content s" using assms(1) [of r s] r(1) assms(2) by blast
  then show "x \<in> content ` X" using r s by blast
qed

lemma distinct_concat_by:
  assumes "distinct (map t gs)" "\<And>g. g \<in> set gs \<Longrightarrow> distinct (map f (h g))"
    and "\<And>g x. g \<in> set gs \<Longrightarrow> x \<in> set (h g) \<Longrightarrow> c (f x) = t g"
  shows "distinct (map f (concat (map h gs)))"
  using assms
proof (induction gs)
  case (Cons g gs)
  have "f x \<noteq> f y" if "x \<in> set (h g)" "g' \<in> set gs" "y \<in> set (h g')" for x g' y
  proof -
    have "t g \<noteq> t g'" using Cons.prems(1) that(2) by auto
    then show ?thesis using Cons.prems(3) [of g x] Cons.prems(3) [of g' y] that by auto
  qed
  then have "f ` set (h g) \<inter> f ` set (concat (map h gs)) = {}" by fastforce
  moreover have "distinct (map f (concat (map h gs)))" using Cons by simp
  ultimately show ?case using Cons.prems(2) [of g] by simp
qed simp

text \<open>A sequence of deletions.\<close>

context kernel_table
begin

lemma run_dels:
  assumes "invar w" "\<forall>r \<in> set rs. kept r" "fields ` set rs \<subseteq> tbl w" "distinct (map fields rs)"
    and "run_each (exec_op add del) (map Del rs) w = (e, w')"
  shows "invar w'" "e = None \<Longrightarrow> tbl w' = tbl w - fields ` set rs"
    "tbl w - fields ` set rs \<subseteq> tbl w'" "tbl w' \<subseteq> tbl w"
proof -
  have ops: "op_adds (map Del rs) = []" "op_dels (map Del rs) = rs" for rs :: "'r list"
    by (induction rs) (simp_all add: op_adds_def op_dels_def)
  have "kt_cleared F D (map Del rs)" for F D by (induction rs arbitrary: D) auto
  then have eff: "kt_safe (tbl w) (map Del rs)" "foldl kt_step (tbl w) (map Del rs) = tbl w - fields ` set rs"
    using run_effect [of "map Del rs" "tbl w"] assms(2-4) by (simp_all add: ops)
  show "invar w'" using run_prefix [OF assms(1) eff(1) assms(5)] by blast
  show "e = None \<Longrightarrow> tbl w' = tbl w - fields ` set rs" using run_complete(2) [OF assms(1) eff(1)] assms(5) eff(2) by simp
  show "tbl w - fields ` set rs \<subseteq> tbl w'" "tbl w' \<subseteq> tbl w"
    using run_frame [OF assms(1) eff(1) assms(5)] by (simp_all add: kt_adds_eq ops)
qed

end

text \<open>What every operation keeps, a run of them keeps.\<close>

lemma run_each_rel:
  assumes "\<And>x w e w'. f x w = (e, w') \<Longrightarrow> R w w'" "\<And>w. R w w" "\<And>w u v. R w u \<Longrightarrow> R u v \<Longrightarrow> R w v"
  shows "run_each f xs w = (e, w') \<Longrightarrow> R w w'"
proof (induction xs arbitrary: w)
  case (Cons x xs)
  obtain e1 w1 where "f x w = (e1, w1)" by fastforce
  then show ?case using Cons assms(1) [of x w e1 w1] assms(3) by (cases e1) auto
qed (simp add: assms(2))

text \<open>A plan for rules is the difference of what the kernel compares, not only of the printed keys.\<close>

lemma rule_diff_fields:
  assumes "is_range_order od" "is_range_order oc" "diffRules od oc desired current = (add, remove)"
    and "\<forall>r \<in> set desired \<union> set current. pfx_wf (ru_From r) \<and> (ru_From r = PrefixZero \<or> Prefix_IsValid (ru_From r))"
  shows "rule_fields ` set add = rule_fields ` set desired - rule_fields ` set current"
    "rule_fields ` set remove = rule_fields ` set current - rule_fields ` set desired"
proof -
  note d = rule_diff.diff_keys [OF assms(1-3)]
  have key: "ruleKey r = ruleKey s \<longleftrightarrow> rule_fields r = rule_fields s"
    if "r \<in> set desired \<union> set current" "s \<in> set desired \<union> set current" for r s
    using that assms(4) by (intro ruleKey_iff) auto
  show "rule_fields ` set add = rule_fields ` set desired - rule_fields ` set current"
    by (rule image_diff_by [OF key d(1,3)])
  show "rule_fields ` set remove = rule_fields ` set current - rule_fields ` set desired"
    by (rule image_diff_by [OF key d(2,4)]) (simp_all add: Un_commute)
qed

end
