(* ===== verification/Reconcile_Routes.thy ===== *)
theory Reconcile_Routes
  imports Reconcile
begin

text \<open>
  What \<open>routes.Apply\<close> achieves on a kernel that keeps the laws of \<open>kernel_table\<close> and lists what it
  holds (\<open>route_table\<close>): a plan built from the listed routes, carried out without error, replaces
  exactly the owned entries by the desired ones; interrupted by an error it has touched nothing
  else; and the next plan is empty.
\<close>

section \<open>The route tables\<close>

type_synonym route_entry = "int \<times> int \<times> int \<times> int \<times> Addr \<times> bool \<times> int \<times> Prefix"

text \<open>
  Linux refuses a second route of the same table, destination and metric, whatever its gateway.
\<close>

definition route_ident :: "route_entry \<Rightarrow> int \<times> Prefix \<times> int" where
  "route_ident = (\<lambda>(table, protocol, typ, link, via, onlink, metric, dst). (table, dst, metric))"

lemma route_ident_fields [simp]: "route_ident (route_fields r) = (rt_Table r, rt_Dst r, rt_Metric r)"
  by (simp add: route_ident_def route_fields_def)

definition entry_owned :: "int \<Rightarrow> int \<Rightarrow> int \<Rightarrow> route_entry \<Rightarrow> bool" where
  "entry_owned t f p = (\<lambda>(table, protocol, typ, link, via, onlink, metric, dst).
     table = t \<and> protocol = p \<and> (if f = 6 then Is6 (Prefix_Addr dst) else Is4 (Prefix_Addr dst)))"

lemma entry_owned_fields [simp]:
  "entry_owned t f p (route_fields r) \<longleftrightarrow> rt_Table r = t \<and> rt_Protocol r = p
     \<and> (if f = 6 then Is6 (Prefix_Addr (rt_Dst r)) else Is4 (Prefix_Addr (rt_Dst r)))"
  by (simp add: entry_owned_def route_fields_def)

locale route_table =
  kernel_table "AddRoute k" "DeleteRoute k" tbl route_fields route_ident kept invar
  for k :: "'w Kernel" and tbl :: "'w \<Rightarrow> route_entry set" and kept :: "Route \<Rightarrow> bool" and invar :: "'w \<Rightarrow> bool" +
  assumes list_entries: "invar w \<Longrightarrow> f = 4 \<or> f = 6 \<Longrightarrow> ListRoutes k t f p w = Inr rs \<Longrightarrow>
      route_fields ` set rs = {x \<in> tbl w. entry_owned t f p x}
      \<and> distinct (map route_fields rs) \<and> (\<forall>r \<in> set rs. kept r)"
    and kept_dst: "kept r \<Longrightarrow> pfx_ok (rt_Dst r)"
begin

text \<open>The plans of all groups fit the table: see \<open>run_effect\<close>.\<close>

definition fits :: "route_entry set \<Rightarrow> GroupPlan list \<Rightarrow> bool" where
  "fits F plans \<longleftrightarrow>
     (\<forall>gp \<in> set plans. (\<forall>r \<in> set (gp_RoutesToAdd gp) \<union> set (gp_RoutesToRemove gp). kept r)
        \<and> route_fields ` set (gp_RoutesToRemove gp) \<subseteq> F
        \<and> (\<forall>a \<in> set (gp_RoutesToAdd gp). \<forall>x \<in> F. route_ident x = route_ident (route_fields a)
            \<longrightarrow> x \<in> route_fields ` set (gp_RoutesToRemove gp)))
     \<and> distinct (map route_fields (concat (map gp_RoutesToRemove plans)))
     \<and> distinct (map (\<lambda>r. route_ident (route_fields r)) (concat (map gp_RoutesToAdd plans)))"

lemma op_adds_route_ops: "op_adds (route_ops plans) = concat (map gp_RoutesToAdd plans)"
  by (simp add: route_ops_def op_concat pass1_def pass2_def comp_def)

lemma op_dels_route_ops: "mset (op_dels (route_ops plans)) = mset (concat (map gp_RoutesToRemove plans))"
proof -
  have "mset (gp_RoutesToRemove gp) = mset (pre_removals gp) + mset (post_removals gp)" for gp
    by (simp add: pre_removals_def post_removals_def)
  then show ?thesis
    by (simp add: route_ops_def op_concat pass1_def pass2_def comp_def) (induction plans; simp)
qed

lemma set_route_ops:
  "set (op_dels (route_ops plans)) = (\<Union>gp \<in> set plans. set (gp_RoutesToRemove gp))"
  "set (op_adds (route_ops plans)) = (\<Union>gp \<in> set plans. set (gp_RoutesToAdd gp))"
  using mset_eq_setD [OF op_dels_route_ops [of plans]] by (simp_all add: op_adds_route_ops)

lemma cleared_pass1:
  assumes "\<forall>a \<in> set (gp_RoutesToAdd gp). \<forall>x \<in> F. route_ident x = route_ident (route_fields a)
    \<longrightarrow> x \<in> route_fields ` set (gp_RoutesToRemove gp)"
  shows "kt_cleared F {} (pass1 gp)"
proof -
  have dels: "kt_cleared F D (map Del rs)" for D rs by (induction rs arbitrary: D) auto
  have adds: "kt_cleared F D (map Add as) \<longleftrightarrow>
    (\<forall>a \<in> set as. \<forall>x \<in> F. route_ident x = route_ident (route_fields a) \<longrightarrow> x \<in> D)" for D as
    by (induction as) auto
  have "x \<in> route_fields ` set (pre_removals gp)"
    if a: "a \<in> set (gp_RoutesToAdd gp)" and x: "x \<in> F" "route_ident x = route_ident (route_fields a)" for a x
  proof -
    obtain r where r: "r \<in> set (gp_RoutesToRemove gp)" "x = route_fields r" using assms a x by blast
    then have "routeIdentity r = routeIdentity a" using x(2) by (simp add: routeIdentity_def)
    then show ?thesis using r a by (auto simp: pre_removals_def)
  qed
  then show ?thesis by (simp add: pass1_def kt_cleared_append dels adds)
qed

lemma route_ops_effect:
  assumes "fits F plans"
  shows "kt_safe F (route_ops plans)"
    "foldl kt_step F (route_ops plans) =
      (F - route_fields ` (\<Union>gp \<in> set plans. set (gp_RoutesToRemove gp)))
      \<union> route_fields ` (\<Union>gp \<in> set plans. set (gp_RoutesToAdd gp))"
proof -
  note sets = set_route_ops [of plans]
  have "distinct (map route_fields (op_dels (route_ops plans)))"
    using assms mset_eq_imp_distinct_iff [of "map route_fields (op_dels (route_ops plans))"
        "map route_fields (concat (map gp_RoutesToRemove plans))"]
    by (simp add: op_dels_route_ops fits_def del: map_concat)
  moreover have "kt_cleared F {} (route_ops plans)"
  proof -
    have "kt_cleared F D (concat (map pass2 plans))" for D
    proof -
      have "kt_cleared F D (map Del rs)" for D rs by (induction rs arbitrary: D) auto
      then show ?thesis by (intro kt_cleared_concat) (auto simp: pass2_def)
    qed
    moreover have "kt_cleared F {} (concat (map pass1 plans))"
      using assms cleared_pass1 by (intro kt_cleared_concat) (auto simp: fits_def)
    ultimately show ?thesis by (simp add: route_ops_def kt_cleared_append)
  qed
  ultimately have "kt_safe F (route_ops plans) \<and> foldl kt_step F (route_ops plans) =
      (F - route_fields ` set (op_dels (route_ops plans))) \<union> route_fields ` set (op_adds (route_ops plans))"
    using assms by (intro run_effect) (auto simp: fits_def sets op_adds_route_ops simp del: map_concat)
  then show "kt_safe F (route_ops plans)"
    "foldl kt_step F (route_ops plans) =
      (F - route_fields ` (\<Union>gp \<in> set plans. set (gp_RoutesToRemove gp)))
      \<union> route_fields ` (\<Union>gp \<in> set plans. set (gp_RoutesToAdd gp))"
    by (simp_all add: sets)
qed

end
section \<open>A planned reconciliation reaches the desired tables\<close>

definition group_desired :: "int \<Rightarrow> InputGroup \<Rightarrow> Route list" where
  "group_desired proto g = desiredRoutes proto g (plan_prefixes g)"

definition family_owned :: "int \<Rightarrow> int \<Rightarrow> string \<Rightarrow> route_entry \<Rightarrow> bool" where
  "family_owned t p family x \<longleftrightarrow> wants4 family \<and> entry_owned t 4 p x \<or> wants6 family \<and> entry_owned t 6 p x"

lemma build_group_routes:
  "(gp_RoutesToAdd (build_group ords proto g), gp_RoutesToRemove (build_group ords proto g)) =
     diffRoutes (ords 0) (ords 1) (group_desired proto g) (ig_CurrentRoutes g)"
  by (simp add: build_group_def group_desired_def Let_def split: prod.splits)

lemma fst_route_fields [simp]: "fst (route_fields r) = rt_Table r"
  by (simp add: route_fields_def)

lemma group_desired_table: "r \<in> set (group_desired proto g) \<Longrightarrow> rt_Table r = group_table g"
  by (simp add: group_desired_def group_table_def desiredRoutes_owned(1))

lemma family_owned_table: "family_owned t p family x \<Longrightarrow> fst x = t"
  by (auto simp: family_owned_def entry_owned_def split: prod.splits)

definition owned_entries :: "int \<Rightarrow> InputGroup list \<Rightarrow> route_entry set" where
  "owned_entries proto gs = {x. \<exists>g \<in> set gs. family_owned (group_table g) proto (group_family g) x}"

definition desired_entries :: "int \<Rightarrow> InputGroup list \<Rightarrow> route_entry set" where
  "desired_entries proto gs = (\<Union>g \<in> set gs. route_fields ` set (group_desired proto g))"

context route_table
begin

lemma CurrentOwned_entries:
  assumes "invar w" "routes_CurrentOwned k t p family w = Inr rs"
  shows "route_fields ` set rs = {x \<in> tbl w. family_owned t p family x}" "distinct (map route_fields rs)"
    "\<forall>r \<in> set rs. kept r"
proof -
  obtain a b where ab: "(if wants4 family then ListRoutes k t 4 p w else Inr []) = Inr a"
    "(if wants6 family then ListRoutes k t 6 p w else Inr []) = Inr b" "rs = a @ b"
    using assms(2) by (auto simp: routes_CurrentOwned_def list_families_def bind_result_Inr)
  have a: "route_fields ` set a = {x \<in> tbl w. wants4 family \<and> entry_owned t 4 p x}
      \<and> distinct (map route_fields a) \<and> (\<forall>r \<in> set a. kept r)"
    using ab(1) list_entries [OF assms(1), of 4 t p a] by (cases "wants4 family") auto
  have b: "route_fields ` set b = {x \<in> tbl w. wants6 family \<and> entry_owned t 6 p x}
      \<and> distinct (map route_fields b) \<and> (\<forall>r \<in> set b. kept r)"
    using ab(2) list_entries [OF assms(1), of 6 t p b] by (cases "wants6 family") auto
  have "\<not> (entry_owned t 4 p x \<and> entry_owned t 6 p x)" for x
    using Is4_Is6(1) by (auto simp: entry_owned_def split: prod.splits)
  then have "route_fields ` set a \<inter> route_fields ` set b = {}" using a b by blast
  then show "distinct (map route_fields rs)" using a b ab(3) by simp
  show "route_fields ` set rs = {x \<in> tbl w. family_owned t p family x}"
    unfolding ab(3) set_append image_Un using a b by (auto simp: family_owned_def)
  show "\<forall>r \<in> set rs. kept r" using a b ab(3) by auto
qed

lemma kept_key: "kept r \<Longrightarrow> kept s \<Longrightarrow> routeKey r = routeKey s \<longleftrightarrow> route_fields r = route_fields s"
  using kept_dst [of r] kept_dst [of s] by (intro routeKey_iff) (simp_all add: pfx_ok_def)

lemma fields_diff:
  assumes "\<forall>r \<in> A. kept r" "\<forall>r \<in> B. kept r" "X \<subseteq> A" "routeKey ` X = routeKey ` A - routeKey ` B"
  shows "route_fields ` X = route_fields ` A - route_fields ` B"
proof (rule image_diff_by [OF _ assms(3,4)])
  show "routeKey r = routeKey s \<longleftrightarrow> route_fields r = route_fields s" if "r \<in> A \<union> B" "s \<in> A \<union> B" for r s
    using that assms(1,2) by (intro kept_key) blast+
qed

text \<open>What has to hold of the groups and the table for the plan to be carried out as meant.\<close>

definition reconcilable :: "int \<Rightarrow> InputGroup list \<Rightarrow> 'w \<Rightarrow> bool" where
  "reconcilable proto gs w \<longleftrightarrow> invar w \<and> distinct (map group_table gs)
     \<and> (\<forall>g \<in> set gs.
          routes_CurrentOwned k (group_table g) proto (group_family g) w = Inr (ig_CurrentRoutes g)
        \<and> (\<forall>r \<in> set (group_desired proto g). kept r)
        \<and> (\<forall>r \<in> set (group_desired proto g). \<forall>s \<in> set (group_desired proto g).
            route_ident (route_fields r) = route_ident (route_fields s) \<longrightarrow> route_fields r = route_fields s)
        \<and> (\<forall>r \<in> set (group_desired proto g). \<forall>x \<in> tbl w.
            route_ident x = route_ident (route_fields r) \<longrightarrow> family_owned (group_table g) proto (group_family g) x))"

lemma group_plan_fields:
  assumes g: "g \<in> set gs" and rec: "reconcilable proto gs w" and ords: "\<And>j. is_range_order (ords j)"
  defines "gp \<equiv> build_group ords proto g"
  defines "C \<equiv> {x \<in> tbl w. family_owned (group_table g) proto (group_family g) x}"
    and "D \<equiv> route_fields ` set (group_desired proto g)"
  shows "route_fields ` set (gp_RoutesToAdd gp) = D - C" "route_fields ` set (gp_RoutesToRemove gp) = C - D"
    "distinct (map (\<lambda>r. route_ident (route_fields r)) (gp_RoutesToAdd gp))"
    "distinct (map route_fields (gp_RoutesToRemove gp))"
    "\<forall>r \<in> set (gp_RoutesToAdd gp) \<union> set (gp_RoutesToRemove gp). kept r"
    "set (gp_RoutesToAdd gp) \<subseteq> set (group_desired proto g)"
proof -
  let ?des = "group_desired proto g" and ?cur = "ig_CurrentRoutes g"
  have inv: "invar w" and cur: "routes_CurrentOwned k (group_table g) proto (group_family g) w = Inr ?cur"
    and des: "\<forall>r \<in> set ?des. kept r" "\<forall>r \<in> set ?des. \<forall>s \<in> set ?des.
        route_ident (route_fields r) = route_ident (route_fields s) \<longrightarrow> route_fields r = route_fields s"
    using rec g unfolding reconcilable_def by blast+
  note C = CurrentOwned_entries [OF inv cur, folded C_def]
  note diff = route_diff.diff_keys [OF ords ords build_group_routes [of ords proto g, folded gp_def, symmetric]]
  have sub: "set (gp_RoutesToAdd gp) \<subseteq> set ?des" "set (gp_RoutesToRemove gp) \<subseteq> set ?cur" using diff(1,2) .
  then show "set (gp_RoutesToAdd gp) \<subseteq> set ?des"
    and kept: "\<forall>r \<in> set (gp_RoutesToAdd gp) \<union> set (gp_RoutesToRemove gp). kept r" using des(1) C(3) by auto
  show "route_fields ` set (gp_RoutesToAdd gp) = D - C" "route_fields ` set (gp_RoutesToRemove gp) = C - D"
    unfolding D_def C(1) [symmetric]
    using fields_diff [OF des(1) C(3) sub(1) diff(3)] fields_diff [OF C(3) des(1) sub(2) diff(4)] .
  have inj: "inj_on route_fields (set (gp_RoutesToRemove gp))"
    "inj_on (\<lambda>r. route_ident (route_fields r)) (set (gp_RoutesToAdd gp))"
  proof -
    have inj: "inj_on routeKey (set (gp_RoutesToRemove gp))" "inj_on routeKey (set (gp_RoutesToAdd gp))"
      using diff(5,6) by (simp_all add: distinct_map)
    show "inj_on route_fields (set (gp_RoutesToRemove gp))"
      using inj_onD [OF inj(1)] kept kept_key by (intro inj_onI) simp
    show "inj_on (\<lambda>r. route_ident (route_fields r)) (set (gp_RoutesToAdd gp))"
    proof (rule inj_onI)
      fix r s assume rs: "r \<in> set (gp_RoutesToAdd gp)" "s \<in> set (gp_RoutesToAdd gp)"
        "route_ident (route_fields r) = route_ident (route_fields s)"
      then have "route_fields r = route_fields s" using des(2) sub(1) by blast
      then show "r = s" using inj_onD [OF inj(2), of r s] kept_key [of r s] kept rs by simp
    qed
  qed
  moreover have "distinct (gp_RoutesToAdd gp)" "distinct (gp_RoutesToRemove gp)"
    using diff(5,6) by (simp_all add: distinct_map)
  ultimately show "distinct (map (\<lambda>r. route_ident (route_fields r)) (gp_RoutesToAdd gp))"
    "distinct (map route_fields (gp_RoutesToRemove gp))" by (simp_all add: distinct_map)
qed

lemma kt_adds_route_ops:
  "kt_adds (route_ops plans) = route_fields ` (\<Union>gp \<in> set plans. set (gp_RoutesToAdd gp))"
  "kt_dels (route_ops plans) = route_fields ` (\<Union>gp \<in> set plans. set (gp_RoutesToRemove gp))"
  by (simp_all add: kt_adds_eq set_route_ops)

lemma Build_fits:
  assumes rec: "reconcilable proto gs w" and ords: "\<And>i j. is_range_order (ords i j)"
  shows "fits (tbl w) (plan_Groups (Build ords proto gs))"
proof -
  let ?gp = "\<lambda>e. build_group (ords (fst e)) proto (snd e)" and ?es = "enumerate 0 gs"
  have "map (\<lambda>e. group_table (snd e)) ?es = map group_table (map snd ?es)" unfolding map_map comp_def ..
  then have tables: "distinct (map (\<lambda>e. group_table (snd e)) ?es)"
    using rec by (simp add: reconcilable_def)
  note plan = group_plan_fields [where ords = "ords (fst e)" and g = "snd e" for e, OF in_enumerate rec ords]
  have add_table: "rt_Table r = group_table (snd e)" if "e \<in> set ?es" "r \<in> set (gp_RoutesToAdd (?gp e))" for e r
    using plan(6) [OF that(1)] that(2) group_desired_table by blast
  have del_table: "rt_Table r = group_table (snd e)" if "e \<in> set ?es" "r \<in> set (gp_RoutesToRemove (?gp e))" for e r
  proof -
    have "family_owned (group_table (snd e)) proto (group_family (snd e)) (route_fields r)"
      using plan(2) [OF that(1)] that(2) by blast
    then show ?thesis using family_owned_table by fastforce
  qed
  have "distinct (map route_fields (concat (map gp_RoutesToRemove (map ?gp ?es))))"
    unfolding map_map comp_def using tables plan(4) del_table by (intro distinct_concat_by [where c = fst]) auto
  moreover have "distinct (map (\<lambda>r. route_ident (route_fields r)) (concat (map gp_RoutesToAdd (map ?gp ?es))))"
    unfolding map_map comp_def using tables plan(3) add_table by (intro distinct_concat_by [where c = fst]) auto
  moreover have "x \<in> route_fields ` set (gp_RoutesToRemove (?gp e))"
    if e: "e \<in> set ?es" and a: "a \<in> set (gp_RoutesToAdd (?gp e))"
      and x: "x \<in> tbl w" "route_ident x = route_ident (route_fields a)" for e a x
  proof -
    let ?g = "snd e"
    have g: "?g \<in> set gs" by (rule in_enumerate [OF e])
    have a': "a \<in> set (group_desired proto ?g)" using plan(6) [OF e] a by blast
    then have own: "family_owned (group_table ?g) proto (group_family ?g) x"
      using rec g x unfolding reconcilable_def by blast
    have "route_fields a \<noteq> x"
      using plan(1) [OF e] a x(1) own by blast
    moreover have "x = route_fields a" if "x \<in> route_fields ` set (group_desired proto ?g)"
      using rec g x(2) a' that unfolding reconcilable_def by blast
    ultimately have "x \<notin> route_fields ` set (group_desired proto ?g)" by auto
    then show ?thesis unfolding plan(2) [OF e] using own x(1) by blast
  qed
  ultimately show ?thesis
    unfolding fits_def Build_groups using plan(2,5) by (simp del: map_map map_concat) blast
qed

lemma Build_sets:
  assumes rec: "reconcilable proto gs w" and ords: "\<And>i j. is_range_order (ords i j)"
  defines "plans \<equiv> plan_Groups (Build ords proto gs)"
  shows "(tbl w - route_fields ` (\<Union>gp \<in> set plans. set (gp_RoutesToRemove gp)))
      \<union> route_fields ` (\<Union>gp \<in> set plans. set (gp_RoutesToAdd gp)) =
    (tbl w - owned_entries proto gs) \<union> desired_entries proto gs"
    "route_fields ` (\<Union>gp \<in> set plans. set (gp_RoutesToRemove gp)) \<subseteq> owned_entries proto gs"
    "route_fields ` (\<Union>gp \<in> set plans. set (gp_RoutesToAdd gp)) \<subseteq> desired_entries proto gs"
proof -
  let ?C = "\<lambda>g. {x \<in> tbl w. family_owned (group_table g) proto (group_family g) x}"
    and ?D = "\<lambda>g. route_fields ` set (group_desired proto g)"
  have adds: "route_fields ` (\<Union>gp \<in> set plans. set (gp_RoutesToAdd gp)) =
      (\<Union>g \<in> set gs. ?D g - ?C g)"
    unfolding plans_def Build_groups set_map image_UN image_image snd_enumerate [of 0 gs, symmetric]
    by (intro SUP_cong refl) (rule group_plan_fields(1) [OF in_enumerate rec ords])
  have dels: "route_fields ` (\<Union>gp \<in> set plans. set (gp_RoutesToRemove gp)) =
      (\<Union>g \<in> set gs. ?C g - ?D g)"
    unfolding plans_def Build_groups set_map image_UN image_image snd_enumerate [of 0 gs, symmetric]
    by (intro SUP_cong refl) (rule group_plan_fields(2) [OF in_enumerate rec ords])
  have apart: "g = h" if "g \<in> set gs" "h \<in> set gs" "x \<in> ?C g \<union> ?D g" "x \<in> ?C h \<union> ?D h" for g h x
  proof -
    have tab: "fst x = group_table g'" if "x \<in> ?C g' \<union> ?D g'" for g'
      using that by (elim UnE CollectE conjE imageE) (simp_all only: family_owned_table group_desired_table fst_route_fields)
    have "group_table g = group_table h" using tab [OF that(3)] tab [OF that(4)] by simp
    moreover have "inj_on group_table (set gs)" using rec by (simp add: reconcilable_def distinct_map)
    ultimately show ?thesis using that(1,2) by (simp add: inj_on_def)
  qed
  show "(tbl w - route_fields ` (\<Union>gp \<in> set plans. set (gp_RoutesToRemove gp)))
      \<union> route_fields ` (\<Union>gp \<in> set plans. set (gp_RoutesToAdd gp)) =
    (tbl w - owned_entries proto gs) \<union> desired_entries proto gs"
    unfolding adds dels owned_entries_def desired_entries_def using apart by blast
  show "route_fields ` (\<Union>gp \<in> set plans. set (gp_RoutesToRemove gp)) \<subseteq> owned_entries proto gs"
    "route_fields ` (\<Union>gp \<in> set plans. set (gp_RoutesToAdd gp)) \<subseteq> desired_entries proto gs"
    unfolding adds dels owned_entries_def desired_entries_def by blast+
qed

text \<open>
  The plan carried out: the tables hold what they held before, less the entries the groups own,
  plus the desired ones.
\<close>

lemma routes_Apply_effect:
  assumes rec: "reconcilable proto gs w" and ords: "\<And>i j. is_range_order (ords i j)"
    and run: "routes_Apply k (plan_Groups (Build ords proto gs)) w = (None, w')"
  shows "invar w'" "tbl w' = (tbl w - owned_entries proto gs) \<union> desired_entries proto gs"
proof -
  have inv: "invar w" using rec by (simp add: reconcilable_def)
  note ops = route_ops_effect [OF Build_fits [OF rec ords]]
  note run' = run_complete [OF inv ops(1) run [unfolded routes_Apply_ops]]
  show "invar w'" by (rule run'(1))
  show "tbl w' = (tbl w - owned_entries proto gs) \<union> desired_entries proto gs"
    unfolding run'(2) ops(2) by (rule Build_sets(1) [OF rec ords])
qed

lemma routes_Apply_frame:
  assumes rec: "reconcilable proto gs w" and ords: "\<And>i j. is_range_order (ords i j)"
    and run: "routes_Apply k (plan_Groups (Build ords proto gs)) w = (e, w')"
  shows "tbl w - owned_entries proto gs \<subseteq> tbl w'" "tbl w' \<subseteq> tbl w \<union> desired_entries proto gs"
proof -
  have inv: "invar w" using rec by (simp add: reconcilable_def)
  let ?ops = "route_ops (plan_Groups (Build ords proto gs))"
  note ops = route_ops_effect [OF Build_fits [OF rec ords]]
  have "kt_dels ?ops \<subseteq> owned_entries proto gs" "kt_adds ?ops \<subseteq> desired_entries proto gs"
    using Build_sets(2,3) [OF rec ords] by (simp_all add: kt_adds_route_ops)
  then show "tbl w - owned_entries proto gs \<subseteq> tbl w'" "tbl w' \<subseteq> tbl w \<union> desired_entries proto gs"
    using run_frame [OF inv ops(1) run [unfolded routes_Apply_ops]] by blast+
qed

end

section \<open>Reconciling again changes nothing\<close>

definition family_known :: "string \<Rightarrow> bool" where
  "family_known family \<longleftrightarrow> family \<in> {'''', ''dual'', ''ipv4'', ''ipv6''}"

definition family_fits :: "string \<Rightarrow> Prefix \<Rightarrow> bool" where
  "family_fits family p \<longleftrightarrow> wants4 family \<and> Is4 (Prefix_Addr p) \<or> wants6 family \<and> Is6 (Prefix_Addr p)"

lemma FilterFamily_fits:
  assumes "family_known family" "p \<in> set (FilterFamily ps family)" "Prefix_Addr p \<noteq> AddrZero"
  shows "family_fits family p"
  using assms Is4_Is6(2) [of "Prefix_Addr p"] pff.filt_dual [of family ps] pff.filt_4 [of ps] pff.filt_6 [of ps]
  by (auto simp: family_known_def family_fits_def wants4_def wants6_def)

lemma defaultPrefixes_fits: "family_known family \<Longrightarrow> p \<in> set (defaultPrefixes family) \<Longrightarrow> family_fits family p"
  by (auto simp: family_known_def family_fits_def wants4_def wants6_def defaultPrefixes_eq default4_def default6_def
      split: if_splits)

lemma plan_prefixes_family:
  "set (plan_prefixes g) \<subseteq> set (FilterFamily (ig_Prefixes g) (group_family g))"
  by (auto simp: plan_prefixes_def Let_def removePrefixesCoveringAddrs_eq group_family_def FilterFamily_def split: if_splits)

lemma group_desired_owned:
  assumes "family_known (group_family g)" "r \<in> set (group_desired proto g)" "pfx_ok (rt_Dst r)"
  shows "family_owned (group_table g) proto (group_family g) (route_fields r)"
proof -
  have dst: "Prefix_Addr (rt_Dst r) \<noteq> AddrZero"
    using assms(3) by (auto simp: pfx_ok_def Prefix_IsValid_def pfx_wf_def)
  have "family_fits (group_family g) (rt_Dst r)"
    using assms(2) unfolding group_desired_def
  proof (cases rule: desiredRoutes_cases)
    case (target p)
    then show ?thesis
      using FilterFamily_fits [OF assms(1) _ dst] plan_prefixes_family [of g] target_routes_simps(3) by blast
  next
    case (throw p)
    then show ?thesis using FilterFamily_fits [OF assms(1) _ dst] by (simp add: group_family_def)
  next
    case (default d p)
    then show ?thesis
      using defaultPrefixes_fits [OF assms(1)] default_routes_simps(3) by (simp add: group_family_def)
  qed
  moreover have "rt_Table r = group_table g" "rt_Protocol r = proto"
    using assms(2) desiredRoutes_owned by (simp_all add: group_desired_def group_table_def)
  ultimately show ?thesis by (auto simp: family_owned_def family_fits_def)
qed

context route_table
begin

lemma desired_after_apply:
  assumes rec: "reconcilable proto gs w" and ords: "\<And>i j. is_range_order (ords i j)"
    and run: "routes_Apply k (plan_Groups (Build ords proto gs)) w = (None, w')"
    and g: "g \<in> set gs" and fam: "family_known (group_family g)"
    and list: "routes_CurrentOwned k (group_table g) proto (group_family g) w' = Inr rs"
  shows "route_fields ` set rs = route_fields ` set (group_desired proto g)" "\<forall>r \<in> set rs. kept r"
proof -
  note eff = routes_Apply_effect [OF rec ords run]
  note rs = CurrentOwned_entries [OF eff(1) list]
  show "\<forall>r \<in> set rs. kept r" by (rule rs(3))
  let ?own = "family_owned (group_table g) proto (group_family g)" and ?D = "route_fields ` set (group_desired proto g)"
  have kept: "\<forall>r \<in> set (group_desired proto h). kept r" if "h \<in> set gs" for h
    using rec that unfolding reconcilable_def by blast
  have "?own x \<longleftrightarrow> x \<in> ?D" if x: "x \<in> desired_entries proto gs" for x
  proof -
    obtain h r where h: "h \<in> set gs" "r \<in> set (group_desired proto h)" "x = route_fields r"
      using x unfolding desired_entries_def by blast
    have tab: "h = g" if tx: "fst x = group_table g"
    proof -
      have "inj_on group_table (set gs)" using rec by (simp add: reconcilable_def distinct_map)
      moreover have "group_table h = group_table g" using tx h(3) group_desired_table [OF h(2)] by simp
      ultimately show ?thesis using inj_onD h(1) g by metis
    qed
    show ?thesis
    proof
      assume "?own x"
      then have "h = g" using tab family_owned_table by blast
      then show "x \<in> ?D" using h by blast
    next
      assume "x \<in> ?D"
      then obtain s where s: "s \<in> set (group_desired proto g)" "x = route_fields s" by blast
      then show "?own x" using group_desired_owned [OF fam s(1)] kept [OF g] kept_dst by blast
    qed
  qed
  moreover have "?D \<subseteq> desired_entries proto gs" using g by (auto simp: desired_entries_def)
  moreover have "?own x \<Longrightarrow> x \<in> owned_entries proto gs" for x using g by (auto simp: owned_entries_def)
  ultimately show "route_fields ` set rs = ?D" unfolding rs(1) eff(2) by blast
qed

lemma diff_empty_after_apply:
  assumes "reconcilable proto gs w" "\<And>i j. is_range_order (ords i j)"
    and "routes_Apply k (plan_Groups (Build ords proto gs)) w = (None, w')"
    and "g \<in> set gs" "family_known (group_family g)"
    and "routes_CurrentOwned k (group_table g) proto (group_family g) w' = Inr rs"
    and "is_range_order od" "is_range_order oc"
  shows "diffRoutes od oc (group_desired proto g) rs = ([], [])"
proof -
  note after = desired_after_apply [OF assms(1-6)]
  have kept: "\<forall>r \<in> set (group_desired proto g). kept r"
    using assms(1,4) unfolding reconcilable_def by blast
  have sub: "routeKey ` A \<subseteq> routeKey ` B"
    if AB: "route_fields ` A \<subseteq> route_fields ` B" "\<forall>r \<in> A. kept r" "\<forall>r \<in> B. kept r" for A B
  proof
    fix y assume "y \<in> routeKey ` A"
    then obtain r where r: "r \<in> A" "y = routeKey r" by blast
    then have "route_fields r \<in> route_fields ` B" using AB(1) by blast
    then obtain s where "s \<in> B" "route_fields r = route_fields s" by blast
    then show "y \<in> routeKey ` B" using r AB(2,3) kept_key [of r s] by auto
  qed
  have "routeKey ` set (group_desired proto g) = routeKey ` set rs"
    using sub [of "set rs"] sub [of _ "set rs"] after kept by (intro equalityI) simp_all
  then show ?thesis
    using route_diff.diff_empty_iff [OF assms(7,8), of "group_desired proto g" rs]
    by (cases "diffRoutes od oc (group_desired proto g) rs") simp
qed

end

end
