(* ===== verification/Reconcile_Rules.thy ===== *)
theory Reconcile_Rules
  imports Reconcile
begin

text \<open>
  What \<open>rules.Apply\<close> achieves on a kernel whose rule tables keep the laws of \<open>kernel_table\<close>
  (\<open>rule_table\<close>). A group owns the rules of its table and priority inside the configured range.
\<close>

section \<open>The rule tables\<close>

type_synonym rule_entry = "int \<times> int \<times> bool \<times> 32 word \<times> 32 word \<times> Prefix"

definition group_rule_owned :: "int \<Rightarrow> int \<Rightarrow> (int \<Rightarrow> rule_entry \<Rightarrow> bool) \<Rightarrow> InputGroup \<Rightarrow> rule_entry \<Rightarrow> bool" where
  "group_rule_owned base step rfam g x \<longleftrightarrow>
     fst (snd x) = group_table g \<and> fst x = rc_Priority (g_Rule (ig_Config g))
     \<and> base \<le> fst x \<and> fst x < int64 (base + int64 (step * 1000))
     \<and> (wants4 (group_family g) \<and> rfam 4 x \<or> wants6 (group_family g) \<and> rfam 6 x)"

lemma rule_fields_simps [simp]:
  "fst (rule_fields r) = ru_Priority r" "fst (snd (rule_fields r)) = ru_Table r"
  by (simp_all add: rule_fields_def)

lemma build_group_rules:
  "(gp_RulesToAdd (build_group ords proto g), gp_RulesToRemove (build_group ords proto g)) =
     diffRules (ords 2) (ords 3) (desiredRules g) (ig_CurrentRules g)"
  by (simp add: build_group_def Let_def split: prod.splits)

locale rule_table =
  kernel_table "AddRule k" "DeleteRule k" rtbl rule_fields "\<lambda>x. x" rkept invar
  for k :: "'w Kernel" and rtbl :: "'w \<Rightarrow> rule_entry set" and rkept :: "Rule \<Rightarrow> bool" and invar :: "'w \<Rightarrow> bool" +
  fixes rfam :: "int \<Rightarrow> rule_entry \<Rightarrow> bool"
  assumes list_rules: "invar w \<Longrightarrow> f = 4 \<or> f = 6 \<Longrightarrow> ListRules k f w = Inr rs \<Longrightarrow>
      rule_fields ` set rs = {x \<in> rtbl w. rfam f x} \<and> distinct (map rule_fields rs) \<and> (\<forall>r \<in> set rs. rkept r)"
    and rfam_disjoint: "\<not> (rfam 4 x \<and> rfam 6 x)"
    and rkept_from: "rkept r \<Longrightarrow> pfx_wf (ru_From r) \<and> (ru_From r = PrefixZero \<or> Prefix_IsValid (ru_From r))"
begin

lemma rules_entries:
  assumes "invar w"
    and "rules_CurrentOwned k (group_table g) (rc_Priority (g_Rule (ig_Config g))) base step (group_family g) w = Inr rs"
  shows "rule_fields ` set rs = {x \<in> rtbl w. group_rule_owned base step rfam g x}" "distinct (map rule_fields rs)"
    "\<forall>r \<in> set rs. rkept r"
proof -
  let ?fam = "group_family g"
  let ?P = "\<lambda>r. ru_Table r = group_table g \<and> ru_Priority r = rc_Priority (g_Rule (ig_Config g))
    \<and> base \<le> ru_Priority r \<and> ru_Priority r < int64 (base + int64 (step * 1000))"
  have "\<exists>a b. (if wants4 ?fam then ListRules k 4 w else Inr []) = Inr a
      \<and> (if wants6 ?fam then ListRules k 6 w else Inr []) = Inr b \<and> rs = filter ?P a @ filter ?P b"
    using assms(2) unfolding rules_CurrentOwned_def list_families_def Let_def
    by (auto simp: bind_result_Inr split: if_splits)
  then obtain a b where ab: "(if wants4 ?fam then ListRules k 4 w else Inr []) = Inr a"
    "(if wants6 ?fam then ListRules k 6 w else Inr []) = Inr b" "rs = filter ?P a @ filter ?P b" by blast
  have a: "rule_fields ` set a = {x \<in> rtbl w. wants4 ?fam \<and> rfam 4 x}
      \<and> distinct (map rule_fields a) \<and> (\<forall>r \<in> set a. rkept r)"
    using ab(1) list_rules [OF assms(1), of 4 a] by (cases "wants4 ?fam") auto
  have b: "rule_fields ` set b = {x \<in> rtbl w. wants6 ?fam \<and> rfam 6 x}
      \<and> distinct (map rule_fields b) \<and> (\<forall>r \<in> set b. rkept r)"
    using ab(2) list_rules [OF assms(1), of 6 b] by (cases "wants6 ?fam") auto
  show "\<forall>r \<in> set rs. rkept r" using a b ab(3) by auto
  have "rule_fields ` set a \<inter> rule_fields ` set b = {}" using a b rfam_disjoint by blast
  then have "distinct (map rule_fields (a @ b))" using a b by simp
  then have "distinct (map rule_fields (filter ?P (a @ b)))" by (rule distinct_map_filter)
  then show "distinct (map rule_fields rs)" by (simp add: ab(3))
  let ?Q = "\<lambda>x. fst (snd x) = group_table g \<and> fst x = rc_Priority (g_Rule (ig_Config g))
    \<and> base \<le> fst x \<and> fst x < int64 (base + int64 (step * 1000))"
  have filt: "rule_fields ` {r \<in> set xs. ?P r} = {x \<in> rule_fields ` set xs. ?Q x}" for xs by auto
  have "rule_fields ` set rs = {x \<in> rule_fields ` set a. ?Q x} \<union> {x \<in> rule_fields ` set b. ?Q x}"
    unfolding ab(3) set_append image_Un set_filter filt ..
  also have "\<dots> = {x \<in> rtbl w. group_rule_owned base step rfam g x}"
    unfolding a [THEN conjunct1] b [THEN conjunct1] group_rule_owned_def by blast
  finally show "rule_fields ` set rs = {x \<in> rtbl w. group_rule_owned base step rfam g x}" .
qed

lemma rkept_key: "rkept r \<Longrightarrow> rkept s \<Longrightarrow> ruleKey r = ruleKey s \<longleftrightarrow> rule_fields r = rule_fields s"
  using rkept_from [of r] rkept_from [of s] by (intro ruleKey_iff) blast+

end

definition owned_rules :: "int \<Rightarrow> int \<Rightarrow> (int \<Rightarrow> rule_entry \<Rightarrow> bool) \<Rightarrow> InputGroup list \<Rightarrow> rule_entry set" where
  "owned_rules base step rfam gs = {x. \<exists>g \<in> set gs. group_rule_owned base step rfam g x}"

definition wanted_rules :: "InputGroup list \<Rightarrow> rule_entry set" where
  "wanted_rules gs = (\<Union>g \<in> set gs. rule_fields ` set (desiredRules g))"

context rule_table
begin

definition rules_reconcilable :: "int \<Rightarrow> int \<Rightarrow> InputGroup list \<Rightarrow> 'w \<Rightarrow> bool" where
  "rules_reconcilable base step gs w \<longleftrightarrow> invar w \<and> distinct (map group_table gs)
     \<and> (\<forall>g \<in> set gs.
          rules_CurrentOwned k (group_table g) (rc_Priority (g_Rule (ig_Config g))) base step (group_family g) w
            = Inr (ig_CurrentRules g)
        \<and> (\<forall>r \<in> set (desiredRules g). rkept r \<and> ru_Table r = group_table g
            \<and> (rule_fields r \<in> rtbl w \<longrightarrow> group_rule_owned base step rfam g (rule_fields r))))"

lemma group_rules_fields:
  fixes proto :: int
  assumes g: "g \<in> set gs" and rec: "rules_reconcilable base step gs w" and ords: "\<And>j. is_range_order (ords j)"
  defines "gp \<equiv> build_group ords proto g"
  defines "C \<equiv> {x \<in> rtbl w. group_rule_owned base step rfam g x}" and "D \<equiv> rule_fields ` set (desiredRules g)"
  shows "rule_fields ` set (gp_RulesToAdd gp) = D - C" "rule_fields ` set (gp_RulesToRemove gp) = C - D"
    "distinct (map rule_fields (gp_RulesToAdd gp))" "distinct (map rule_fields (gp_RulesToRemove gp))"
    "\<forall>r \<in> set (gp_RulesToAdd gp) \<union> set (gp_RulesToRemove gp). rkept r"
    "set (gp_RulesToAdd gp) \<subseteq> set (desiredRules g)"
proof -
  let ?des = "desiredRules g" and ?cur = "ig_CurrentRules g"
  have inv: "invar w" and des: "\<forall>r \<in> set ?des. rkept r"
    and cur: "rules_CurrentOwned k (group_table g) (rc_Priority (g_Rule (ig_Config g))) base step (group_family g) w = Inr ?cur"
    using rec g unfolding rules_reconcilable_def by blast+
  note C = rules_entries [OF inv cur, folded C_def]
  note diff = rule_diff.diff_keys [OF ords ords build_group_rules [of ords proto g, folded gp_def, symmetric]]
  show "set (gp_RulesToAdd gp) \<subseteq> set ?des" by (rule diff(1))
  show kept: "\<forall>r \<in> set (gp_RulesToAdd gp) \<union> set (gp_RulesToRemove gp). rkept r"
    using diff(1,2) des C(3) by blast
  have key: "ruleKey r = ruleKey s \<longleftrightarrow> rule_fields r = rule_fields s"
    if "r \<in> set ?des \<union> set ?cur" "s \<in> set ?des \<union> set ?cur" for r s
    using that des C(3) rkept_key [of r s] by blast
  show "rule_fields ` set (gp_RulesToAdd gp) = D - C" "rule_fields ` set (gp_RulesToRemove gp) = C - D"
    unfolding D_def C(1) [symmetric]
    using image_diff_by [OF key diff(1,3)] image_diff_by [OF key diff(2,4)] by (simp_all add: Un_commute)
  have "distinct (map rule_fields xs)" if "distinct (map ruleKey xs)" "\<forall>r \<in> set xs. rkept r" for xs
    using that rkept_key by (simp add: distinct_map inj_on_def)
  then show "distinct (map rule_fields (gp_RulesToAdd gp))" "distinct (map rule_fields (gp_RulesToRemove gp))"
    using diff(5,6) kept by blast+
qed

lemma rules_Apply_effect:
  assumes rec: "rules_reconcilable base step gs w" and ords: "\<And>i j. is_range_order (ords i j)"
    and run: "rules_Apply k (plan_Groups (Build ords proto gs)) w = (None, w')"
  shows "invar w'" "rtbl w' = (rtbl w - owned_rules base step rfam gs) \<union> wanted_rules gs"
proof -
  let ?gp = "\<lambda>e. build_group (ords (fst e)) proto (snd e)" and ?es = "enumerate 0 gs"
  let ?ops = "rule_ops (plan_Groups (Build ords proto gs))"
  let ?C = "\<lambda>g. {x \<in> rtbl w. group_rule_owned base step rfam g x}" and ?D = "\<lambda>g. rule_fields ` set (desiredRules g)"
  have inv: "invar w" and inj: "inj_on group_table (set gs)"
    using rec by (simp_all add: rules_reconcilable_def distinct_map)
  have "map (\<lambda>e. group_table (snd e)) ?es = map group_table (map snd ?es)" unfolding map_map comp_def ..
  then have tables: "distinct (map (\<lambda>e. group_table (snd e)) ?es)" using rec by (simp add: rules_reconcilable_def)
  note plan = group_rules_fields [where ords = "ords (fst e)" and g = "snd e" and proto = proto for e, OF in_enumerate rec ords]
  have des: "ru_Table r = group_table g" "rule_fields r \<in> rtbl w \<Longrightarrow> group_rule_owned base step rfam g (rule_fields r)"
    if "g \<in> set gs" "r \<in> set (desiredRules g)" for g r
    using rec that unfolding rules_reconcilable_def by blast+
  have ops: "op_adds ?ops = concat (map (\<lambda>e. gp_RulesToAdd (?gp e)) ?es)"
    "op_dels ?ops = concat (map (\<lambda>e. gp_RulesToRemove (?gp e)) ?es)"
    by (simp_all add: rule_ops_def op_concat Build_groups comp_def)
  have tab: "ru_Table r = group_table (snd e)"
    if e: "e \<in> set ?es" and r: "r \<in> set (gp_RulesToAdd (?gp e)) \<union> set (gp_RulesToRemove (?gp e))" for e r
  proof (cases "r \<in> set (gp_RulesToAdd (?gp e))")
    case True
    then show ?thesis using plan(6) [OF e] des(1) [OF in_enumerate [OF e]] by blast
  next
    case False
    then have "rule_fields r \<in> ?C (snd e)" using r plan(2) [OF e] by blast
    then show ?thesis by (simp add: group_rule_owned_def)
  qed
  have adds: "rule_fields ` set (op_adds ?ops) = (\<Union>g \<in> set gs. ?D g - ?C g)"
    unfolding ops set_concat set_map image_UN image_image snd_enumerate [of 0 gs, symmetric]
    by (intro SUP_cong refl) (rule plan(1))
  have dels: "rule_fields ` set (op_dels ?ops) = (\<Union>g \<in> set gs. ?C g - ?D g)"
    unfolding ops set_concat set_map image_UN image_image snd_enumerate [of 0 gs, symmetric]
    by (intro SUP_cong refl) (rule plan(2))
  have free: "rule_fields r \<notin> rtbl w" if r: "r \<in> set (op_adds ?ops)" for r
  proof -
    obtain e where e: "e \<in> set ?es" "r \<in> set (gp_RulesToAdd (?gp e))" using r unfolding ops by auto
    then have "rule_fields r \<in> ?D (snd e) - ?C (snd e)" using plan(1) [OF e(1)] by blast
    moreover have "r \<in> set (desiredRules (snd e))" using plan(6) [OF e(1)] e(2) by blast
    ultimately show ?thesis using des(2) [OF in_enumerate [OF e(1)]] by blast
  qed
  have "kt_cleared F D ops" if "\<forall>r \<in> set (op_adds ops). rule_fields r \<notin> F" for F D ops
    using that by (induction F D ops rule: kt_cleared.induct) auto
  then have "kt_cleared (rtbl w) {} ?ops" using free by blast
  moreover have "distinct (map rule_fields (op_dels ?ops))" "distinct (map rule_fields (op_adds ?ops))"
    unfolding ops using tables plan(3,4) tab by (intro distinct_concat_by [where c = "\<lambda>x. fst (snd x)"]; simp)+
  moreover have "\<forall>r \<in> set (op_adds ?ops) \<union> set (op_dels ?ops). rkept r" unfolding ops using plan(5) by auto
  moreover have "rule_fields ` set (op_dels ?ops) \<subseteq> rtbl w" unfolding dels by blast
  ultimately have eff: "kt_safe (rtbl w) ?ops" "foldl kt_step (rtbl w) ?ops =
      (rtbl w - rule_fields ` set (op_dels ?ops)) \<union> rule_fields ` set (op_adds ?ops)"
    using run_effect [of ?ops "rtbl w"] by simp_all
  note run' = run_complete [OF inv eff(1) run [unfolded rules_Apply_ops]]
  show "invar w'" by (rule run'(1))
  have apart: "g = h" if gh: "g \<in> set gs" "h \<in> set gs" and x: "x \<in> ?C g \<union> ?D g" "x \<in> ?C h \<union> ?D h" for g h x
  proof -
    have tab': "fst (snd x) = group_table g'" if "g' \<in> set gs" "x \<in> ?C g' \<union> ?D g'" for g'
      using that des(1) by (elim UnE CollectE conjE imageE) (simp_all add: group_rule_owned_def)
    have "group_table g = group_table h" using tab' [OF gh(1) x(1)] tab' [OF gh(2) x(2)] by simp
    then show ?thesis using inj_onD [OF inj] gh by blast
  qed
  show "rtbl w' = (rtbl w - owned_rules base step rfam gs) \<union> wanted_rules gs"
    unfolding run'(2) eff(2) adds dels owned_rules_def wanted_rules_def using apart by blast
qed

end

end
