(* ===== verification/Netlink_Table.thy ===== *)
theory Netlink_Table
  imports Reconcile_Routes Reconcile_Rules
begin

text \<open>
  What the program relies on of the netlink package and of the kernel behind it, as contracts over
  the messages it sends (\<open>netlink_objects\<close>, extended to \<open>netlink_fib\<close> for routes and \<open>netlink_rules\<close>
  for policy rules); that \<open>NetlinkKernel\<close> over such a package is a route table and a rule table as
  the reconcilers need them; and a small model of the Linux tables that fulfils the contracts.
\<close>

unbundle bit_operations_syntax

section \<open>Routes the kernel stores as they are\<close>

text \<open>
  The messages for which the kernel keeps every field the program reads back: a masked destination
  outside the IPv4-mapped block, a gateway without zone, no device or gateway on a throw route. An
  IPv6 route needs a metric, since the kernel replaces metric 0 there, and throw routes are IPv4,
  since the kernel attaches the loopback device to the IPv6 ones.
\<close>

definition route_plain :: "Route \<Rightarrow> bool" where
  "route_plain r \<longleftrightarrow> pfx_ok (rt_Dst r) \<and> \<not> Is4In6 (Prefix_Addr (rt_Dst r))
     \<and> Zone (rt_Via r) = [] \<and> \<not> Is4In6 (rt_Via r)
     \<and> (rt_Type r = RouteTypeUnicast
        \<or> rt_Type r = RouteTypeThrow \<and> rt_Via r = AddrZero \<and> rt_LinkIndex r = 0 \<and> \<not> rt_OnLink r)
     \<and> (Is6 (Prefix_Addr (rt_Dst r)) \<longrightarrow> rt_Metric r \<noteq> 0 \<and> rt_Type r = RouteTypeUnicast)"

definition nl_plain :: "NlRoute \<Rightarrow> bool" where
  "nl_plain m \<longleftrightarrow> (\<exists>r. route_plain r \<and> m = nl_route_msg r)"

text \<open>What the program reads of a listed route: of the flags only on-link, of the types only throw.\<close>

definition nl_norm :: "NlRoute \<Rightarrow> NlRoute" where
  "nl_norm m = m\<lparr>nl_Flags := nl_Flags m AND FLAG_ONLINK,
     nl_Type := (if nl_Type m = RTN_THROW then RTN_THROW else 0)\<rparr>"

definition nl_ident :: "NlRoute \<Rightarrow> int \<times> IPNet option \<times> int" where
  "nl_ident m = (nl_Table m, nl_Dst m, nl_Priority m)"

definition nl_dst_family :: "NlRoute \<Rightarrow> nl_family" where
  "nl_dst_family m = (if length (ipn_IP (the (nl_Dst m))) = 16 then FAMILY_V6 else FAMILY_V4)"

definition strip :: "Route \<Rightarrow> Route" where
  "strip r = r\<lparr>rt_Group := '''', rt_Dev := ''''\<rparr>"

lemma strip_simps [simp]: "route_fields (strip r) = route_fields r" "route_plain (strip r) = route_plain r"
  by (simp_all add: strip_def route_fields_def route_plain_def)

lemma route_of_nl_norm: "route_of_nl (nl_norm x) = route_of_nl x"
  by (simp add: route_of_nl_def nl_norm_def and.assoc Let_def RTN_THROW_def split: option.split)

lemma route_plain_Unmap: "Zone a = [] \<Longrightarrow> \<not> Is4In6 a \<Longrightarrow> Unmap a = a \<and> withoutZone a = a"
  by (cases a) auto

lemma length_AsSlice: "length (AsSlice (Addr4 w)) = 4" "length (AsSlice (Addr6 v z)) = 16"
  by (simp_all del: be_digits.simps)

lemma route_of_nl_msg:
  assumes "route_plain r"
  shows "route_of_nl (nl_route_msg r) = Some (strip r)"
proof -
  let ?p = "rt_Dst r"
  have p: "pfx_wf ?p" "Prefix_IsValid ?p" "Masked ?p = ?p" "\<not> Is4In6 (Prefix_Addr ?p)"
    using assms by (simp_all add: route_plain_def pfx_ok_def)
  then have dst: "ipNetToPrefix (prefixToIPNet ?p) = Some ?p"
    using ipNetToPrefix_prefixToIPNet [of ?p] by simp
  have via: "Addr_IsValid (rt_Via r) \<Longrightarrow> AddrFromSlice (AsSlice (rt_Via r)) = Some (rt_Via r)"
    "Unmap (rt_Via r) = rt_Via r"
    using assms AddrFromSlice_AsSlice [of "rt_Via r"] route_plain_Unmap [of "rt_Via r"]
    by (auto simp: route_plain_def Addr_IsValid_def)
  show ?thesis
  proof (cases "rt_Type r = RouteTypeThrow")
    case True
    then have "rt_Via r = AddrZero" "rt_LinkIndex r = 0" "\<not> rt_OnLink r"
      using assms by (auto simp: route_plain_def RouteTypeUnicast_def RouteTypeThrow_def)
    then show ?thesis using True dst
      by (simp add: route_of_nl_def nl_route_msg_def Let_def strip_def zero_Route_def FLAG_ONLINK_def)
  next
    case False
    then have "rt_Type r = 0" using assms by (auto simp: route_plain_def RouteTypeUnicast_def)
    then show ?thesis using False dst via
      by (auto simp: route_of_nl_def nl_route_msg_def Let_def strip_def zero_Route_def FLAG_ONLINK_def
          RTN_THROW_def Addr_IsValid_def)
  qed
qed

lemma nl_route_msg_fields: "route_fields r = route_fields s \<Longrightarrow> nl_route_msg r = nl_route_msg s"
  by (simp add: route_fields_def nl_route_msg_def Let_def)

lemma nl_route_msg_inj:
  assumes "route_plain r" "route_plain s"
  shows "nl_route_msg r = nl_route_msg s \<longleftrightarrow> route_fields r = route_fields s"
  using route_of_nl_msg [OF assms(1)] route_of_nl_msg [OF assms(2)] nl_route_msg_fields [of r s] strip_simps(1)
  by (metis option.inject)

lemma nl_route_msg_simps [simp]:
  "nl_Table (nl_route_msg r) = rt_Table r" "nl_Protocol (nl_route_msg r) = rt_Protocol r"
  "nl_Dst (nl_route_msg r) = Some (prefixToIPNet (rt_Dst r))" "nl_Priority (nl_route_msg r) = rt_Metric r"
  by (simp_all add: nl_route_msg_def Let_def)

lemma nl_norm_msg [simp]: "nl_norm (nl_route_msg r) = nl_route_msg r"
  by (simp add: nl_norm_def nl_route_msg_def Let_def FLAG_ONLINK_def RTN_THROW_def)

lemma nl_family_msg:
  assumes "route_plain r" "f = 4 \<or> f = 6"
  shows "nl_dst_family (nl_route_msg r) = family_of f \<longleftrightarrow>
    (if f = 6 then Is6 (Prefix_Addr (rt_Dst r)) else Is4 (Prefix_Addr (rt_Dst r)))"
proof -
  have "Masked (rt_Dst r) = rt_Dst r" "Prefix_Addr (rt_Dst r) \<noteq> AddrZero"
    using assms by (auto simp: route_plain_def pfx_ok_def Prefix_IsValid_def pfx_wf_def)
  then show ?thesis using assms(2)
    by (cases "Prefix_Addr (rt_Dst r)") (auto simp: nl_dst_family_def family_of_def prefixToIPNet_def Let_def length_AsSlice)
qed

lemma nl_ident_msg:
  assumes "route_plain r" "route_plain s"
  shows "nl_ident (nl_route_msg r) = nl_ident (nl_route_msg s) \<longleftrightarrow>
    route_ident (route_fields r) = route_ident (route_fields s)"
proof -
  have "ipNetToPrefix (prefixToIPNet (rt_Dst r)) = Some (rt_Dst r)" if "route_plain r" for r
    using that ipNetToPrefix_prefixToIPNet [of "rt_Dst r"] by (simp add: route_plain_def pfx_ok_def)
  then have "prefixToIPNet (rt_Dst r) = prefixToIPNet (rt_Dst s) \<longleftrightarrow> rt_Dst r = rt_Dst s"
    using assms by (metis option.inject)
  then show ?thesis by (auto simp: nl_ident_def)
qed

section \<open>What the netlink package promises\<close>

text \<open>
  The objects of one kind the kernel holds, as messages: an addition creates the object and fails
  with \<open>EEXIST\<close> when one of the same identity is there (the package sends
  \<open>NLM_F_CREATE | NLM_F_EXCL\<close>), a deletion removes the object a message describes and fails with
  \<open>ESRCH\<close> or \<open>ENOENT\<close> when there is none, a failed call changes nothing. Two simplifications: every object
  the kernel holds is of a kind the program's messages can describe (\<open>store_plain\<close>), and a deletion
  matches exactly, where Linux takes a rule selector that the message leaves out as a wildcard. The
  contract thus describes hosts on which no other rule of the same table and priority has a selector
  that a deleted rule lacks.
\<close>

locale netlink_objects =
  fixes radd rdel :: "'m \<Rightarrow> 'w \<Rightarrow> kernel_error option \<times> 'w"
    and store :: "'w \<Rightarrow> 'm set"
    and msg :: "'r \<Rightarrow> 'm"
    and content :: "'r \<Rightarrow> 'x"
    and mident :: "'m \<Rightarrow> 'j"
    and cident :: "'x \<Rightarrow> 'i"
    and plain :: "'r \<Rightarrow> bool"
    and invar :: "'w \<Rightarrow> bool"
  assumes msg_content: "plain r \<Longrightarrow> plain s \<Longrightarrow> msg r = msg s \<longleftrightarrow> content r = content s"
    and msg_ident: "plain r \<Longrightarrow> plain s \<Longrightarrow> mident (msg r) = mident (msg s) \<longleftrightarrow> cident (content r) = cident (content s)"
    and store_plain: "invar w \<Longrightarrow> m \<in> store w \<Longrightarrow> \<exists>r. plain r \<and> m = msg r"
    and radd_ok: "invar w \<Longrightarrow> plain r \<Longrightarrow> radd (msg r) w = (err, w') \<Longrightarrow>
      invar w' \<and> store w' = (if err = None then insert (msg r) (store w) else store w)"
    and radd_exists: "invar w \<Longrightarrow> plain r \<Longrightarrow> radd (msg r) w = (Some EEXIST, w') \<Longrightarrow>
      mident (msg r) \<in> mident ` store w"
    and rdel_ok: "invar w \<Longrightarrow> plain r \<Longrightarrow> rdel (msg r) w = (err, w') \<Longrightarrow> msg r \<in> store w \<or> err \<noteq> None \<Longrightarrow>
      invar w' \<and> store w' = (if err = None then store w - {msg r} else store w)"
    and rdel_missing: "invar w \<Longrightarrow> plain r \<Longrightarrow> rdel (msg r) w = (Some e, w') \<Longrightarrow>
      e = ESRCH \<or> e = ENOENT \<Longrightarrow> msg r \<notin> store w"
begin

definition entries :: "'m set \<Rightarrow> 'x set" where
  "entries M = {content r |r. plain r \<and> msg r \<in> M}"

lemma entriesE:
  assumes "x \<in> entries M"
  obtains r where "plain r" "x = content r" "msg r \<in> M"
  using assms unfolding entries_def by blast

lemma entries_iff:
  assumes "plain r"
  shows "content r \<in> entries M \<longleftrightarrow> msg r \<in> M"
proof
  assume "content r \<in> entries M"
  then obtain s where "plain s" "content r = content s" "msg s \<in> M" by (rule entriesE)
  then show "msg r \<in> M" using msg_content [OF assms, of s] by simp
qed (use assms in \<open>unfold entries_def, blast\<close>)

lemma entries_insert:
  assumes "plain r"
  shows "entries (insert (msg r) M) = insert (content r) (entries M)"
proof (intro equalityI subsetI)
  fix x assume "x \<in> entries (insert (msg r) M)"
  then obtain s where s: "plain s" "x = content s" "msg s \<in> insert (msg r) M" by (rule entriesE)
  then show "x \<in> insert (content r) (entries M)"
    using msg_content [OF s(1) assms] entries_iff [OF s(1), of M] by auto
next
  fix x assume "x \<in> insert (content r) (entries M)"
  then consider "x = content r" | "x \<in> entries M" by blast
  then show "x \<in> entries (insert (msg r) M)"
    using entries_iff [OF assms, of "insert (msg r) M"] by cases (simp, auto simp: entries_def)
qed

lemma entries_remove:
  assumes "plain r"
  shows "entries (M - {msg r}) = entries M - {content r}"
proof (intro equalityI subsetI)
  fix x assume "x \<in> entries (M - {msg r})"
  then obtain s where s: "plain s" "x = content s" "msg s \<in> M - {msg r}" by (rule entriesE)
  then show "x \<in> entries M - {content r}" using msg_content [OF s(1) assms] entries_iff [OF s(1), of M] by simp
next
  fix x assume x: "x \<in> entries M - {content r}"
  then have "x \<in> entries M" by blast
  then obtain s where s: "plain s" "x = content s" "msg s \<in> M" by (rule entriesE)
  then show "x \<in> entries (M - {msg r})"
    using x msg_content [OF s(1) assms] entries_iff [OF s(1), of "M - {msg r}"] by simp
qed

lemma entries_ident:
  assumes "plain r" "invar w" "mident (msg r) \<in> mident ` store w"
  shows "cident (content r) \<in> cident ` entries (store w)"
proof -
  obtain m where m: "m \<in> store w" "mident (msg r) = mident m" using assms(3) by blast
  then obtain s where s: "plain s" "m = msg s" using store_plain [OF assms(2)] by blast
  then have "cident (content r) = cident (content s)" using m msg_ident [OF assms(1), of s] by simp
  moreover have "content s \<in> entries (store w)" using entries_iff [OF s(1)] m s by simp
  ultimately show ?thesis by (rule image_eqI)
qed

end

text \<open>The program's calls over it, which ignore \<open>EEXIST\<close>, \<open>ESRCH\<close> and \<open>ENOENT\<close>, keep the laws of a table.\<close>

sublocale netlink_objects \<subseteq> tab: kernel_table
  "\<lambda>r w. case radd (msg r) w of (err, w') \<Rightarrow> (ignoreExists err, w')"
  "\<lambda>r w. case rdel (msg r) w of (err, w') \<Rightarrow> (ignoreNotFound err, w')"
  "\<lambda>w. entries (store w)" content cident plain invar
proof
  fix w w' r e
  assume inv: "invar w" and r: "plain r"
  show "invar w' \<and> entries (store w') = insert (content r) (entries (store w))"
    if free: "cident (content r) \<notin> cident ` entries (store w)"
      and run: "(case radd (msg r) w of (err, w') \<Rightarrow> (ignoreExists err, w')) = (None, w')"
  proof -
    obtain err where err: "radd (msg r) w = (err, w')" "ignoreExists err = None"
      using run by (auto split: prod.splits)
    have "err \<noteq> Some EEXIST" using radd_exists [OF inv r] err(1) entries_ident [OF r inv] free by blast
    then have "err = None" using err(2) by (simp add: ignoreExists_def)
    then show ?thesis using radd_ok [OF inv r err(1)] entries_insert [OF r] by simp
  qed
  show "invar w' \<and> entries (store w') = entries (store w)"
    if run: "(case radd (msg r) w of (err, w') \<Rightarrow> (ignoreExists err, w')) = (Some e, w')"
  proof -
    have "radd (msg r) w = (Some e, w')" using run by (auto simp: ignoreExists_def split: prod.splits if_splits)
    then show ?thesis using radd_ok [OF inv r] by fastforce
  qed
  show "invar w' \<and> entries (store w') = entries (store w) - {content r}"
    if here: "content r \<in> entries (store w)"
      and run: "(case rdel (msg r) w of (err, w') \<Rightarrow> (ignoreNotFound err, w')) = (None, w')"
  proof -
    have m: "msg r \<in> store w" using here entries_iff [OF r] by blast
    obtain err where err: "rdel (msg r) w = (err, w')" "ignoreNotFound err = None"
      using run by (auto split: prod.splits)
    have "err \<noteq> Some ESRCH" "err \<noteq> Some ENOENT" using rdel_missing [OF inv r] err(1) m by blast+
    then have "err = None" using err(2) by (simp add: ignoreNotFound_def)
    then show ?thesis using rdel_ok [OF inv r err(1)] m entries_remove [OF r] by simp
  qed
  show "invar w' \<and> entries (store w') = entries (store w)"
    if run: "(case rdel (msg r) w of (err, w') \<Rightarrow> (ignoreNotFound err, w')) = (Some e, w')"
  proof -
    have "rdel (msg r) w = (Some e, w')" using run by (auto simp: ignoreNotFound_def split: prod.splits if_splits)
    then show ?thesis using rdel_ok [OF inv r] by fastforce
  qed
qed

text \<open>
  Routes: \<open>RouteListFiltered\<close> lists the routes of a table, protocol and family, each once.
\<close>

locale netlink_fib =
  netlink_objects "nk_RouteAdd nl" "nk_RouteDel nl" fib nl_route_msg route_fields nl_ident route_ident route_plain invar
  for nl :: "'w Netlink" and fib :: "'w \<Rightarrow> NlRoute set" and invar :: "'w \<Rightarrow> bool" +
  assumes route_list: "invar w \<Longrightarrow> nk_RouteListFiltered nl fam t p w = Inr ms \<Longrightarrow>
      nl_norm ` set ms = {m \<in> fib w. nl_Table m = t \<and> nl_Protocol m = p \<and> nl_dst_family m = fam}
      \<and> distinct (map nl_norm ms)"
begin

lemma listed_routes:
  assumes inv: "invar w" and f: "f = 4 \<or> f = 6"
    and run: "nk_RouteListFiltered nl (family_of f) t p w = Inr ms"
  shows "route_fields ` set (List.map_filter route_of_nl ms) = {x \<in> entries (fib w). entry_owned t f p x}"
    "distinct (map route_fields (List.map_filter route_of_nl ms))"
    "\<forall>r \<in> set (List.map_filter route_of_nl ms). route_plain r"
proof -
  have ms: "nl_norm ` set ms = {m \<in> fib w. nl_Table m = t \<and> nl_Protocol m = p \<and> nl_dst_family m = family_of f}"
    "distinct (map nl_norm ms)" using route_list [OF inv run] by blast+
  have each: "\<exists>r. route_plain r \<and> nl_norm m = nl_route_msg r \<and> route_of_nl m = Some (strip r) \<and> nl_route_msg r \<in> fib w"
    if m: "m \<in> set ms" for m
  proof -
    have "nl_norm m \<in> fib w" using ms(1) m by blast
    then obtain r where "route_plain r" "nl_norm m = nl_route_msg r" using store_plain [OF inv] by blast
    then show ?thesis using \<open>nl_norm m \<in> fib w\<close> route_of_nl_msg route_of_nl_norm [of m] by auto
  qed
  have mf: "List.map_filter route_of_nl ms = map (\<lambda>m. the (route_of_nl m)) ms"
  proof -
    have "filter (\<lambda>m. route_of_nl m \<noteq> None) ms = ms" using each by (intro filter_True) force
    then show ?thesis by (simp add: List.map_filter_def comp_def)
  qed
  show "\<forall>r \<in> set (List.map_filter route_of_nl ms). route_plain r" unfolding mf using each by force
  have inj: "inj_on (\<lambda>m. route_fields (the (route_of_nl m))) (set ms)"
  proof (rule inj_onI)
    fix m m' assume m: "m \<in> set ms" "m' \<in> set ms" "route_fields (the (route_of_nl m)) = route_fields (the (route_of_nl m'))"
    obtain r r' where "nl_norm m = nl_route_msg r" "nl_norm m' = nl_route_msg r'"
      "route_of_nl m = Some (strip r)" "route_of_nl m' = Some (strip r')"
      using each [OF m(1)] each [OF m(2)] by blast
    then have "nl_norm m = nl_norm m'" using m(3) nl_route_msg_fields [of r r'] by simp
    then show "m = m'" using m(1,2) ms(2) by (auto simp: distinct_map inj_on_def)
  qed
  then show "distinct (map route_fields (List.map_filter route_of_nl ms))"
    unfolding mf using ms(2) by (simp add: distinct_map comp_def)
  show "route_fields ` set (List.map_filter route_of_nl ms) = {x \<in> entries (fib w). entry_owned t f p x}"
  proof (intro equalityI subsetI)
    fix x assume "x \<in> route_fields ` set (List.map_filter route_of_nl ms)"
    then obtain m where m: "m \<in> set ms" "x = route_fields (the (route_of_nl m))" unfolding mf by auto
    then obtain r where r: "route_plain r" "nl_norm m = nl_route_msg r" "x = route_fields r" "nl_route_msg r \<in> fib w"
      using each [of m] by auto
    have "nl_route_msg r \<in> nl_norm ` set ms" using m(1) r(2) by (metis imageI)
    then show "x \<in> {x \<in> entries (fib w). entry_owned t f p x}"
      using r entries_iff [OF r(1)] nl_family_msg [OF r(1) f] unfolding ms(1) by simp
  next
    fix x assume x: "x \<in> {x \<in> entries (fib w). entry_owned t f p x}"
    then obtain r where r: "route_plain r" "x = route_fields r" "nl_route_msg r \<in> fib w" by (auto elim: entriesE)
    then have "nl_route_msg r \<in> nl_norm ` set ms" using x nl_family_msg [OF r(1) f] unfolding ms(1) by simp
    then obtain m where m: "m \<in> set ms" "nl_norm m = nl_route_msg r" by auto
    then have "route_of_nl m = Some (strip r)" using route_of_nl_msg [OF r(1)] route_of_nl_norm [of m] by simp
    then have "x = route_fields (the (route_of_nl m))" using r(2) by simp
    then show "x \<in> route_fields ` set (List.map_filter route_of_nl ms)" unfolding mf using m(1) by simp
  qed
qed

end

lemma NetlinkKernel_routes:
  "AddRoute (NetlinkKernel nl) = (\<lambda>r w. case nk_RouteAdd nl (nl_route_msg r) w of (err, w') \<Rightarrow> (ignoreExists err, w'))"
  "DeleteRoute (NetlinkKernel nl) = (\<lambda>r w. case nk_RouteDel nl (nl_route_msg r) w of (err, w') \<Rightarrow> (ignoreNotFound err, w'))"
  by (simp_all add: NetlinkKernel_def nl_AddRoute_def nl_DeleteRoute_def fun_eq_iff)

text \<open>\<open>NetlinkKernel\<close> over such a package is a route table in the sense of \<open>route_table\<close>.\<close>

sublocale netlink_fib \<subseteq> nlk: route_table "NetlinkKernel nl" "\<lambda>w. entries (fib w)" route_plain invar
  unfolding route_table_def route_table_axioms_def NetlinkKernel_routes
proof (intro conjI allI impI)
  show "kernel_table (\<lambda>r w. case nk_RouteAdd nl (nl_route_msg r) w of (err, w') \<Rightarrow> (ignoreExists err, w'))
     (\<lambda>r w. case nk_RouteDel nl (nl_route_msg r) w of (err, w') \<Rightarrow> (ignoreNotFound err, w'))
     (\<lambda>w. entries (fib w)) route_fields route_ident route_plain invar" by (rule tab.kernel_table_axioms)
next
  fix w and f t p :: int and rs
  assume inv: "invar w" and f: "f = 4 \<or> f = 6" and run: "ListRoutes (NetlinkKernel nl) t f p w = Inr rs"
  obtain ms where ms: "nk_RouteListFiltered nl (family_of f) t p w = Inr ms" "rs = List.map_filter route_of_nl ms"
    using run by (auto simp: NetlinkKernel_def nl_ListRoutes_def split: sum.splits)
  note listed = listed_routes [OF inv f ms(1), folded ms(2)]
  show "route_fields ` set rs = {x \<in> entries (fib w). entry_owned t f p x}" by (rule listed(1))
  show "distinct (map route_fields rs)" by (rule listed(2))
  show "\<forall>r \<in> set rs. route_plain r" by (rule listed(3))
qed (simp add: route_plain_def)

section \<open>Rules\<close>

definition rule_plain :: "Rule \<Rightarrow> bool" where
  "rule_plain r \<longleftrightarrow> (\<not> ru_HasFWMark r \<longrightarrow> ru_FWMark r = 0 \<and> ru_Mask r = 0)
     \<and> (ru_From r = PrefixZero \<or> pfx_ok (ru_From r) \<and> \<not> Is4In6 (Prefix_Addr (ru_From r)))"

definition fresh_rule :: "NlRule \<Rightarrow> bool" where
  "fresh_rule m \<longleftrightarrow> nr_Mark m = 0 \<and> nr_Mask m = None \<and> nr_Src m = None"

lemma rule_of_nl_msg:
  assumes "rule_plain r" "fresh_rule (nk_NewRule nl)"
  shows "rule_of_nl (nl_rule_msg nl r) = r\<lparr>ru_Group := ''''\<rparr>"
proof -
  have "ipNetToPrefix (prefixToIPNet (ru_From r)) = Some (ru_From r)" if "Prefix_IsValid (ru_From r)"
    using that assms(1) ipNetToPrefix_prefixToIPNet [of "ru_From r"]
    by (auto simp: rule_plain_def pfx_ok_def Prefix_IsValid_def)
  moreover have "ru_From r = PrefixZero" if "\<not> Prefix_IsValid (ru_From r)"
    using that assms(1) by (auto simp: rule_plain_def pfx_ok_def)
  ultimately show ?thesis using assms
    by (cases "ru_HasFWMark r"; cases "Prefix_IsValid (ru_From r)")
      (auto simp: rule_of_nl_def nl_rule_msg_def Let_def zero_Rule_def fresh_rule_def rule_plain_def)
qed

lemma nl_rule_msg_inj:
  assumes "rule_plain r" "rule_plain s" "fresh_rule (nk_NewRule nl)"
  shows "nl_rule_msg nl r = nl_rule_msg nl s \<longleftrightarrow> rule_fields r = rule_fields s"
proof
  assume "nl_rule_msg nl r = nl_rule_msg nl s"
  then have "r\<lparr>ru_Group := ''''\<rparr> = s\<lparr>ru_Group := ''''\<rparr>"
    using rule_of_nl_msg [OF assms(1,3)] rule_of_nl_msg [OF assms(2,3)] by simp
  then have "rule_fields (r\<lparr>ru_Group := ''''\<rparr>) = rule_fields (s\<lparr>ru_Group := ''''\<rparr>)" by simp
  then show "rule_fields r = rule_fields s" by (simp add: rule_fields_def)
qed (simp add: rule_fields_def nl_rule_msg_def Let_def)

text \<open>
  Rules: \<open>EEXIST\<close> means that the very same rule is there, and a listing gives the rules of a family,
  each once. Which family a rule without source address is filed under is the package's choice.
\<close>

locale netlink_rules =
  netlink_objects "nk_RuleAdd nl" "nk_RuleDel nl" rules "nl_rule_msg nl" rule_fields "\<lambda>m. m" "\<lambda>x. x" rule_plain invar
  for nl :: "'w Netlink" and rules :: "'w \<Rightarrow> NlRule set" and invar :: "'w \<Rightarrow> bool" +
  fixes nfam :: "NlRule \<Rightarrow> nl_family"
  assumes new_rule: "fresh_rule (nk_NewRule nl)"
    and rule_list: "invar w \<Longrightarrow> nk_RuleList nl fam w = Inr ms \<Longrightarrow>
      set ms = {m \<in> rules w. nfam m = fam} \<and> distinct ms"
begin

definition entry_fam :: "int \<Rightarrow> rule_entry \<Rightarrow> bool" where
  "entry_fam f x \<longleftrightarrow> (\<exists>r. rule_plain r \<and> rule_fields r = x \<and> nfam (nl_rule_msg nl r) = family_of f)"

lemma entry_fam_iff: "rule_plain r \<Longrightarrow> entry_fam f (rule_fields r) \<longleftrightarrow> nfam (nl_rule_msg nl r) = family_of f"
  unfolding entry_fam_def using msg_content by metis

lemma listed_rules:
  assumes inv: "invar w" and run: "nk_RuleList nl (family_of f) w = Inr ms"
  shows "rule_fields ` set (map rule_of_nl ms) = {x \<in> entries (rules w). entry_fam f x}"
    "distinct (map rule_fields (map rule_of_nl ms))" "\<forall>r \<in> set (map rule_of_nl ms). rule_plain r"
proof -
  have ms: "set ms = {m \<in> rules w. nfam m = family_of f}" "distinct ms" using rule_list [OF inv run] by blast+
  have each: "\<exists>r. rule_plain r \<and> m = nl_rule_msg nl r \<and> rule_plain (rule_of_nl m) \<and> rule_fields (rule_of_nl m) = rule_fields r"
    if m: "m \<in> set ms" for m
  proof -
    obtain r where r: "rule_plain r" "m = nl_rule_msg nl r" using m ms(1) store_plain [OF inv, of m] by auto
    then have "rule_of_nl m = r\<lparr>ru_Group := ''''\<rparr>" using rule_of_nl_msg new_rule by simp
    then show ?thesis using r by (auto simp: rule_plain_def rule_fields_def)
  qed
  show "\<forall>r \<in> set (map rule_of_nl ms). rule_plain r" using each by auto
  have "inj_on (\<lambda>m. rule_fields (rule_of_nl m)) (set ms)"
  proof (rule inj_onI)
    fix m m' assume m: "m \<in> set ms" "m' \<in> set ms" "rule_fields (rule_of_nl m) = rule_fields (rule_of_nl m')"
    show "m = m'" using each [OF m(1)] each [OF m(2)] m(3) msg_content by auto
  qed
  then show "distinct (map rule_fields (map rule_of_nl ms))" using ms(2) by (simp add: distinct_map comp_def)
  show "rule_fields ` set (map rule_of_nl ms) = {x \<in> entries (rules w). entry_fam f x}"
  proof (intro equalityI subsetI)
    fix x assume "x \<in> rule_fields ` set (map rule_of_nl ms)"
    then obtain m where m: "m \<in> set ms" "x = rule_fields (rule_of_nl m)" by auto
    then obtain r where r: "rule_plain r" "m = nl_rule_msg nl r" "x = rule_fields r" using each [of m] by auto
    then show "x \<in> {x \<in> entries (rules w). entry_fam f x}"
      using m(1) entries_iff [OF r(1)] entry_fam_iff [OF r(1)] unfolding ms(1) by simp
  next
    fix x assume x: "x \<in> {x \<in> entries (rules w). entry_fam f x}"
    then obtain r where r: "rule_plain r" "x = rule_fields r" "nl_rule_msg nl r \<in> rules w" by (auto elim: entriesE)
    then have m: "nl_rule_msg nl r \<in> set ms" using x entry_fam_iff [OF r(1)] unfolding ms(1) by simp
    have "rule_fields (rule_of_nl (nl_rule_msg nl r)) = x"
      using rule_of_nl_msg [OF r(1) new_rule] r(2) by (simp add: rule_fields_def)
    then show "x \<in> rule_fields ` set (map rule_of_nl ms)" using m by force
  qed
qed

end

lemma NetlinkKernel_rules:
  "AddRule (NetlinkKernel nl) = (\<lambda>r w. case nk_RuleAdd nl (nl_rule_msg nl r) w of (err, w') \<Rightarrow> (ignoreExists err, w'))"
  "DeleteRule (NetlinkKernel nl) = (\<lambda>r w. case nk_RuleDel nl (nl_rule_msg nl r) w of (err, w') \<Rightarrow> (ignoreNotFound err, w'))"
  by (simp_all add: NetlinkKernel_def nl_AddRule_def nl_DeleteRule_def fun_eq_iff)

sublocale netlink_rules \<subseteq> nlr: rule_table "NetlinkKernel nl" "\<lambda>w. entries (rules w)" rule_plain invar entry_fam
  unfolding rule_table_def rule_table_axioms_def NetlinkKernel_rules
proof (intro conjI allI impI)
  show "kernel_table (\<lambda>r w. case nk_RuleAdd nl (nl_rule_msg nl r) w of (err, w') \<Rightarrow> (ignoreExists err, w'))
     (\<lambda>r w. case nk_RuleDel nl (nl_rule_msg nl r) w of (err, w') \<Rightarrow> (ignoreNotFound err, w'))
     (\<lambda>w. entries (rules w)) rule_fields (\<lambda>x. x) rule_plain invar" by (rule tab.kernel_table_axioms)
next
  fix w and f :: int and rs
  assume inv: "invar w" and run: "ListRules (NetlinkKernel nl) f w = Inr rs"
  obtain ms where ms: "nk_RuleList nl (family_of f) w = Inr ms" "rs = map rule_of_nl ms"
    using run by (auto simp: NetlinkKernel_def nl_ListRules_def split: sum.splits)
  note listed = listed_rules [OF inv ms(1), folded ms(2)]
  show "rule_fields ` set rs = {x \<in> entries (rules w). entry_fam f x}" by (rule listed(1))
  show "distinct (map rule_fields rs)" by (rule listed(2))
  show "\<forall>r \<in> set rs. rule_plain r" by (rule listed(3))
next
  fix x show "\<not> (entry_fam 4 x \<and> entry_fam 6 x)"
    by (auto simp: entry_fam_def family_of_def) (metis msg_content nl_family.distinct(1))
next
  fix r assume "rule_plain r"
  then show "pfx_wf (ru_From r)" "ru_From r = PrefixZero \<or> Prefix_IsValid (ru_From r)"
    by (auto simp: rule_plain_def pfx_ok_def pfx_wf_def)
qed

section \<open>A model of the Linux tables\<close>

text \<open>
  The tables as lists. A stored route has the type \<open>RTN_UNICAST\<close> where the message has none, and two
  routes of one identity are never stored together. Files and web pages belong to the host too, by path
  and by URL; the netlink operations do not touch them.
\<close>

record LinuxState =
  ls_links :: "(string \<times> int) list"
  ls_routes :: "NlRoute list"
  ls_rules :: "NlRule list"
  ls_files :: "(string \<times> string) list"
  ls_web :: "(string \<times> string) list"

definition linux_stored :: "NlRoute \<Rightarrow> NlRoute" where
  "linux_stored m = m\<lparr>nl_Type := (if nl_Type m = 0 then 1 else nl_Type m)\<rparr>"

definition linux_rule_family :: "NlRule \<Rightarrow> nl_family" where
  "linux_rule_family m = (case nr_Src m of None \<Rightarrow> FAMILY_V4
     | Some n \<Rightarrow> if length (ipn_IP n) = 16 then FAMILY_V6 else FAMILY_V4)"

definition linux_RouteAdd :: "NlRoute \<Rightarrow> LinuxState \<Rightarrow> kernel_error option \<times> LinuxState" where
  "linux_RouteAdd m w =
     (if list_ex (\<lambda>x. nl_ident x = nl_ident m) (ls_routes w) then (Some EEXIST, w)
      else (None, w\<lparr>ls_routes := ls_routes w @ [linux_stored m]\<rparr>))"

definition linux_RouteDel :: "NlRoute \<Rightarrow> LinuxState \<Rightarrow> kernel_error option \<times> LinuxState" where
  "linux_RouteDel m w =
     (if list_ex (\<lambda>x. nl_norm x = m) (ls_routes w)
      then (None, w\<lparr>ls_routes := filter (\<lambda>x. nl_norm x \<noteq> m) (ls_routes w)\<rparr>) else (Some ESRCH, w))"

definition linux_RuleAdd :: "NlRule \<Rightarrow> LinuxState \<Rightarrow> kernel_error option \<times> LinuxState" where
  "linux_RuleAdd m w = (if m \<in> set (ls_rules w) then (Some EEXIST, w)
     else (None, w\<lparr>ls_rules := ls_rules w @ [m]\<rparr>))"

definition linux_RuleDel :: "NlRule \<Rightarrow> LinuxState \<Rightarrow> kernel_error option \<times> LinuxState" where
  "linux_RuleDel m w = (if m \<in> set (ls_rules w) then (None, w\<lparr>ls_rules := remove1 m (ls_rules w)\<rparr>)
     else (Some ENOENT, w))"

definition linux_nl :: "LinuxState Netlink" where
  "linux_nl =
     \<lparr>nk_LinkByName = (\<lambda>name w. case map_of (ls_links w) name of
        None \<Rightarrow> Inl (OtherError ''Link not found'') | Some i \<Rightarrow> Inr i),
      nk_RouteListFiltered = (\<lambda>fam t p w. Inr (filter (\<lambda>m. nl_Table m = t \<and> nl_Protocol m = p
        \<and> nl_dst_family m = fam) (ls_routes w))),
      nk_RouteAdd = linux_RouteAdd, nk_RouteDel = linux_RouteDel,
      nk_RuleList = (\<lambda>fam w. Inr (filter (\<lambda>m. linux_rule_family m = fam) (ls_rules w))),
      nk_RuleAdd = linux_RuleAdd, nk_RuleDel = linux_RuleDel,
      nk_NewRule = \<lparr>nr_Priority = -1, nr_Table = 0, nr_Mark = 0, nr_Mask = None, nr_Src = None\<rparr>\<rparr>"

definition linux_fib :: "LinuxState \<Rightarrow> NlRoute set" where
  "linux_fib w = nl_norm ` set (ls_routes w)"

definition linux_rules :: "LinuxState \<Rightarrow> NlRule set" where
  "linux_rules w = set (ls_rules w)"

definition linux_invar :: "LinuxState \<Rightarrow> bool" where
  "linux_invar w \<longleftrightarrow> (\<forall>m \<in> set (ls_routes w). nl_plain (nl_norm m)) \<and> distinct (map nl_norm (ls_routes w))
     \<and> (\<forall>m \<in> set (ls_rules w). \<exists>r. rule_plain r \<and> m = nl_rule_msg linux_nl r) \<and> distinct (ls_rules w)"

lemma nl_norm_simps [simp]:
  "nl_Table (nl_norm m) = nl_Table m" "nl_Protocol (nl_norm m) = nl_Protocol m" "nl_Dst (nl_norm m) = nl_Dst m"
  "nl_Priority (nl_norm m) = nl_Priority m" "nl_dst_family (nl_norm m) = nl_dst_family m"
  "nl_ident (nl_norm m) = nl_ident m" "nl_norm (linux_stored m) = nl_norm m"
  by (simp_all add: nl_norm_def nl_dst_family_def nl_ident_def linux_stored_def RTN_THROW_def)

lemmas linux_defs = linux_nl_def linux_fib_def linux_rules_def linux_invar_def linux_RouteAdd_def linux_RouteDel_def
  linux_RuleAdd_def linux_RuleDel_def nl_plain_def

lemma linux_new_rule: "fresh_rule (nk_NewRule linux_nl)"
  by (simp add: linux_nl_def fresh_rule_def)

interpretation linux_routes: netlink_fib linux_nl linux_fib linux_invar
proof
  fix w :: LinuxState and err w' r
  assume inv: "linux_invar w" and r: "route_plain r"
  show "linux_invar w' \<and> linux_fib w' = (if err = None then insert (nl_route_msg r) (linux_fib w) else linux_fib w)"
    if run: "nk_RouteAdd linux_nl (nl_route_msg r) w = (err, w')"
  proof (cases "list_ex (\<lambda>x. nl_ident x = nl_ident (nl_route_msg r)) (ls_routes w)")
    case True
    then show ?thesis using run inv by (auto simp: linux_nl_def linux_RouteAdd_def)
  next
    case False
    then have w': "err = None" "w' = w\<lparr>ls_routes := ls_routes w @ [linux_stored (nl_route_msg r)]\<rparr>"
      using run by (simp_all add: linux_nl_def linux_RouteAdd_def)
    have "nl_route_msg r \<notin> nl_norm ` set (ls_routes w)"
      using False by (force simp: list_ex_iff dest: arg_cong [of _ _ nl_ident])
    then show ?thesis using inv r w' by (auto simp: linux_invar_def linux_fib_def nl_plain_def)
  qed
  show "nl_ident (nl_route_msg r) \<in> nl_ident ` linux_fib w"
    if "nk_RouteAdd linux_nl (nl_route_msg r) w = (Some EEXIST, w')"
    using that by (auto simp: linux_nl_def linux_RouteAdd_def linux_fib_def list_ex_iff image_image
        split: if_splits intro: rev_image_eqI)
  show "linux_invar w' \<and> linux_fib w' = (if err = None then linux_fib w - {nl_route_msg r} else linux_fib w)"
    if "nk_RouteDel linux_nl (nl_route_msg r) w = (err, w')"
    using that inv by (auto simp: linux_nl_def linux_RouteDel_def linux_fib_def linux_invar_def distinct_map_filter split: if_splits)
  show "nl_route_msg r \<notin> linux_fib w"
    if "nk_RouteDel linux_nl (nl_route_msg r) w = (Some e, w')" for e
    using that by (auto simp: linux_nl_def linux_RouteDel_def linux_fib_def list_ex_iff split: if_splits)
next
  fix w and fam :: nl_family and t p :: int and ms
  assume "linux_invar w" "nk_RouteListFiltered linux_nl fam t p w = Inr ms"
  then show "nl_norm ` set ms = {m \<in> linux_fib w. nl_Table m = t \<and> nl_Protocol m = p \<and> nl_dst_family m = fam}
      \<and> distinct (map nl_norm ms)"
    by (auto simp: linux_nl_def linux_fib_def linux_invar_def distinct_map_filter)
qed (auto simp: nl_route_msg_inj nl_ident_msg linux_invar_def linux_fib_def nl_plain_def)

interpretation linux_rules: netlink_rules linux_nl linux_rules linux_invar linux_rule_family
proof
  fix w :: LinuxState and err w' r
  assume inv: "linux_invar w" and r: "rule_plain r"
  show "linux_invar w' \<and> linux_rules w' = (if err = None then insert (nl_rule_msg linux_nl r) (linux_rules w) else linux_rules w)"
    if "nk_RuleAdd linux_nl (nl_rule_msg linux_nl r) w = (err, w')"
  proof -
    have run: "linux_RuleAdd (nl_rule_msg linux_nl r) w = (err, w')" using that by (simp add: linux_nl_def)
    show ?thesis
      using run inv r by (auto simp: linux_RuleAdd_def linux_rules_def linux_invar_def split: if_splits)
  qed
  show "nl_rule_msg linux_nl r \<in> (\<lambda>m. m) ` linux_rules w"
    if "nk_RuleAdd linux_nl (nl_rule_msg linux_nl r) w = (Some EEXIST, w')"
  proof -
    have "linux_RuleAdd (nl_rule_msg linux_nl r) w = (Some EEXIST, w')" using that by (simp add: linux_nl_def)
    then show ?thesis by (auto simp: linux_RuleAdd_def linux_rules_def split: if_splits)
  qed
  show "linux_invar w' \<and> linux_rules w' = (if err = None then linux_rules w - {nl_rule_msg linux_nl r} else linux_rules w)"
    if "nk_RuleDel linux_nl (nl_rule_msg linux_nl r) w = (err, w')"
  proof -
    have run: "linux_RuleDel (nl_rule_msg linux_nl r) w = (err, w')" using that by (simp add: linux_nl_def)
    show ?thesis
      using run inv by (auto simp: linux_RuleDel_def linux_rules_def linux_invar_def split: if_splits)
  qed
  show "nl_rule_msg linux_nl r \<notin> linux_rules w"
    if "nk_RuleDel linux_nl (nl_rule_msg linux_nl r) w = (Some e, w')" for e
  proof -
    have "linux_RuleDel (nl_rule_msg linux_nl r) w = (Some e, w')" using that by (simp add: linux_nl_def)
    then show ?thesis by (auto simp: linux_RuleDel_def linux_rules_def split: if_splits)
  qed
next
  fix r s assume "rule_plain r" "rule_plain s"
  then show "nl_rule_msg linux_nl r = nl_rule_msg linux_nl s \<longleftrightarrow> rule_fields r = rule_fields s"
    using nl_rule_msg_inj linux_new_rule by blast
next
  fix w m assume "linux_invar w" "m \<in> linux_rules w"
  then show "\<exists>r. rule_plain r \<and> m = nl_rule_msg linux_nl r" by (simp add: linux_invar_def linux_rules_def)
next
  fix w fam ms assume "linux_invar w" "nk_RuleList linux_nl fam w = Inr ms"
  then show "set ms = {m \<in> linux_rules w. linux_rule_family m = fam} \<and> distinct ms"
    by (auto simp: linux_nl_def linux_rules_def linux_invar_def)
qed (use linux_new_rule nl_rule_msg_inj in auto)

section \<open>The tables outside the locales\<close>

definition fib_entries :: "NlRoute set \<Rightarrow> route_entry set" where
  "fib_entries M = {route_fields r |r. route_plain r \<and> nl_route_msg r \<in> M}"

definition rule_entries :: "'w Netlink \<Rightarrow> NlRule set \<Rightarrow> rule_entry set" where
  "rule_entries nl M = {rule_fields r |r. rule_plain r \<and> nl_rule_msg nl r \<in> M}"

definition rule_entry_family :: "'w Netlink \<Rightarrow> (NlRule \<Rightarrow> nl_family) \<Rightarrow> int \<Rightarrow> rule_entry \<Rightarrow> bool" where
  "rule_entry_family nl nfam f x \<longleftrightarrow>
     (\<exists>r. rule_plain r \<and> rule_fields r = x \<and> nfam (nl_rule_msg nl r) = family_of f)"


text \<open>
  The situation in which a plan can be carried out: the groups use different tables, their current
  routes are what the kernel lists, every desired route is of a kind the kernel stores as it is, no
  two of a group differ in gateway or type only, and no route that the group does not own has the
  destination and metric of a desired one.
\<close>

definition routes_ready :: "'w Netlink \<Rightarrow> NlRoute set \<Rightarrow> int \<Rightarrow> InputGroup list \<Rightarrow> 'w \<Rightarrow> bool" where
  "routes_ready nl M proto gs w \<longleftrightarrow> distinct (map group_table gs)
     \<and> (\<forall>g \<in> set gs.
          routes_CurrentOwned (NetlinkKernel nl) (group_table g) proto (group_family g) w = Inr (ig_CurrentRoutes g)
        \<and> (\<forall>r \<in> set (group_desired proto g). route_plain r)
        \<and> (\<forall>r \<in> set (group_desired proto g). \<forall>s \<in> set (group_desired proto g).
            rt_Dst r = rt_Dst s \<and> rt_Metric r = rt_Metric s \<longrightarrow> route_fields r = route_fields s)
        \<and> (\<forall>r \<in> set (group_desired proto g). \<forall>x \<in> fib_entries M.
            route_ident x = (rt_Table r, rt_Dst r, rt_Metric r) \<longrightarrow> x \<in> owned_entries proto [g]))"

definition rules_ready ::
  "'w Netlink \<Rightarrow> (NlRule \<Rightarrow> nl_family) \<Rightarrow> NlRule set \<Rightarrow> int \<Rightarrow> int \<Rightarrow> InputGroup list \<Rightarrow> 'w \<Rightarrow> bool" where
  "rules_ready nl nfam M base step gs w \<longleftrightarrow> distinct (map group_table gs)
     \<and> (\<forall>g \<in> set gs.
          rules_CurrentOwned (NetlinkKernel nl) (group_table g) (rc_Priority (g_Rule (ig_Config g))) base step
            (group_family g) w = Inr (ig_CurrentRules g)
        \<and> (\<forall>r \<in> set (desiredRules g). rule_plain r \<and> ru_Table r = group_table g
            \<and> (rule_fields r \<in> rule_entries nl M \<longrightarrow>
                 rule_fields r \<in> owned_rules base step (rule_entry_family nl nfam) [g])))"

lemma owned_entries_single: "x \<in> owned_entries proto [g] \<longleftrightarrow> family_owned (group_table g) proto (group_family g) x"
  by (simp add: owned_entries_def)

context netlink_fib
begin

lemma entries_fib: "entries M = fib_entries M"
  by (simp add: entries_def fib_entries_def)

lemma ready_reconcilable:
  assumes "invar w" "routes_ready nl (fib w) proto gs w"
  shows "nlk.reconcilable proto gs w"
  unfolding nlk.reconcilable_def
proof (intro conjI ballI impI)
  show "invar w" "distinct (map group_table gs)" using assms unfolding routes_ready_def by blast+
next
  fix g assume g: "g \<in> set gs"
  note ready = assms(2) [unfolded routes_ready_def, THEN conjunct2, THEN bspec, OF g]
  show "routes_CurrentOwned (NetlinkKernel nl) (group_table g) proto (group_family g) w = Inr (ig_CurrentRoutes g)"
    by (rule ready [THEN conjunct1])
  fix r assume r: "r \<in> set (group_desired proto g)"
  show "route_plain r" by (rule ready [THEN conjunct2, THEN conjunct1, THEN bspec, OF r])
  show "route_fields r = route_fields s" if "s \<in> set (group_desired proto g)"
    "route_ident (route_fields r) = route_ident (route_fields s)" for s
    using ready [THEN conjunct2, THEN conjunct2, THEN conjunct1, THEN bspec, OF r] that by simp
  show "family_owned (group_table g) proto (group_family g) x"
    if "x \<in> entries (fib w)" "route_ident x = route_ident (route_fields r)" for x
    using ready [THEN conjunct2, THEN conjunct2, THEN conjunct2, THEN bspec, OF r] that
    unfolding owned_entries_single entries_fib route_ident_fields by blast
qed

lemma fib_after_apply:
  assumes "invar w" "routes_ready nl (fib w) proto gs w" "\<forall>i j. is_range_order (ords i j)"
    and "routes_Apply (NetlinkKernel nl) (plan_Groups (Build ords proto gs)) w = (None, w')"
  shows "invar w'" "fib_entries (fib w') = (fib_entries (fib w) - owned_entries proto gs) \<union> desired_entries proto gs"
  using nlk.routes_Apply_effect [OF ready_reconcilable [OF assms(1,2)] _ assms(4)] assms(3)
  by (simp_all add: entries_fib)

lemma fib_frame:
  assumes "invar w" "routes_ready nl (fib w) proto gs w" "\<forall>i j. is_range_order (ords i j)"
    and "routes_Apply (NetlinkKernel nl) (plan_Groups (Build ords proto gs)) w = (e, w')"
  shows "fib_entries (fib w) - owned_entries proto gs \<subseteq> fib_entries (fib w')"
    "fib_entries (fib w') \<subseteq> fib_entries (fib w) \<union> desired_entries proto gs"
  using nlk.routes_Apply_frame [OF ready_reconcilable [OF assms(1,2)] _ assms(4)] assms(3)
  by (simp_all add: entries_fib)

lemma fib_idempotent:
  assumes "invar w" "routes_ready nl (fib w) proto gs w" "\<forall>i j. is_range_order (ords i j)"
    and "routes_Apply (NetlinkKernel nl) (plan_Groups (Build ords proto gs)) w = (None, w')"
    and "g \<in> set gs" "family_known (group_family g)"
    and "routes_CurrentOwned (NetlinkKernel nl) (group_table g) proto (group_family g) w' = Inr rs"
    and "is_range_order od" "is_range_order oc"
  shows "diffRoutes od oc (group_desired proto g) rs = ([], [])"
  using nlk.diff_empty_after_apply [OF ready_reconcilable [OF assms(1,2)] _ assms(4-9)] assms(3) by simp

end

context netlink_rules
begin

lemma entries_rules: "entries M = rule_entries nl M" "entry_fam = rule_entry_family nl nfam"
  by (simp_all add: entries_def rule_entries_def fun_eq_iff entry_fam_def rule_entry_family_def)

lemma rules_after_apply:
  assumes "invar w" "rules_ready nl nfam (rules w) base step gs w" "\<forall>i j. is_range_order (ords i j)"
    and "rules_Apply (NetlinkKernel nl) (plan_Groups (Build ords proto gs)) w = (None, w')"
  shows "invar w'" "rule_entries nl (rules w') =
    (rule_entries nl (rules w) - owned_rules base step (rule_entry_family nl nfam) gs) \<union> wanted_rules gs"
proof -
  have "nlr.rules_reconcilable base step gs w"
    unfolding nlr.rules_reconcilable_def
    using assms(1,2) by (simp add: rules_ready_def entries_rules owned_rules_def)
  from nlr.rules_Apply_effect [OF this _ assms(4)] assms(3)
  show "invar w'" "rule_entries nl (rules w') =
    (rule_entries nl (rules w) - owned_rules base step (rule_entry_family nl nfam) gs) \<union> wanted_rules gs"
    by (simp_all add: entries_rules)
qed

end

end
