(* ===== verification/Aggregate_Correct.thy ===== *)
theory Aggregate_Correct
  imports Source
begin

text \<open>
  Correctness of \<open>Normalize\<close> and \<open>Aggregate\<close>. A prefix list denotes a set of addresses;
  aggregation keeps that set, its result is sorted, has no prefix inside another and no two sibling
  prefixes left to merge, and such a list is the only one of its kind for its address set and has
  the least length of all prefix lists for it.
\<close>

section \<open>Address sets\<close>

definition paddrs :: "Prefix \<Rightarrow> Addr set" where
  "paddrs p = {a. Contains p a}"

definition addrs :: "Prefix list \<Rightarrow> Addr set" where
  "addrs ps = (\<Union>p \<in> set ps. paddrs p)"

definition pcovers :: "Prefix \<Rightarrow> Prefix \<Rightarrow> bool" where
  "pcovers q p \<longleftrightarrow> free_bits p \<le> free_bits q \<and> Contains q (Prefix_Addr p)"

definition siblings :: "Prefix \<Rightarrow> Prefix \<Rightarrow> bool" where
  "siblings a b \<longleftrightarrow> BitLen (Prefix_Addr a) = BitLen (Prefix_Addr b)
     \<and> free_bits a = free_bits b \<and> free_bits a < BitLen (Prefix_Addr a) \<and> a \<noteq> b
     \<and> addr_val (Prefix_Addr a) div 2 ^ Suc (free_bits a)
       = addr_val (Prefix_Addr b) div 2 ^ Suc (free_bits a)"

definition agg_inv :: "Prefix list \<Rightarrow> bool" where
  "agg_inv ps \<longleftrightarrow> (\<forall>p \<in> set ps. pfx_ok p) \<and> sorted ps
     \<and> sorted_wrt (\<lambda>p q. \<not> pcovers p q \<and> \<not> pcovers q p) ps"

definition canonical :: "Prefix list \<Rightarrow> bool" where
  "canonical ps \<longleftrightarrow> agg_inv ps \<and> (\<forall>p \<in> set ps. \<forall>q \<in> set ps. \<not> siblings p q)"

lemma addrs_simps [simp]:
  "addrs [] = {}" "addrs (p # ps) = paddrs p \<union> addrs ps" "addrs (ps @ qs) = addrs ps \<union> addrs qs"
  "addrs (sort ps) = addrs ps"
  by (auto simp: addrs_def)

lemma div_pow_mono:
  assumes "k \<le> l" "x div 2 ^ k = y div (2 ^ k :: nat)"
  shows "x div 2 ^ l = y div 2 ^ l"
proof -
  have "z div 2 ^ l = z div 2 ^ k div 2 ^ (l - k)" for z :: nat
    using assms(1) by (simp flip: div_mult2_eq power_add)
  then show ?thesis using assms(2) by simp
qed

lemma pfx_okD:
  assumes "pfx_ok p"
  shows "Prefix_IsValid p" "Zone (Prefix_Addr p) = []" "Prefix_Addr p \<noteq> AddrZero"
    "free_bits p \<le> BitLen (Prefix_Addr p)" "bitsPlusOne p = BitLen (Prefix_Addr p) + 1 - free_bits p"
    "2 ^ free_bits p dvd addr_val (Prefix_Addr p)"
  using assms
  by (auto simp: pfx_ok_iff pfx_wf_def free_bits_def Prefix_IsValid_def)

lemma Prefix_Bits_ok:
  "pfx_ok p \<Longrightarrow> Prefix_Bits p = int (BitLen (Prefix_Addr p)) - int (free_bits p)"
  using pfx_okD(4,5) [of p] by (simp add: Prefix_Bits_def)

lemma Contains_ok:
  "pfx_ok p \<Longrightarrow> Contains p a \<longleftrightarrow> Zone a = [] \<and> BitLen a = BitLen (Prefix_Addr p)
     \<and> addr_val a div 2 ^ free_bits p = addr_val (Prefix_Addr p) div 2 ^ free_bits p"
  by (auto simp: Contains_iff pfx_okD)

lemma Contains_self: "pfx_ok p \<Longrightarrow> Contains p (Prefix_Addr p)"
  by (simp add: Contains_ok pfx_okD)

lemma ok_eq:
  assumes "pfx_ok p" "pfx_ok q" "BitLen (Prefix_Addr p) = BitLen (Prefix_Addr q)"
    and "free_bits p = free_bits q"
    and "addr_val (Prefix_Addr p) div 2 ^ free_bits p = addr_val (Prefix_Addr q) div 2 ^ free_bits p"
  shows "p = q"
proof -
  from assms have "addr_val (Prefix_Addr p) = addr_val (Prefix_Addr q)"
    by (metis dvd_div_mult_self pfx_okD(6))
  with assms show ?thesis by (simp add: Prefix_key_eq pfx_okD)
qed

lemma pcovers_subset: "pfx_ok p \<Longrightarrow> pfx_ok q \<Longrightarrow> pcovers q p \<Longrightarrow> paddrs p \<subseteq> paddrs q"
  by (auto simp: pcovers_def paddrs_def Contains_ok intro: div_pow_mono)
    (metis div_pow_mono)

lemma meet_covers:
  assumes "pfx_ok p" "pfx_ok q" "Contains p a" "Contains q a" "free_bits p \<le> free_bits q"
  shows "pcovers q p"
  using assms by (auto simp: pcovers_def Contains_ok pfx_okD) (metis div_pow_mono)

lemma pcovers_antisym: "pfx_ok p \<Longrightarrow> pfx_ok q \<Longrightarrow> pcovers p q \<Longrightarrow> pcovers q p \<Longrightarrow> p = q"
  by (rule ok_eq) (auto simp: pcovers_def Contains_ok)

lemma subset_pcovers:
  assumes "pfx_ok p" "pfx_ok q" "paddrs p \<subseteq> paddrs q" "free_bits p \<le> free_bits q"
  shows "pcovers q p"
  using assms Contains_self [of p] by (auto simp: pcovers_def paddrs_def)

lemma removeCovered_test:
  assumes "pfx_ok kept" "pfx_ok p"
  shows "Is4 (Prefix_Addr kept) = Is4 (Prefix_Addr p) \<and> Prefix_Bits kept \<le> Prefix_Bits p
      \<and> Contains kept (Prefix_Addr p) \<longleftrightarrow> pcovers kept p"
proof -
  have "Contains kept (Prefix_Addr p) \<Longrightarrow> Is4 (Prefix_Addr kept) = Is4 (Prefix_Addr p)"
    using assms by (cases "Prefix_Addr kept"; cases "Prefix_Addr p") (auto simp: Contains_ok)
  moreover have "Contains kept (Prefix_Addr p) \<Longrightarrow>
      Prefix_Bits kept \<le> Prefix_Bits p \<longleftrightarrow> free_bits p \<le> free_bits kept"
    using assms by (simp add: Contains_ok Prefix_Bits_ok)
  ultimately show ?thesis by (auto simp: pcovers_def)
qed

section \<open>The order and containment\<close>

lemma Prefix_le_iff:
  assumes "pfx_ok p" "pfx_ok q" "BitLen (Prefix_Addr p) = BitLen (Prefix_Addr q)"
  shows "p \<le> q \<longleftrightarrow> addr_val (Prefix_Addr p) < addr_val (Prefix_Addr q)
      \<or> addr_val (Prefix_Addr p) = addr_val (Prefix_Addr q) \<and> free_bits q \<le> free_bits p"
  using assms
  by (auto simp: less_eq_Prefix_def prefixLess_def Addr_Less_def Prefix_Bits_ok pfx_okD(2))

lemma Prefix_le_BitLen:
  "p \<le> q \<Longrightarrow> BitLen (Prefix_Addr p) \<le> BitLen (Prefix_Addr q)"
  by (auto simp: less_eq_Prefix_def prefixLess_def Addr_Less_def split: if_splits)

text \<open>A prefix that is covered comes after the prefix that covers it.\<close>

lemma pcovers_le:
  assumes "pfx_ok p" "pfx_ok q" "pcovers q p"
  shows "q \<le> p"
proof -
  from assms have len: "BitLen (Prefix_Addr q) = BitLen (Prefix_Addr p)"
    and div: "addr_val (Prefix_Addr p) div 2 ^ free_bits q = addr_val (Prefix_Addr q) div 2 ^ free_bits q"
    by (auto simp: pcovers_def Contains_ok)
  have "addr_val (Prefix_Addr q) = addr_val (Prefix_Addr p) div 2 ^ free_bits q * 2 ^ free_bits q"
    using div assms(2) by (simp add: pfx_okD)
  then have "addr_val (Prefix_Addr q) \<le> addr_val (Prefix_Addr p)" by simp
  with assms len show ?thesis by (auto simp: Prefix_le_iff pcovers_def)
qed

lemma sorted_sortPrefixes: "sorted (sortPrefixes ps)" "set (sortPrefixes ps) = set ps"
  "addrs (sortPrefixes ps) = addrs ps"
  by (simp_all add: sortPrefixes_def)

section \<open>Removing covered prefixes\<close>

lemma removeCovered_loop_inv:
  assumes "agg_inv out" "\<forall>p \<in> set ps. pfx_ok p" "sorted ps" "\<forall>p \<in> set out. \<forall>q \<in> set ps. p \<le> q"
  shows "agg_inv (removeCovered_loop out ps) \<and> addrs (removeCovered_loop out ps) = addrs out \<union> addrs ps"
  using assms
proof (induction out ps rule: removeCovered_loop.induct)
  case (1 out)
  then show ?case by simp
next
  case (2 out p ps)
  have ok: "pfx_ok p" "\<forall>q \<in> set out. pfx_ok q" using 2 by (auto simp: agg_inv_def)
  have test: "list_ex (\<lambda>kept. Is4 (Prefix_Addr kept) = Is4 (Prefix_Addr p)
           \<and> Prefix_Bits kept \<le> Prefix_Bits p \<and> Contains kept (Prefix_Addr p)) out
      \<longleftrightarrow> (\<exists>kept \<in> set out. pcovers kept p)" (is "?ex \<longleftrightarrow> _")
    using ok removeCovered_test by (auto simp: list_ex_iff)
  show ?case
  proof (cases ?ex)
    case True
    then obtain kept where "kept \<in> set out" "pcovers kept p" using test by blast
    then have "paddrs p \<subseteq> addrs out"
      using ok pcovers_subset by (fastforce simp: addrs_def)
    with True 2 show ?thesis by auto
  next
    case False
    have "\<not> pcovers p q" if "q \<in> set out" for q
      using that False test ok pcovers_le [of q p] pcovers_antisym [of p q] 2 by force
    with False test 2 ok have "agg_inv (out @ [p])"
      by (auto simp: agg_inv_def sorted_wrt_append)
    moreover have "\<forall>p' \<in> set (out @ [p]). \<forall>q \<in> set ps. p' \<le> q" using 2 by auto
    ultimately show ?thesis using False 2 by auto
  qed
qed

lemma removeCovered_inv:
  assumes "\<forall>p \<in> set ps. pfx_ok p"
  shows "agg_inv (removeCovered ps)" "addrs (removeCovered ps) = addrs ps"
proof -
  have "agg_inv []" by (simp add: agg_inv_def)
  from removeCovered_loop_inv [OF this, of "sortPrefixes ps"] assms
  show "agg_inv (removeCovered ps)" "addrs (removeCovered ps) = addrs ps"
    by (simp_all add: removeCovered_def sorted_sortPrefixes)
qed

text \<open>On a list that has the invariant nothing is removed.\<close>

lemma removeCovered_loop_id:
  assumes "agg_inv (out @ ps)"
  shows "removeCovered_loop out ps = out @ ps"
  using assms
proof (induction out ps rule: removeCovered_loop.induct)
  case (2 out p ps)
  have "pfx_ok p" "\<forall>q \<in> set out. pfx_ok q \<and> \<not> pcovers q p"
    using 2 by (auto simp: agg_inv_def sorted_wrt_append)
  then show ?case using 2 removeCovered_test by (auto simp: list_ex_iff)
qed simp

lemma removeCovered_id: "agg_inv ps \<Longrightarrow> removeCovered ps = ps"
  using removeCovered_loop_id [of "[]" ps]
  by (simp add: removeCovered_def sortPrefixes_def sorted_sort_id agg_inv_def)

section \<open>Merging siblings\<close>

lemma half_cases:
  assumes "u div 2 = a div 2" "b div 2 = a div 2" "a \<noteq> (b :: nat)"
  shows "u = a \<or> u = b"
proof -
  have "u = 2 * (a div 2) + u mod 2" "b = 2 * (a div 2) + b mod 2" "a = 2 * (a div 2) + a mod 2"
    using assms by (metis mult_div_mod_eq)+
  with assms(3) show ?thesis by (cases "u mod 2 = 0"; cases "a mod 2 = 0"; cases "b mod 2 = 0") auto
qed

text \<open>The prefix one bit shorter.\<close>

lemma parent_simps:
  assumes "pfx_ok a" "Prefix_Bits a \<noteq> 0"
  defines "q \<equiv> Masked (PrefixFrom (Prefix_Addr a) (Prefix_Bits a - 1))"
  shows "pfx_ok q" "free_bits q = Suc (free_bits a)" "BitLen (Prefix_Addr q) = BitLen (Prefix_Addr a)"
    "addr_val (Prefix_Addr q) div 2 ^ Suc (free_bits a)
       = addr_val (Prefix_Addr a) div 2 ^ Suc (free_bits a)"
proof -
  let ?r = "PrefixFrom (Prefix_Addr a) (Prefix_Bits a - 1)"
  have r: "Prefix_Addr ?r = Prefix_Addr a" "bitsPlusOne ?r = bitsPlusOne a - 1" "2 \<le> bitsPlusOne a"
    "bitsPlusOne a \<le> BitLen (Prefix_Addr a) + 1"
    using assms pfx_okD [of a]
    by (cases "Prefix_Addr a"; auto simp: PrefixFrom_def Prefix_Bits_def Prefix_IsValid_def)+
  then have wf: "pfx_wf ?r" "Prefix_IsValid ?r"
    using assms by (auto simp: pfx_wf_def Prefix_IsValid_def pfx_okD)
  have fb: "free_bits ?r = Suc (free_bits a)" using r by (simp add: free_bits_def)
  show "pfx_ok q" unfolding q_def using wf by (rule Masked_ok)
  show "free_bits q = Suc (free_bits a)" "BitLen (Prefix_Addr q) = BitLen (Prefix_Addr a)"
    "addr_val (Prefix_Addr q) div 2 ^ Suc (free_bits a)
       = addr_val (Prefix_Addr a) div 2 ^ Suc (free_bits a)"
    unfolding q_def using Masked_simps [OF wf] fb r by (simp_all add: free_bits_def)
qed

lemma Masked_self: "pfx_ok a \<Longrightarrow> Masked (PrefixFrom (Prefix_Addr a) (Prefix_Bits a)) = a"
proof -
  assume ok: "pfx_ok a"
  then have "PrefixFrom (Prefix_Addr a) (Prefix_Bits a) = a"
    by (cases a; cases "Prefix_Addr a")
      (auto simp: PrefixFrom_def Prefix_Bits_def pfx_ok_def pfx_wf_def Prefix_IsValid_def)
  with ok show ?thesis by (simp add: pfx_ok_def)
qed

lemma Bits_zero_iff: "pfx_ok a \<Longrightarrow> Prefix_Bits a = 0 \<longleftrightarrow> free_bits a = BitLen (Prefix_Addr a)"
  by (auto simp: Prefix_Bits_ok)

lemma Is4_eq_iff:
  "pfx_ok a \<Longrightarrow> pfx_ok b \<Longrightarrow>
     Is4 (Prefix_Addr a) = Is4 (Prefix_Addr b) \<longleftrightarrow> BitLen (Prefix_Addr a) = BitLen (Prefix_Addr b)"
  using pfx_okD(3) [of a] pfx_okD(3) [of b]
  by (cases "Prefix_Addr a"; cases "Prefix_Addr b") auto

lemma mergePair_iff:
  assumes "pfx_ok a" "pfx_ok b"
  shows "mergePair a b = Some parent \<longleftrightarrow>
    siblings a b \<and> parent = Masked (PrefixFrom (Prefix_Addr a) (Prefix_Bits a - 1))"
proof -
  let ?q = "\<lambda>c. Masked (PrefixFrom (Prefix_Addr c) (Prefix_Bits c - 1))"
  have bits: "BitLen (Prefix_Addr a) = BitLen (Prefix_Addr b) \<Longrightarrow>
      Prefix_Bits a = Prefix_Bits b \<longleftrightarrow> free_bits a = free_bits b"
    using assms by (simp add: Prefix_Bits_ok)
  have q: "Contains (?q a) (Prefix_Addr a)"
    "Contains (?q a) (Prefix_Addr b) \<longleftrightarrow> addr_val (Prefix_Addr a) div 2 ^ Suc (free_bits a)
       = addr_val (Prefix_Addr b) div 2 ^ Suc (free_bits a)"
    "?q b = ?q a \<longleftrightarrow> addr_val (Prefix_Addr a) div 2 ^ Suc (free_bits a)
       = addr_val (Prefix_Addr b) div 2 ^ Suc (free_bits a)"
    if eq: "BitLen (Prefix_Addr a) = BitLen (Prefix_Addr b)" "free_bits a = free_bits b"
      and nz: "Prefix_Bits a \<noteq> 0" "Prefix_Bits b \<noteq> 0"
  proof -
    note pa = parent_simps [OF assms(1) nz(1)] and pb = parent_simps [OF assms(2) nz(2)]
    show "Contains (?q a) (Prefix_Addr a)"
      using pa assms by (auto simp: Contains_ok [OF pa(1)] pfx_okD)
    show "Contains (?q a) (Prefix_Addr b) \<longleftrightarrow> addr_val (Prefix_Addr a) div 2 ^ Suc (free_bits a)
       = addr_val (Prefix_Addr b) div 2 ^ Suc (free_bits a)"
      using pa eq assms by (auto simp: Contains_ok [OF pa(1)] pfx_okD)
    show "?q b = ?q a \<longleftrightarrow> addr_val (Prefix_Addr a) div 2 ^ Suc (free_bits a)
       = addr_val (Prefix_Addr b) div 2 ^ Suc (free_bits a)"
      using pa pb eq ok_eq [OF pb(1) pa(1)] by metis
  qed
  show ?thesis
  proof (cases "BitLen (Prefix_Addr a) = BitLen (Prefix_Addr b) \<and> free_bits a = free_bits b
      \<and> free_bits a < BitLen (Prefix_Addr a)")
    case True
    then have nz: "Prefix_Bits a \<noteq> 0" "Prefix_Bits b \<noteq> 0" using assms by (auto simp: Bits_zero_iff)
    have "mergePair a b = (if a \<noteq> b \<and> addr_val (Prefix_Addr a) div 2 ^ Suc (free_bits a)
       = addr_val (Prefix_Addr b) div 2 ^ Suc (free_bits a) then Some (?q a) else None)"
      using True bits q [OF _ _ nz] nz
      by (simp only: mergePair_def Is4_eq_iff [OF assms] Masked_self [OF assms(1)]
          Masked_self [OF assms(2)] Let_def) simp
    with True show ?thesis by (auto simp: siblings_def)
  next
    case False
    then have "mergePair a b = None"
      using assms bits pfx_okD(4) [OF assms(1)]
      by (auto simp: mergePair_def Is4_eq_iff Bits_zero_iff)
    with False show ?thesis by (auto simp: siblings_def)
  qed
qed

lemma siblings_parent:
  assumes "pfx_ok a" "pfx_ok b" "siblings a b"
  defines "q \<equiv> Masked (PrefixFrom (Prefix_Addr a) (Prefix_Bits a - 1))"
  shows "pfx_ok q" "paddrs q = paddrs a \<union> paddrs b" "free_bits q = Suc (free_bits a)"
proof -
  have "Prefix_Bits a \<noteq> 0" using assms by (simp add: siblings_def Bits_zero_iff)
  note q = parent_simps [OF assms(1) this, folded q_def]
  show "pfx_ok q" "free_bits q = Suc (free_bits a)" using q by simp_all
  let ?k = "2 ^ free_bits a :: nat"
  have half: "x div 2 ^ Suc (free_bits a) = x div ?k div 2" for x :: nat
    by (simp only: power_Suc2 div_mult2_eq)
  have ne: "addr_val (Prefix_Addr a) div ?k \<noteq> addr_val (Prefix_Addr b) div ?k"
    using assms ok_eq [of a b] by (auto simp: siblings_def)
  have "Contains q x \<longleftrightarrow> Contains a x \<or> Contains b x" for x
    using q(2-4) assms(1-3) half ne half_cases [of "addr_val x div ?k" "addr_val (Prefix_Addr a) div ?k"
        "addr_val (Prefix_Addr b) div ?k"]
    by (auto simp: Contains_ok [OF q(1)] Contains_ok siblings_def simp del: power_Suc)
  then show "paddrs q = paddrs a \<union> paddrs b" by (auto simp: paddrs_def)
qed

lemma mergeOnePass_loop_spec:
  assumes "\<forall>p \<in> set out \<union> set ps. pfx_ok p" "mergeOnePass_loop out changed ps = (next, ch)"
  shows "(\<forall>p \<in> set next. pfx_ok p) \<and> addrs next = addrs out \<union> addrs ps"
  using assms
proof (induction out changed ps rule: mergeOnePass_loop.induct)
  case (3 out changed a b ps)
  show ?case
  proof (cases "mergePair a b")
    case None
    with 3 show ?thesis by auto
  next
    case (Some parent)
    have "siblings a b" and parent: "parent = Masked (PrefixFrom (Prefix_Addr a) (Prefix_Bits a - 1))"
      using Some "3.prems"(1) mergePair_iff [of a b] by auto
    then have ok: "pfx_ok parent" and pu: "paddrs parent = paddrs a \<union> paddrs b"
      using siblings_parent [of a b] "3.prems"(1) by auto
    have all: "\<forall>p \<in> set (out @ [parent]) \<union> set ps. pfx_ok p"
      using "3.prems"(1) ok by simp
    have "mergeOnePass_loop (out @ [parent]) True ps = (next, ch)"
      using Some "3.prems"(2) by simp
    from "3.IH"(2) [OF Some all this] pu show ?thesis by auto
  qed
qed auto

lemma mergeOnePass_spec:
  assumes "\<forall>p \<in> set ps. pfx_ok p" "mergeOnePass ps = (next, ch)"
  shows "\<forall>p \<in> set next. pfx_ok p" "addrs next = addrs ps"
  using mergeOnePass_loop_spec [of "[]" "sortPrefixes ps"] assms
  by (auto simp: mergeOnePass_def sorted_sortPrefixes)

text \<open>A pass that reports no change met no sibling pair and returned its input.\<close>

lemma mergeOnePass_loop_unchanged:
  assumes "mergeOnePass_loop out changed ps = (next, False)"
  shows "\<not> changed \<and> next = out @ ps \<and> (\<forall>i. Suc i < length ps \<longrightarrow> mergePair (ps ! i) (ps ! Suc i) = None)"
  using assms
proof (induction out changed ps rule: mergeOnePass_loop.induct)
  case (3 out changed a b ps)
  then have "mergePair a b = None" by (auto split: option.splits)
  with 3 show ?case by (auto simp: nth_Cons split: nat.splits)
qed auto

section \<open>The result of the loop\<close>

definition no_adjacent_merge :: "Prefix list \<Rightarrow> bool" where
  "no_adjacent_merge ps \<longleftrightarrow> (\<forall>i. Suc i < length ps \<longrightarrow> mergePair (ps ! i) (ps ! Suc i) = None)"

lemma agg_inv_ok: "agg_inv ps \<Longrightarrow> \<forall>p \<in> set ps. pfx_ok p"
  by (simp add: agg_inv_def)

lemma mergeOnePass_unchanged:
  assumes "agg_inv ps" "mergeOnePass ps = (nx, False)"
  shows "nx = ps" "no_adjacent_merge ps"
  using mergeOnePass_loop_unchanged [of "[]" False ps nx] assms
  by (auto simp: mergeOnePass_def sortPrefixes_def agg_inv_def sorted_sort_id no_adjacent_merge_def)

lemma Aggregate_loop_spec:
  assumes "agg_inv current"
  shows "agg_inv (Aggregate_loop current) \<and> addrs (Aggregate_loop current) = addrs current
    \<and> no_adjacent_merge (Aggregate_loop current)"
  using assms
proof (induction current rule: Aggregate_loop.induct)
  case (1 current)
  obtain next0 changed where pass: "mergeOnePass current = (next0, changed)" by fastforce
  let ?next = "removeCovered next0"
  note ok = agg_inv_ok [OF "1.prems"]
  note spec = mergeOnePass_spec [OF ok pass]
  have inv: "agg_inv ?next" "addrs ?next = addrs current"
    using removeCovered_inv [OF spec(1)] spec(2) by simp_all
  show ?case
  proof (cases "\<not> changed \<and> length ?next = length current")
    case True
    with pass have "next0 = current" "no_adjacent_merge current"
      using mergeOnePass_unchanged [OF "1.prems"] by auto
    with True pass "1.prems" show ?thesis
      by (simp add: Aggregate_loop.simps [of current] removeCovered_id)
  next
    case False
    then have "Aggregate_loop current = Aggregate_loop ?next"
      using pass by (subst Aggregate_loop.simps) auto
    with "1.IH" [OF pass [symmetric] refl False inv(1)] inv(2) show ?thesis by simp
  qed
qed

text \<open>In a sorted list without covered prefixes, siblings stand next to each other.\<close>

lemma agg_inv_nth:
  assumes "agg_inv ps" "i < j" "j < length ps"
  shows "ps ! i \<le> ps ! j" "\<not> pcovers (ps ! i) (ps ! j)" "\<not> pcovers (ps ! j) (ps ! i)"
  using assms by (auto simp: agg_inv_def sorted_wrt_iff_nth_less)

lemma siblings_sym: "siblings a b \<Longrightarrow> siblings b a"
  by (auto simp: siblings_def)

lemma between_half: "a \<le> r \<Longrightarrow> r \<le> b \<Longrightarrow> a div 2 = b div 2 \<Longrightarrow> r = a \<or> r = (b :: nat)"
  by presburger

lemma between_siblings:
  assumes ok: "pfx_ok p" "pfx_ok q" "pfx_ok r" and sib: "siblings p q" and ord: "p \<le> r" "r \<le> q"
  shows "pcovers p r \<or> pcovers r p \<or> pcovers q r \<or> pcovers r q"
proof -
  let ?k = "2 ^ free_bits p :: nat" and ?v = "\<lambda>x. addr_val (Prefix_Addr x)"
  have len: "BitLen (Prefix_Addr r) = BitLen (Prefix_Addr p)" "BitLen (Prefix_Addr q) = BitLen (Prefix_Addr p)"
    using Prefix_le_BitLen [OF ord(1)] Prefix_le_BitLen [OF ord(2)] sib by (auto simp: siblings_def)
  have le: "?v p \<le> ?v r" "?v r \<le> ?v q"
    using ord Prefix_le_iff [OF ok(1,3)] Prefix_le_iff [OF ok(3,2)] len by auto
  then have "?v p div ?k \<le> ?v r div ?k" "?v r div ?k \<le> ?v q div ?k" by (simp_all add: div_le_mono)
  moreover have "?v p div ?k div 2 = ?v q div ?k div 2"
    using sib unfolding siblings_def power_Suc2 div_mult2_eq by blast
  ultimately have "?v r div ?k = ?v p div ?k \<or> ?v r div ?k = ?v q div ?k" by (rule between_half)
  then have "Contains p (Prefix_Addr r) \<or> Contains q (Prefix_Addr r)"
    using ok len sib by (auto simp: Contains_ok pfx_okD siblings_def)
  then show ?thesis
    using ok Contains_self [OF ok(3)] meet_covers linear by metis
qed

lemma no_siblings:
  assumes inv: "agg_inv ps" and adj: "no_adjacent_merge ps" and "p \<in> set ps" "q \<in> set ps"
  shows "\<not> siblings p q"
proof
  assume sib: "siblings p q"
  have *: False if "i < j" "j < length ps" "siblings (ps ! i) (ps ! j)" for i j
  proof (cases "j = Suc i")
    case True
    have ok: "pfx_ok (ps ! i)" "pfx_ok (ps ! Suc i)" using that True agg_inv_ok [OF inv] by auto
    have "mergePair (ps ! i) (ps ! Suc i) = None"
      using adj that True by (simp add: no_adjacent_merge_def)
    with mergePair_iff [OF ok] that(3) True show False by auto
  next
    case False
    with that have m: "i < Suc i" "Suc i < j" by auto
    have "pfx_ok (ps ! i)" "pfx_ok (ps ! j)" "pfx_ok (ps ! Suc i)"
      using that m agg_inv_ok [OF inv] by auto
    from between_siblings [OF this that(3)] agg_inv_nth [OF inv m(1)] agg_inv_nth [OF inv m(2)] that m
    show False by auto
  qed
  obtain i j where "i < length ps" "p = ps ! i" "j < length ps" "q = ps ! j"
    using assms by (auto simp: in_set_conv_nth)
  with * [of i j] * [of j i] sib siblings_sym [OF sib] show False
    by (cases i j rule: linorder_cases) (auto simp: siblings_def)
qed

lemma Aggregate_spec:
  assumes "\<forall>p \<in> set ps. pfx_ok p"
  shows "canonical (Aggregate ps)" "addrs (Aggregate ps) = addrs ps"
proof -
  have "canonical (Aggregate ps) \<and> addrs (Aggregate ps) = addrs ps"
  proof (cases "length ps < 2")
    case True
    then show ?thesis
      using assms by (cases ps; cases "tl ps") (auto simp: Aggregate_def canonical_def agg_inv_def siblings_def)
  next
    case False
    have inv: "agg_inv (removeCovered ps)" using removeCovered_inv [OF assms] by simp
    from Aggregate_loop_spec [OF this] False removeCovered_inv [OF assms] show ?thesis
      by (auto simp: Aggregate_def canonical_def dest: no_siblings)
  qed
  then show "canonical (Aggregate ps)" "addrs (Aggregate ps) = addrs ps" by simp_all
qed

section \<open>Uniqueness and minimality\<close>

lemma ex_addr:
  assumes "a0 \<noteq> AddrZero" "v < 2 ^ BitLen a0"
  obtains a where "BitLen a = BitLen a0" "addr_val a = v" "Zone a = []" "a \<noteq> AddrZero"
proof (cases a0)
  case (Addr4 w)
  with assms have "unat (word_of_nat v :: 32 word) = v" by (simp add: unat_of_nat)
  with Addr4 that [of "Addr4 (word_of_nat v)"] show thesis by simp
next
  case (Addr6 w z)
  with assms have "unat (word_of_nat v :: 128 word) = v" by (simp add: unat_of_nat)
  with Addr6 that [of "Addr6 (word_of_nat v) []"] show thesis by simp
qed (use assms in simp)

text \<open>A prefix with host bits left splits into two siblings.\<close>

lemma split_prefix:
  assumes ok: "pfx_ok p" and fb: "free_bits p = Suc k"
  obtains a b where "pfx_ok a" "pfx_ok b" "siblings a b" "free_bits a = k"
    "paddrs p = paddrs a \<union> paddrs b"
proof -
  let ?L = "BitLen (Prefix_Addr p)" and ?v = "addr_val (Prefix_Addr p)"
  have kL: "Suc k \<le> ?L" and dv: "2 ^ Suc k dvd ?v" using pfx_okD(4,6) [OF ok] fb by simp_all
  then obtain m where m: "?v = 2 * (2 ^ k * m)" by (auto elim: dvdE)
  have "2 ^ ?L = 2 * (2 ^ k * (2 ^ (?L - Suc k) :: nat))"
    using kL by (simp flip: power_add power_Suc)
  with m addr_val_less [of "Prefix_Addr p"] have "2 ^ k * m < 2 ^ k * 2 ^ (?L - Suc k)"
    by linarith
  then have "2 ^ k * Suc m \<le> 2 ^ k * 2 ^ (?L - Suc k)" by (intro mult_le_mono2) simp
  moreover have "(0 :: nat) < 2 ^ k" by simp
  ultimately have "?v + 2 ^ k < 2 ^ ?L"
    using m \<open>2 ^ ?L = _\<close> unfolding mult_Suc_right by linarith
  then obtain c where c: "BitLen c = ?L" "addr_val c = ?v + 2 ^ k" "Zone c = []" "c \<noteq> AddrZero"
    using ex_addr [OF pfx_okD(3) [OF ok]] by metis
  define a where "a = MkPrefix (Prefix_Addr p) (Suc (bitsPlusOne p))"
  define b where "b = MkPrefix c (Suc (bitsPlusOne p))"
  have bp: "bitsPlusOne p = ?L - k" using pfx_okD(5) [OF ok] fb by simp
  have fab: "free_bits a = k" "free_bits b = k" "BitLen (Prefix_Addr a) = ?L" "BitLen (Prefix_Addr b) = ?L"
    using bp kL c by (auto simp: a_def b_def free_bits_def)
  have "2 ^ k dvd ?v" "2 ^ k dvd ?v + 2 ^ k" using m by simp_all
  then have oks: "pfx_ok a" "pfx_ok b"
    using fab bp kL c pfx_okD(2,3) [OF ok]
    by (auto simp: pfx_ok_iff pfx_wf_def Prefix_IsValid_def a_def b_def)
  have "?v div 2 ^ k = 2 * m" "(?v + 2 ^ k) div 2 ^ k = Suc (2 * m)" using m by simp_all
  then have "?v div 2 ^ Suc k = (?v + 2 ^ k) div 2 ^ Suc k"
    unfolding power_Suc2 div_mult2_eq by simp
  then have sib: "siblings a b"
    using fab kL c by (auto simp: siblings_def a_def b_def simp del: power_Suc)
  let ?q = "Masked (PrefixFrom (Prefix_Addr a) (Prefix_Bits a - 1))"
  note sp = siblings_parent [OF oks sib]
  have "Prefix_Bits a \<noteq> 0" using sib oks by (simp add: siblings_def Bits_zero_iff)
  then have "?q = p"
    using ok_eq [OF sp(1) ok] sp(3) fab fb parent_simps [OF oks(1)] by (simp add: a_def)
  with sp(2) oks sib fab(1) that show thesis by simp
qed

text \<open>Whatever a canonical list covers, one of its prefixes covers.\<close>

lemma canonical_cover:
  assumes "canonical ys" "pfx_ok p" "paddrs p \<subseteq> addrs ys"
  shows "\<exists>q \<in> set ys. pcovers q p"
  using assms(2,3)
proof (induction "free_bits p" arbitrary: p)
  case 0
  have "Prefix_Addr p \<in> addrs ys"
    using 0 Contains_self [OF 0(2)] by (auto simp: paddrs_def)
  then show ?case using 0(1) by (auto simp: addrs_def paddrs_def pcovers_def)
next
  case (Suc k)
  have ok: "\<forall>q \<in> set ys. pfx_ok q" using assms(1) by (simp add: canonical_def agg_inv_def)
  obtain a b where ab: "pfx_ok a" "pfx_ok b" "siblings a b" "free_bits a = k"
    "paddrs p = paddrs a \<union> paddrs b" using split_prefix [OF Suc.prems(1) Suc.hyps(2) [symmetric]] .
  then have "free_bits b = k" by (simp add: siblings_def)
  with ab Suc obtain q r where qr: "q \<in> set ys" "pcovers q a" "r \<in> set ys" "pcovers r b"
    by (metis Un_subset_iff)
  have up: "pcovers s p" if "s \<in> set ys" "pcovers s c" "pfx_ok c" "paddrs c \<subseteq> paddrs p" "Suc k \<le> free_bits s"
    for s c
    using that ok Suc meet_covers [of p s "Prefix_Addr c"] Contains_self [of c]
    by (auto simp: pcovers_def paddrs_def)
  show ?case
  proof (cases "Suc k \<le> free_bits q \<or> Suc k \<le> free_bits r")
    case True
    then show ?thesis using up [of q a] up [of r b] qr ab by blast
  next
    case False
    with qr ab \<open>free_bits b = k\<close> have "free_bits q = free_bits a" "free_bits r = free_bits b"
      by (auto simp: pcovers_def)
    with qr ab ok have "q = a" "r = b" by (auto simp: pcovers_def Contains_ok intro!: ok_eq)
    with qr ab assms(1) show ?thesis by (auto simp: canonical_def)
  qed
qed

lemma agg_inv_pcovers_eq:
  "agg_inv ps \<Longrightarrow> p \<in> set ps \<Longrightarrow> q \<in> set ps \<Longrightarrow> pcovers p q \<Longrightarrow> p = q"
  by (metis agg_inv_nth(2,3) in_set_conv_nth linorder_neqE_nat)

lemma agg_inv_distinct: "agg_inv ps \<Longrightarrow> distinct ps"
proof -
  assume inv: "agg_inv ps"
  have "ps ! i \<noteq> ps ! j" if "i < j" "j < length ps" for i j
    using agg_inv_nth [OF inv that] agg_inv_ok [OF inv] that Contains_self [of "ps ! j"]
    by (auto simp: pcovers_def)
  then show "distinct ps" by (metis distinct_conv_nth linorder_neqE_nat)
qed

lemma canonical_subset:
  assumes "canonical xs" "canonical ys" "addrs xs = addrs ys"
  shows "set xs \<subseteq> set ys"
proof
  fix p assume p: "p \<in> set xs"
  have inv: "agg_inv xs" "agg_inv ys" using assms by (simp_all add: canonical_def)
  then have ok: "\<forall>p \<in> set xs. pfx_ok p" "\<forall>p \<in> set ys. pfx_ok p" by (simp_all add: agg_inv_ok)
  have sub: "paddrs c \<subseteq> addrs cs" if "c \<in> set cs" for c cs using that by (auto simp: addrs_def)
  obtain q where q: "q \<in> set ys" "pcovers q p"
    using canonical_cover [OF assms(2)] p ok sub [OF p] assms(3) by blast
  obtain p' where p': "p' \<in> set xs" "pcovers p' q"
    using canonical_cover [OF assms(1)] q ok sub [OF q(1)] assms(3) by blast
  have "Contains q (Prefix_Addr p)" "Contains p (Prefix_Addr p)"
    using q p ok Contains_self by (auto simp: pcovers_def)
  moreover have "Contains p' (Prefix_Addr p)"
    using calculation p' q ok pcovers_subset [of q p'] by (auto simp: paddrs_def)
  ultimately have "pcovers p' p"
    using p p' q ok meet_covers [of p p' "Prefix_Addr p"] by (auto simp: pcovers_def)
  then have "p' = p" using agg_inv_pcovers_eq [OF inv(1)] p p' by blast
  then have "p = q" using p' q p ok pcovers_antisym [of p q] by blast
  with q show "p \<in> set ys" by simp
qed

lemma canonical_unique:
  assumes "canonical xs" "canonical ys" "addrs xs = addrs ys"
  shows "xs = ys"
proof (rule sorted_distinct_set_unique)
  show "sorted xs" "sorted ys" using assms by (simp_all add: canonical_def agg_inv_def)
  show "distinct xs" "distinct ys" using assms by (simp_all add: canonical_def agg_inv_distinct)
  show "set xs = set ys"
    using canonical_subset [OF assms] canonical_subset [OF assms(2,1)] assms(3) by blast
qed

lemma canonical_minimal:
  assumes "canonical xs" "\<forall>z \<in> set zs. pfx_ok z" "addrs zs = addrs xs"
  shows "length xs \<le> length zs"
proof -
  have inv: "agg_inv xs" using assms by (simp add: canonical_def)
  have "\<forall>p \<in> set xs. \<exists>z. z \<in> set zs \<and> pcovers p z"
  proof
    fix p assume p: "p \<in> set xs"
    have ok: "pfx_ok p" using p agg_inv_ok [OF inv] by simp
    have "Prefix_Addr p \<in> addrs zs"
      using p Contains_self [OF ok] assms(3) by (auto simp: addrs_def paddrs_def)
    then obtain z where z: "z \<in> set zs" "Contains z (Prefix_Addr p)"
      by (auto simp: addrs_def paddrs_def)
    then have okz: "pfx_ok z" using assms(2) by blast
    have "paddrs z \<subseteq> addrs xs" using z assms(3) by (auto simp: addrs_def)
    then obtain p' where p': "p' \<in> set xs" "pcovers p' z"
      using canonical_cover [OF assms(1) okz] by blast
    have okp': "pfx_ok p'" using p' agg_inv_ok [OF inv] by simp
    have "Contains p' (Prefix_Addr p)" using pcovers_subset [OF okz okp' p'(2)] z by (auto simp: paddrs_def)
    then have "pcovers p' p \<or> pcovers p p'"
      using ok okp' Contains_self [OF ok] meet_covers linear by metis
    then have "p' = p" using agg_inv_pcovers_eq [OF inv] p p' by metis
    with p' z show "\<exists>z. z \<in> set zs \<and> pcovers p z" by blast
  qed
  then obtain f where f: "\<forall>p \<in> set xs. f p \<in> set zs \<and> pcovers p (f p)" by metis
  have "inj_on f (set xs)"
  proof (rule inj_onI)
    fix p q assume pq: "p \<in> set xs" "q \<in> set xs" "f p = f q"
    have "Contains p (Prefix_Addr (f p))" "Contains q (Prefix_Addr (f p))"
      using f pq by (auto simp: pcovers_def)
    then have "pcovers q p \<or> pcovers p q"
      using pq agg_inv_ok [OF inv] meet_covers linear by metis
    then show "p = q" using agg_inv_pcovers_eq [OF inv] pq by metis
  qed
  then have "card (set xs) \<le> card (set zs)" using f by (auto intro: card_inj_on_le)
  moreover have "card (set zs) \<le> length zs" by (rule card_length)
  ultimately show ?thesis using agg_inv_distinct [OF inv] by (simp add: distinct_card)
qed

section \<open>Normalisation\<close>

lemma Normalize_loop_spec:
  assumes "set valid = seen" "distinct valid" "\<forall>p \<in> set ps. pfx_wf p"
  shows "distinct (Normalize_loop seen valid ps)"
    "set (Normalize_loop seen valid ps) = seen \<union> Masked ` {p \<in> set ps. Prefix_IsValid p}"
  using assms by (induction seen valid ps rule: Normalize_loop.induct) auto

lemma Normalize_False:
  assumes "\<forall>p \<in> set ps. pfx_wf p"
  shows "sorted (Normalize ps False)" "distinct (Normalize ps False)"
    "set (Normalize ps False) = Masked ` {p \<in> set ps. Prefix_IsValid p}"
  using Normalize_loop_spec [of "[]" "{}" ps] assms
  by (simp_all add: Normalize_def sortPrefixes_def)

lemma Normalize_True: "Normalize ps True = Aggregate (Normalize ps False)"
  by (simp add: Normalize_def)

lemma Normalize_False_ok:
  assumes "\<forall>p \<in> set ps. pfx_wf p"
  shows "\<forall>p \<in> set (Normalize ps False). pfx_ok p" "addrs (Normalize ps False) = addrs ps"
proof -
  show "\<forall>p \<in> set (Normalize ps False). pfx_ok p"
    using Normalize_False(3) [OF assms] assms Masked_ok by auto
  have "Contains p a \<Longrightarrow> Prefix_IsValid p" for p a by (simp add: Contains_def)
  then show "addrs (Normalize ps False) = addrs ps"
    using Normalize_False(3) [OF assms] assms Contains_Masked
    by (auto simp: addrs_def paddrs_def)
qed

lemma Normalize_True_canonical:
  assumes "\<forall>p \<in> set ps. pfx_wf p"
  shows "canonical (Normalize ps True)" "addrs (Normalize ps True) = addrs ps"
  using Aggregate_spec [OF Normalize_False_ok(1) [OF assms]] Normalize_False_ok(2) [OF assms]
  by (simp_all add: Normalize_True)

lemma canonicalD:
  assumes "canonical ps"
  shows "\<forall>p \<in> set ps. pfx_ok p" "sorted ps" "distinct ps"
  using assms by (simp_all add: canonical_def agg_inv_distinct) (simp_all add: agg_inv_def)

lemma Normalize_spec:
  assumes "\<forall>p \<in> set ps. pfx_wf p"
  shows "\<forall>p \<in> set (Normalize ps aggregate). pfx_ok p" "addrs (Normalize ps aggregate) = addrs ps"
    "sorted (Normalize ps aggregate)" "distinct (Normalize ps aggregate)"
  using Normalize_False_ok [OF assms] Normalize_False [OF assms] Normalize_True_canonical [OF assms]
    canonicalD [of "Normalize ps True"]
  by (cases aggregate; simp)+

text \<open>Normalising twice is normalising once.\<close>

lemma Normalize_idem:
  assumes "\<forall>p \<in> set ps. pfx_wf p"
  shows "Normalize (Normalize ps aggregate) aggregate = Normalize ps aggregate"
proof -
  note once = Normalize_spec [OF assms, of aggregate]
  have wf: "\<forall>p \<in> set (Normalize ps aggregate). pfx_wf p" using once(1) by (simp add: pfx_ok_def)
  show ?thesis
  proof (cases aggregate)
    case True
    then show ?thesis
      using canonical_unique Normalize_True_canonical [OF assms] Normalize_True_canonical [OF wf] by simp
  next
    case False
    have "Masked ` {p \<in> set (Normalize ps False). Prefix_IsValid p} = (\<lambda>p. p) ` set (Normalize ps False)"
      using once(1) False by (intro image_cong) (auto simp: pfx_ok_def)
    then have "set (Normalize (Normalize ps False) False) = set (Normalize ps False)"
      using Normalize_False(3) [of "Normalize ps False"] wf False by simp
    then show ?thesis
      using Normalize_False(1,2) [OF assms] Normalize_False(1,2) [of "Normalize ps False"] wf False
      by (simp add: sorted_distinct_set_unique)
  qed
qed

end
