(* ===== verification/Samples.thy ===== *)
theory Samples
  imports Netlink_Table Aggregate_Correct
begin

text \<open>
  Concrete values: two neighbouring networks, gateways, a configuration. The properties are applied
  to them at the end of each section of the root theory.
\<close>

definition net_a :: Prefix where
  "net_a = MkPrefix (Addr4 0x0A000000) 26"

definition net_b :: Prefix where
  "net_b = MkPrefix (Addr4 0x0A000080) 26"

lemma nets_ok [simp]: "pfx_ok net_a" "pfx_ok net_b" "pfx_wf net_a" "pfx_wf net_b"
  "Prefix_IsValid net_a" "Prefix_IsValid net_b"
  by (simp_all add: pfx_ok_iff pfx_wf_def net_a_def net_b_def Prefix_IsValid_def free_bits_def)

definition hop4 :: Addr where
  "hop4 = Addr4 0x0A000001"

definition sample_route :: "Prefix \<Rightarrow> Route" where
  "sample_route p = zero_Route\<lparr>rt_Group := ''g'', rt_Table := 100, rt_Protocol := 99, rt_Dst := p,
     rt_Dev := ''eth0'', rt_LinkIndex := 2, rt_Via := hop4\<rparr>"

definition sample_rule :: Rule where
  "sample_rule = zero_Rule\<lparr>ru_Group := ''g'', ru_Priority := 1000, ru_Table := 100\<rparr>"

lemma nets_neq: "net_a \<noteq> net_b"
  by (simp add: net_a_def net_b_def)

definition sample_target :: TargetConfig where
  "sample_target = \<lparr>tg_Table = 100, tg_Dev = ''eth0'', tg_Via = '''', tg_Via4 = '''', tg_Via6 = '''',
     tg_OnLink = False, tg_Family = ''ipv4'', tg_HealthCheck = zero_HealthCheck, tg_Gateways = [],
     tg_Default = None, tg_ExcludeLocalIPs = False, tg_ExcludePrefixes = []\<rparr>"

definition sample_cfg_group :: RouteGroup where
  "sample_cfg_group = \<lparr>g_Name = ''g'', g_Enabled = True,
     g_Source = \<lparr>sc_Type = ''txt'', sc_Country = '''', sc_URL = ''/etc/nets.txt''\<rparr>, g_Target = sample_target,
     g_Rule = \<lparr>rc_Enabled = True, rc_Priority = 1000, rc_FWMark = 0, rc_Mask = 0, rc_Table = 100, rc_From = ''''\<rparr>\<rparr>"

definition sample_input :: "Route list \<Rightarrow> Rule list \<Rightarrow> InputGroup" where
  "sample_input routes rules = \<lparr>ig_Config = sample_cfg_group, ig_Prefixes = [net_a], ig_ThrowPrefixes = [],
     ig_CoveredLocalAddrs = [], ig_SourceType = ''txt'', ig_FromFallback = False, ig_LinkIndex = 2,
     ig_DefaultLinkIndex = 0, ig_TargetHops = [], ig_DefaultHops = [], ig_CurrentRoutes = routes,
     ig_CurrentRules = rules\<rparr>"

definition wanted_route :: Route where
  "wanted_route = zero_Route\<lparr>rt_Group := ''g'', rt_Table := 100, rt_Protocol := 99, rt_Dst := net_a,
     rt_Dev := ''eth0'', rt_LinkIndex := 2\<rparr>"

definition stale_route :: Route where
  "stale_route = zero_Route\<lparr>rt_Table := 100, rt_Protocol := 99, rt_Dst := net_b, rt_LinkIndex := 2\<rparr>"

definition sample_world :: LinuxState where
  "sample_world = \<lparr>ls_links = [(''eth0'', 2)], ls_routes = [nl_route_msg stale_route], ls_rules = [],
     ls_files = [(''/etc/nets.txt'', ''10.0.0.0/25'' @ [CHR 0x0A])], ls_web = []\<rparr>"

lemma sample_desired: "group_desired 99 (sample_input rs us) = [wanted_route]"
  by (simp add: group_desired_def desiredRoutes_def plan_prefixes_def sample_input_def sample_cfg_group_def sample_target_def
   FilterFamily_def removePrefixesCoveringAddrs_def filterAddrsByFamily_def net_a_def target_routes_def matchingHops_def
   base_route_def routeVia_def nextHopVia_def wanted_route_def zero_Route_def)

lemma sample_current: "ig_CurrentRoutes (sample_input rs us) = rs" "ig_CurrentRules (sample_input rs us) = us"
  by (simp_all add: sample_input_def)

lemma sample_plain: "route_plain stale_route" "route_plain wanted_route"
  by (simp_all add: route_plain_def stale_route_def wanted_route_def zero_Route_def RouteTypeUnicast_def) (simp_all add: net_a_def net_b_def)

lemma sample_owned: "routes_CurrentOwned (NetlinkKernel linux_nl) 100 99 ''ipv4'' sample_world = Inr [stale_route]"
proof -
  have "nl_dst_family (nl_route_msg stale_route) = FAMILY_V4"
    using nl_family_msg [OF sample_plain(1), of 4] by (simp add: family_of_def stale_route_def net_b_def)
  moreover have "nl_Table (nl_route_msg stale_route) = 100" "nl_Protocol (nl_route_msg stale_route) = 99"
    by (simp_all add: stale_route_def)
  moreover have "strip stale_route = stale_route" by (simp add: strip_def stale_route_def zero_Route_def)
  ultimately show ?thesis using route_of_nl_msg [OF sample_plain(1)]
  by (simp add: routes_CurrentOwned_def list_families_def wants4_def wants6_def NetlinkKernel_def nl_ListRoutes_def linux_nl_def
     sample_world_def family_of_def List.map_filter_def)
qed

lemma sample_keys: "routeKey wanted_route \<noteq> routeKey stale_route"
  using routeKey_iff [of wanted_route stale_route] by (simp add: wanted_route_def stale_route_def route_fields_def net_a_def net_b_def pfx_wf_def Prefix_IsValid_def)

lemma sample_diff: "diffRoutes (\<lambda>ks. ks) (\<lambda>ks. ks) [wanted_route] [stale_route] = ([wanted_route], [stale_route])"
  using sample_keys by (simp add: diffRoutes_def key_map_def missing_def go_map_range_def)

lemma sample_apply_at:
  assumes w: "ls_routes w = [nl_route_msg stale_route]"
  shows "fst (routes_Apply (NetlinkKernel linux_nl) (plan_Groups (Build (\<lambda>i j ks. ks) 99 [sample_input [stale_route] us])) w) = None"
proof -
  have gp: "gp_RoutesToAdd (build_group (\<lambda>j ks. ks) 99 (sample_input [stale_route] us)) = [wanted_route]"
    "gp_RoutesToRemove (build_group (\<lambda>j ks. ks) 99 (sample_input [stale_route] us)) = [stale_route]"
    using build_group_routes [of "\<lambda>j ks. ks" 99 "sample_input [stale_route] us"] sample_diff by (simp_all add: sample_desired sample_current)
  have id: "routeIdentity stale_route \<noteq> routeIdentity wanted_route"
    using Prefix_String_inj [of net_a net_b] nets_neq by (auto simp: routeIdentity_def wanted_route_def stale_route_def)
  have ident: "nl_ident (nl_route_msg stale_route) \<noteq> nl_ident (nl_route_msg wanted_route)"
    using nl_ident_msg [OF sample_plain] by (simp add: wanted_route_def stale_route_def net_a_def net_b_def)
  show ?thesis
    by (simp add: routes_Apply_ops route_ops_def Build_groups pass1_def pass2_def pre_removals_def post_removals_def gp id
      NetlinkKernel_routes linux_nl_def linux_RouteAdd_def linux_RouteDel_def w ident ignoreExists_def ignoreNotFound_def)
qed

lemma sample_apply: "fst (routes_Apply (NetlinkKernel linux_nl) (plan_Groups (Build (\<lambda>i j ks. ks) 99 [sample_input [stale_route] us])) sample_world) = None"
  by (rule sample_apply_at) (simp add: sample_world_def)

lemma sample_invar: "linux_invar sample_world"
  using sample_plain by (auto simp: linux_invar_def sample_world_def nl_plain_def)

abbreviation sample_plan :: "GroupPlan list" where
  "sample_plan \<equiv> plan_Groups (Build (\<lambda>i j ks. ks) 99 [sample_input [stale_route] []])"

definition sample_after :: LinuxState where
  "sample_after = snd (routes_Apply (NetlinkKernel linux_nl) sample_plan sample_world)"

lemma sample_apply_after: "routes_Apply (NetlinkKernel linux_nl) sample_plan sample_world = (None, sample_after)"
  using sample_apply by (simp add: sample_after_def prod_eq_iff)

lemma sample_group: "group_table (sample_input rs us) = 100" "group_family (sample_input rs us) = ''ipv4''"
  by (simp_all add: group_table_def group_family_def sample_input_def sample_cfg_group_def sample_target_def)

lemma sample_ready: "routes_ready linux_nl (linux_fib sample_world) 99 [sample_input [stale_route] []] sample_world"
proof -
  have "x \<in> owned_entries 99 [sample_input [stale_route] []]" if x: "x \<in> fib_entries (linux_fib sample_world)" for x
  proof -
    have fib: "linux_fib sample_world = {nl_route_msg stale_route}" by (simp add: linux_fib_def sample_world_def)
    then obtain r where "route_plain r" "x = route_fields r" "nl_route_msg r = nl_route_msg stale_route"
      using x by (auto simp: fib_entries_def)
    then have "x = route_fields stale_route" using nl_route_msg_inj sample_plain(1) by blast
    then show ?thesis
      by (simp add: owned_entries_single sample_group family_owned_def wants4_def) (simp add: stale_route_def net_b_def)
  qed
  then show ?thesis
    by (simp add: routes_ready_def sample_group sample_desired sample_current sample_owned sample_plain)
qed

lemma sample_input_config: "ig_Config (sample_input rs us) = sample_cfg_group"
  by (simp add: sample_input_def)

definition sample_listed :: "Route list" where
  "sample_listed = List.map_filter route_of_nl (filter (\<lambda>m. nl_Table m = 100 \<and> nl_Protocol m = 99
     \<and> nl_dst_family m = FAMILY_V4) (ls_routes sample_after))"

lemma sample_after_owned:
  "routes_CurrentOwned (NetlinkKernel linux_nl) 100 99 ''ipv4'' sample_after = Inr sample_listed"
  by (simp add: routes_CurrentOwned_def list_families_def wants4_def wants6_def NetlinkKernel_def nl_ListRoutes_def
      linux_nl_def family_of_def sample_listed_def)

lemma sample_valid: "validateGroup sample_cfg_group = []"
  by (simp add: validateGroup_def sample_cfg_group_def sample_target_def target_hop_def validateNextHop.simps
      validateHealthCheck_def zero_HealthCheck_def)

definition wanted_rule :: Rule where
  "wanted_rule = zero_Rule\<lparr>ru_Group := ''g'', ru_Priority := 1000, ru_Table := 100\<rparr>"

lemma sample_desiredRules: "desiredRules (sample_input rs us) = [wanted_rule]"
  by (simp add: desiredRules_def sample_input_def sample_cfg_group_def wanted_rule_def zero_Rule_def)

lemma sample_rule_plain: "rule_plain wanted_rule"
  by (simp add: rule_plain_def wanted_rule_def zero_Rule_def)

lemma sample_rules_ready:
  "rules_ready linux_nl linux_rule_family (linux_rules sample_world) 1000 10 [sample_input rs []] sample_world"
proof -
  have "rules_CurrentOwned (NetlinkKernel linux_nl) 100 1000 1000 10 ''ipv4'' sample_world = Inr []"
    by (simp add: rules_CurrentOwned_def list_families_def wants4_def wants6_def NetlinkKernel_def nl_ListRules_def
        linux_nl_def sample_world_def Let_def)
  moreover have "rule_entries linux_nl (linux_rules sample_world) = {}"
    by (simp add: rule_entries_def linux_rules_def sample_world_def)
  moreover have "rc_Priority (g_Rule (ig_Config (sample_input rs []))) = 1000" "ru_Table wanted_rule = 100"
    by (simp_all add: sample_input_def sample_cfg_group_def wanted_rule_def)
  ultimately show ?thesis
    by (simp add: rules_ready_def sample_group sample_desiredRules sample_current sample_rule_plain)
qed

lemma sample_rules_apply_at:
  assumes w: "ls_rules w = []"
  shows "fst (rules_Apply (NetlinkKernel linux_nl) (plan_Groups (Build (\<lambda>i j ks. ks) 99 [sample_input rs []])) w) = None"
proof -
  have gp: "gp_RulesToAdd (build_group (\<lambda>j ks. ks) 99 (sample_input rs [])) = [wanted_rule]"
    "gp_RulesToRemove (build_group (\<lambda>j ks. ks) 99 (sample_input rs [])) = []"
    using build_group_rules [of "\<lambda>j ks. ks" 99 "sample_input rs []"]
    by (simp_all add: sample_desiredRules sample_current diffRules_def key_map_def missing_def go_map_range_def)
  show ?thesis
    by (simp add: rules_Apply_ops rule_ops_def Build_groups gp NetlinkKernel_rules linux_nl_def linux_RuleAdd_def
        w ignoreExists_def)
qed

lemma sample_rules_apply:
  "fst (rules_Apply (NetlinkKernel linux_nl) (plan_Groups (Build (\<lambda>i j ks. ks) 99 [sample_input rs []])) sample_world) = None"
  by (rule sample_rules_apply_at) (simp add: sample_world_def)

lemma be_digits_4:
  "be_digits 256 4 n = [n div 256 div 256 div 256 mod 256, n div 256 div 256 mod 256, n div 256 mod 256, n mod 256]"
proof -
  have four: "4 = Suc (Suc (Suc (Suc 0)))" by simp
  show ?thesis unfolding four by simp
qed

lemma net_strings: "Prefix_String net_a = ''10.0.0.0/25''" "Prefix_String net_b = ''10.0.0.128/25''"
  by (simp_all add: Prefix_String_def net_a_def net_b_def Prefix_IsValid_def Prefix_Bits_def string4_def be_digits_4
      Itoa_def radix_str.simps digit_char_def char_of_def bit_0)

end
