(* ===== verification/Json.thy ===== *)
theory Json
  imports Go_Prelude
begin

text \<open>
  The part of \<open>encoding/json\<close> the program uses: the syntax check and the value tree of a text, the
  unquoting and quoting of strings over UTF-8 bytes, and the storing of a tree into struct fields
  with its case-insensitive key match. Numbers are kept as their text.
\<close>

section \<open>UTF-8\<close>

abbreviation bv :: "char \<Rightarrow> nat" where
  "bv c \<equiv> of_char c"

definition is_cont :: "char \<Rightarrow> bool" where
  "is_cont c \<longleftrightarrow> 128 \<le> bv c \<and> bv c \<le> 191"

text \<open>\<open>utf8.DecodeRune\<close>: the length of the well-formed rune at the head, if there is one.\<close>

fun rune_len :: "string \<Rightarrow> nat option" where
  "rune_len [] = None"
| "rune_len (c # s) =
     (let b = bv c in
      if b < 128 then Some 1
      else if 194 \<le> b \<and> b \<le> 223 then (case s of c1 # _ \<Rightarrow> if is_cont c1 then Some 2 else None | [] \<Rightarrow> None)
      else if 224 \<le> b \<and> b \<le> 239 then
        (case s of c1 # c2 # _ \<Rightarrow>
            if is_cont c1 \<and> (b = 224 \<longrightarrow> 160 \<le> bv c1) \<and> (b = 237 \<longrightarrow> bv c1 \<le> 159) \<and> is_cont c2
            then Some 3 else None
         | _ \<Rightarrow> None)
      else if 240 \<le> b \<and> b \<le> 244 then
        (case s of c1 # c2 # c3 # _ \<Rightarrow>
            if is_cont c1 \<and> (b = 240 \<longrightarrow> 144 \<le> bv c1) \<and> (b = 244 \<longrightarrow> bv c1 \<le> 143) \<and> is_cont c2 \<and> is_cont c3
            then Some 4 else None
         | _ \<Rightarrow> None)
      else None)"

text \<open>\<open>utf8.EncodeRune\<close>; surrogates and values out of range become U+FFFD.\<close>

definition encode_rune :: "nat \<Rightarrow> string" where
  "encode_rune n =
     (let n = (if 55296 \<le> n \<and> n \<le> 57343 \<or> 1114111 < n then 65533 else n) in
      if n < 128 then [byte n]
      else if n < 2048 then [byte (192 + n div 64), byte (128 + n mod 64)]
      else if n < 65536 then [byte (224 + n div 4096), byte (128 + n div 64 mod 64), byte (128 + n mod 64)]
      else [byte (240 + n div 262144), byte (128 + n div 4096 mod 64), byte (128 + n div 64 mod 64),
            byte (128 + n mod 64)])"

definition replacement :: string where
  "replacement = encode_rune 65533"

lemma rune_len_bounds: "rune_len s = Some k \<Longrightarrow> 0 < k \<and> k \<le> length s"
  by (cases s) (auto simp: Let_def split: if_splits list.splits)

declare rune_len.simps(2) [simp del]

section \<open>Strings\<close>

definition hex4 :: "string \<Rightarrow> nat option" where
  "hex4 s = (if length s < 4 then None else radix_val 16 (take 4 s))"

text \<open>A \<open>\u\<close> escape at the head of the text, for the second half of a surrogate pair.\<close>

fun low_escape :: "string \<Rightarrow> nat option" where
  "low_escape (a # b # s) = (if a = CHR 0x5C \<and> b = CHR ''u'' then hex4 s else None)"
| "low_escape s = None"

definition pair_rune :: "nat \<Rightarrow> nat \<Rightarrow> nat option" where
  "pair_rune hi lo = (if 55296 \<le> hi \<and> hi \<le> 56319 \<and> 56320 \<le> lo \<and> lo \<le> 57343
     then Some ((hi - 55296) * 1024 + (lo - 56320) + 65536) else None)"

definition simple_escape :: "char \<Rightarrow> char option" where
  "simple_escape e =
     (if e = CHR 0x22 \<or> e = CHR 0x5C \<or> e = CHR ''/'' then Some e
      else if e = CHR ''b'' then Some (byte 8) else if e = CHR ''f'' then Some (byte 12)
      else if e = CHR ''n'' then Some (byte 10) else if e = CHR ''r'' then Some (byte 13)
      else if e = CHR ''t'' then Some (byte 9) else None)"

text \<open>The text after an opening quote: the unquoted string and what follows the closing quote.\<close>

function parse_str :: "string \<Rightarrow> (string \<times> string) option" where
  "parse_str [] = None"
| "parse_str (c # s) =
     (if c = CHR 0x22 then Some ([], s)
      else if c = CHR 0x5C then
        (case s of
           [] \<Rightarrow> None
         | e # t \<Rightarrow>
             if e = CHR ''u'' then
               (case hex4 t of
                  None \<Rightarrow> None
                | Some rr \<Rightarrow>
                    if 55296 \<le> rr \<and> rr \<le> 57343 then
                      (case low_escape (drop 4 t) of
                         None \<Rightarrow> map_option (\<lambda>(v, r). (replacement @ v, r)) (parse_str (drop 4 t))
                       | Some rr1 \<Rightarrow>
                           (case pair_rune rr rr1 of
                              None \<Rightarrow> map_option (\<lambda>(v, r). (replacement @ v, r)) (parse_str (drop 4 t))
                            | Some u \<Rightarrow> map_option (\<lambda>(v, r). (encode_rune u @ v, r)) (parse_str (drop 10 t))))
                    else map_option (\<lambda>(v, r). (encode_rune rr @ v, r)) (parse_str (drop 4 t)))
             else (case simple_escape e of
                 None \<Rightarrow> None
               | Some x \<Rightarrow> map_option (\<lambda>(v, r). (x # v, r)) (parse_str t)))
      else if bv c < 32 then None
      else (case rune_len (c # s) of
          None \<Rightarrow> map_option (\<lambda>(v, r). (replacement @ v, r)) (parse_str s)
        | Some k \<Rightarrow> map_option (\<lambda>(v, r). (take k (c # s) @ v, r)) (parse_str (drop k (c # s)))))"
  by pat_completeness auto
termination
  by (relation "measure length") (auto dest: rune_len_bounds)

declare parse_str.simps(2) [simp del]

text \<open>The quoting of \<open>json.Marshal\<close>, which also escapes the characters special to HTML.\<close>

definition quote_ascii :: "char \<Rightarrow> string" where
  "quote_ascii c =
     (if c = CHR 0x5C \<or> c = CHR 0x22 then [CHR 0x5C, c]
      else if bv c = 8 then [CHR 0x5C, CHR ''b''] else if bv c = 12 then [CHR 0x5C, CHR ''f'']
      else if bv c = 10 then [CHR 0x5C, CHR ''n''] else if bv c = 13 then [CHR 0x5C, CHR ''r'']
      else if bv c = 9 then [CHR 0x5C, CHR ''t'']
      else if bv c < 32 \<or> c = CHR ''<'' \<or> c = CHR ''>'' \<or> c = CHR 0x26
        then [CHR 0x5C, CHR ''u'', CHR ''0'', CHR ''0'', digit_char (bv c div 16), digit_char (bv c mod 16)]
      else [c])"

definition line_separators :: "(string \<times> string) list" where
  "line_separators = [(encode_rune 8232, CHR 0x5C # ''u2028''), (encode_rune 8233, CHR 0x5C # ''u2029'')]"

function quote_body :: "string \<Rightarrow> string" where
  "quote_body [] = []"
| "quote_body (c # s) =
     (if bv c < 128 then quote_ascii c @ quote_body s
      else (case rune_len (c # s) of
          None \<Rightarrow> (CHR 0x5C # ''ufffd'') @ quote_body s
        | Some k \<Rightarrow>
            (case map_of line_separators (take k (c # s)) of None \<Rightarrow> take k (c # s) | Some e \<Rightarrow> e)
            @ quote_body (drop k (c # s))))"
  by pat_completeness auto
termination
  by (relation "measure length") (auto dest: rune_len_bounds)

declare quote_body.simps(2) [simp del]

definition quote :: "string \<Rightarrow> string" where
  "quote s = CHR 0x22 # quote_body s @ [CHR 0x22]"

text \<open>What is left of a string after quoting and unquoting: malformed bytes are replaced.\<close>

function to_valid_utf8 :: "string \<Rightarrow> string" where
  "to_valid_utf8 [] = []"
| "to_valid_utf8 (c # s) =
     (case rune_len (c # s) of
        None \<Rightarrow> replacement @ to_valid_utf8 s
      | Some k \<Rightarrow> take k (c # s) @ to_valid_utf8 (drop k (c # s)))"
  by pat_completeness auto
termination
  by (relation "measure length") (auto dest: rune_len_bounds)

declare to_valid_utf8.simps(2) [simp del]

section \<open>Quoting and unquoting\<close>

lemma bv_byte [simp]: "n < 256 \<Longrightarrow> bv (byte n) = n"
  by (simp add: byte_def)

lemma rune_len_ascii: "bv c < 128 \<Longrightarrow> rune_len (c # s) = Some 1"
  by (simp add: rune_len.simps)

lemma rune_len_take:
  assumes "rune_len s = Some k"
  shows "rune_len (take k s @ t) = Some k"
  using assms by (cases s) (auto simp: rune_len.simps Let_def split: if_splits list.splits)

lemma encode_rune_ascii: "n < 128 \<Longrightarrow> encode_rune n = [byte n]"
  by (simp add: encode_rune_def)

lemma parse_str_plain:
  assumes "c \<noteq> CHR 0x22" "c \<noteq> CHR 0x5C" "32 \<le> bv c" "rune_len (c # s) = Some k"
  shows "parse_str (take k (c # s) @ t) = map_option (\<lambda>(v, r). (take k (c # s) @ v, r)) (parse_str t)"
proof -
  have k: "0 < k" "k \<le> length (c # s)" using rune_len_bounds [OF assms(4)] by auto
  define u where "u = take (k - 1) s"
  have u: "take k (c # s) = c # u" "k = Suc (length u)" using k by (cases k; simp add: u_def)+
  have "rune_len (c # u @ t) = Some k" using rune_len_take [OF assms(4), of t] u(1) by simp
  then show ?thesis using assms(1-3) u by (simp add: parse_str.simps)
qed

lemma hex4_digits:
  assumes "a < 16" "b < 16" "c < 16" "d < 16"
  shows "hex4 (digit_char a # digit_char b # digit_char c # digit_char d # s) = Some (((a * 16 + b) * 16 + c) * 16 + d)"
  using assms by (simp add: hex4_def radix_val_def eval_nat_numeral)

lemma parse_str_u:
  assumes "hex4 (h @ t) = Some rr" "length h = 4" "\<not> (55296 \<le> rr \<and> rr \<le> 57343)"
  shows "parse_str (CHR 0x5C # CHR ''u'' # h @ t) = map_option (\<lambda>(v, r). (encode_rune rr @ v, r)) (parse_str t)"
proof -
  have "drop 4 (h @ t) = t" using assms(2) by simp
  then show ?thesis using assms(1,3) by (auto simp: parse_str.simps)
qed

lemma zero_digit_char: "CHR ''0'' = digit_char 0"
  by code_simp

lemma parse_str_quote_ascii:
  assumes "bv c < 128"
  shows "parse_str (quote_ascii c @ t) = map_option (\<lambda>(v, r). (c # v, r)) (parse_str t)"
proof -
  have c: "c = byte (bv c)" by (simp add: byte_def)
  consider "c = CHR 0x5C \<or> c = CHR 0x22" | "bv c \<in> {8, 9, 10, 12, 13}"
    | "c \<noteq> CHR 0x5C" "c \<noteq> CHR 0x22" "bv c \<notin> {8, 9, 10, 12, 13}"
      "bv c < 32 \<or> c = CHR ''<'' \<or> c = CHR ''>'' \<or> c = CHR 0x26"
    | "c \<noteq> CHR 0x5C" "c \<noteq> CHR 0x22" "32 \<le> bv c" "\<not> (c = CHR ''<'' \<or> c = CHR ''>'' \<or> c = CHR 0x26)"
    by force
  then show ?thesis
  proof cases
    case 1
    then show ?thesis by (auto simp: quote_ascii_def parse_str.simps simple_escape_def)
  next
    case 2
    then have "c \<noteq> CHR 0x5C" "c \<noteq> CHR 0x22" by auto
    then show ?thesis using 2 c by (auto simp: quote_ascii_def parse_str.simps simple_escape_def)
  next
    case 3
    have "hex4 ([CHR ''0'', CHR ''0'', digit_char (bv c div 16), digit_char (bv c mod 16)] @ t) = Some (bv c)"
      using hex4_digits [of 0 0 "bv c div 16" "bv c mod 16" t] assms by (simp add: zero_digit_char)
    from parse_str_u [OF this] 3 assms c show ?thesis by (simp add: quote_ascii_def encode_rune_ascii)
  next
    case 4
    then have "quote_ascii c = [c]" by (auto simp: quote_ascii_def)
    then show ?thesis using parse_str_plain [OF 4(2,1,3) rune_len_ascii [OF assms], of "[]" t] by simp
  qed
qed

text \<open>A quoted string is read back, whatever bytes it holds; only malformed UTF-8 is replaced.\<close>

lemma parse_str_quote_body: "parse_str (quote_body s @ CHR 0x22 # rest) = Some (to_valid_utf8 s, rest)"
proof (induction s rule: quote_body.induct)
  case 1
  then show ?case by (simp add: parse_str.simps)
next
  case (2 c s)
  let ?t = "CHR 0x22 # rest"
  show ?case
  proof (cases "bv c < 128")
    case True
    then show ?thesis using 2(1) parse_str_quote_ascii [OF True]
      by (simp add: quote_body.simps to_valid_utf8.simps rune_len_ascii)
  next
    case big: False
    show ?thesis
    proof (cases "rune_len (c # s)")
      case None
      have "hex4 (''fffd'' @ quote_body s @ ?t) = Some 65533"
        by (simp add: hex4_def radix_val_def digit_value_def)
      from parse_str_u [OF this] big None 2(2) [OF big None] show ?thesis
        by (simp add: quote_body.simps to_valid_utf8.simps replacement_def)
    next
      case (Some k)
      have IH: "parse_str (quote_body (drop k (c # s)) @ ?t) = Some (to_valid_utf8 (drop k (c # s)), rest)"
        by (rule 2(3) [OF big Some])
      have plain: "c \<noteq> CHR 0x22" "c \<noteq> CHR 0x5C" "32 \<le> bv c" using big by auto
      show ?thesis
      proof (cases "map_of line_separators (take k (c # s))")
        case None
        then show ?thesis using big Some IH parse_str_plain [OF plain Some]
          by (simp add: quote_body.simps to_valid_utf8.simps)
      next
        case (Some e)
        then consider "take k (c # s) = encode_rune 8232" "e = CHR 0x5C # CHR ''u'' # ''2028''"
          | "take k (c # s) = encode_rune 8233" "e = CHR 0x5C # CHR ''u'' # ''2029''"
          by (auto simp: line_separators_def split: if_splits)
        then show ?thesis
        proof cases
          case 1
          have "hex4 (''2028'' @ quote_body (drop k (c # s)) @ ?t) = Some 8232"
            by (simp add: hex4_def radix_val_def digit_value_def)
          from parse_str_u [OF this] show ?thesis using big Some 1 IH \<open>rune_len (c # s) = Some k\<close>
            by (simp add: quote_body.simps to_valid_utf8.simps)
        next
          case 2
          have "hex4 (''2029'' @ quote_body (drop k (c # s)) @ ?t) = Some 8233"
            by (simp add: hex4_def radix_val_def digit_value_def)
          from parse_str_u [OF this] show ?thesis using big Some 2 IH \<open>rune_len (c # s) = Some k\<close>
            by (simp add: quote_body.simps to_valid_utf8.simps)
        qed
      qed
    qed
  qed
qed

section \<open>Values\<close>

text \<open>A string keeps its raw text between the quotes next to the unquoted value.\<close>

datatype json = JNull | JBool bool | JNum string | JStr string string | JArr "json list" | JObj "(string \<times> json) list"

definition is_ws :: "char \<Rightarrow> bool" where
  "is_ws c \<longleftrightarrow> c = CHR '' '' \<or> bv c = 9 \<or> bv c = 10 \<or> bv c = 13"

definition skip_ws :: "string \<Rightarrow> string" where
  "skip_ws s = dropWhile is_ws s"

definition is_digit :: "char \<Rightarrow> bool" where
  "is_digit c \<longleftrightarrow> 48 \<le> bv c \<and> bv c \<le> 57"

text \<open>The longest number at the head: sign, integer part without leading zero, fraction, exponent.\<close>

definition num_int :: "string \<Rightarrow> (string \<times> string) option" where
  "num_int s =
     (case s of
        [] \<Rightarrow> None
      | c # t \<Rightarrow> if c = CHR ''0'' then Some ([c], t)
          else if is_digit c then Some (takeWhile is_digit s, dropWhile is_digit s) else None)"

definition num_digits :: "string \<Rightarrow> (string \<times> string) option" where
  "num_digits s = (let d = takeWhile is_digit s in if d = [] then None else Some (d, dropWhile is_digit s))"

definition num_frac :: "string \<Rightarrow> (string \<times> string) option" where
  "num_frac s = (case s of
       c # t \<Rightarrow> if c = CHR ''.'' then map_option (\<lambda>(d, r). (c # d, r)) (num_digits t) else Some ([], s)
     | [] \<Rightarrow> Some ([], []))"

definition num_exp :: "string \<Rightarrow> (string \<times> string) option" where
  "num_exp s = (case s of
       c # t \<Rightarrow>
         if c = CHR ''e'' \<or> c = CHR ''E'' then
           (case t of
              g # u \<Rightarrow> if g = CHR ''+'' \<or> g = CHR ''-'' then map_option (\<lambda>(d, r). (c # g # d, r)) (num_digits u)
                else map_option (\<lambda>(d, r). (c # d, r)) (num_digits t)
            | [] \<Rightarrow> None)
         else Some ([], s)
     | [] \<Rightarrow> Some ([], []))"

definition parse_num :: "string \<Rightarrow> (json \<times> string) option" where
  "parse_num s =
     (let (sign, s1) = (case s of c # t \<Rightarrow> if c = CHR ''-'' then ([c], t) else ([], s) | [] \<Rightarrow> ([], [])) in
      case num_int s1 of
        None \<Rightarrow> None
      | Some (i, s2) \<Rightarrow>
          (case num_frac s2 of
             None \<Rightarrow> None
           | Some (f, s3) \<Rightarrow>
               (case num_exp s3 of None \<Rightarrow> None | Some (e, s4) \<Rightarrow> Some (JNum (sign @ i @ f @ e), s4))))"

definition parse_lit :: "string \<Rightarrow> json \<Rightarrow> string \<Rightarrow> (json \<times> string) option" where
  "parse_lit lit v s = (if take (length lit) s = lit then Some (v, drop (length lit) s) else None)"

definition parse_scalar :: "string \<Rightarrow> (json \<times> string) option" where
  "parse_scalar s =
     (case s of
        [] \<Rightarrow> None
      | c # t \<Rightarrow>
          if c = CHR 0x22
          then map_option (\<lambda>(v, r). (JStr (take (length t - length r - 1) t) v, r)) (parse_str t)
          else if c = CHR ''t'' then parse_lit ''true'' (JBool True) s
          else if c = CHR ''f'' then parse_lit ''false'' (JBool False) s
          else if c = CHR ''n'' then parse_lit ''null'' JNull s
          else parse_num s)"

text \<open>
  A value whose text starts at the head; the first argument is how deep arrays and objects may
  still nest. The recursion goes on with a shorter text, which the guards say.
\<close>

function parse_value :: "nat \<Rightarrow> string \<Rightarrow> (json \<times> string) option"
  and parse_elems :: "nat \<Rightarrow> string \<Rightarrow> (json list \<times> string) option"
  and parse_members :: "nat \<Rightarrow> string \<Rightarrow> ((string \<times> json) list \<times> string) option" where
  "parse_value d s =
     (case s of
        [] \<Rightarrow> None
      | c # t \<Rightarrow>
          if c = CHR ''['' then
            (if d = 0 then None
             else case skip_ws t of
               [] \<Rightarrow> None
             | c' # u \<Rightarrow> if c' = CHR '']'' then Some (JArr [], u)
                 else if length (c' # u) < length s
                   then map_option (\<lambda>(vs, r). (JArr vs, r)) (parse_elems (d - 1) (c' # u)) else None)
          else if c = CHR ''{'' then
            (if d = 0 then None
             else case skip_ws t of
               [] \<Rightarrow> None
             | c' # u \<Rightarrow> if c' = CHR ''}'' then Some (JObj [], u)
                 else if length (c' # u) < length s
                   then map_option (\<lambda>(ms, r). (JObj ms, r)) (parse_members (d - 1) (c' # u)) else None)
          else parse_scalar s)"
| "parse_elems d s =
     (case parse_value d s of
        None \<Rightarrow> None
      | Some (v, r) \<Rightarrow>
          (case skip_ws r of
             [] \<Rightarrow> None
           | c # t \<Rightarrow>
               if c = CHR '']'' then Some ([v], t)
               else if c = CHR '','' \<and> length (skip_ws t) < length s
                 then map_option (\<lambda>(vs, r'). (v # vs, r')) (parse_elems d (skip_ws t)) else None))"
| "parse_members d s =
     (case s of
        [] \<Rightarrow> None
      | c # t \<Rightarrow>
          if c \<noteq> CHR 0x22 then None
          else (case parse_str t of
              None \<Rightarrow> None
            | Some (k, r) \<Rightarrow>
                (case skip_ws r of
                   [] \<Rightarrow> None
                 | c' # u \<Rightarrow>
                     if c' \<noteq> CHR '':'' \<or> \<not> length (skip_ws u) < length s then None
                     else (case parse_value d (skip_ws u) of
                         None \<Rightarrow> None
                       | Some (v, r') \<Rightarrow>
                           (case skip_ws r' of
                              [] \<Rightarrow> None
                            | e # t' \<Rightarrow>
                                if e = CHR ''}'' then Some ([(k, v)], t')
                                else if e = CHR '','' \<and> length (skip_ws t') < length s
                                  then map_option (\<lambda>(ms, r''). ((k, v) # ms, r'')) (parse_members d (skip_ws t'))
                                else None)))))"
  by pat_completeness auto
termination
  by (relation "measure (\<lambda>x. case x of Inl (d, s) \<Rightarrow> 2 * length s
      | Inr (Inl (d, s)) \<Rightarrow> 2 * length s + 1 | Inr (Inr (d, s)) \<Rightarrow> 2 * length s + 1)") auto

declare parse_value.simps [simp del] parse_elems.simps [simp del] parse_members.simps [simp del]

text \<open>The whole text: one value with white space around it; nesting deeper than 10000 is an error.\<close>

definition parse_json :: "string \<Rightarrow> json option" where
  "parse_json s =
     (case parse_value 10000 (skip_ws s) of
        None \<Rightarrow> None
      | Some (v, r) \<Rightarrow> if skip_ws r = [] then Some v else None)"

text \<open>Parsing consumes input, so the guards of the recursion never decide anything.\<close>

lemma length_skip_ws: "length (skip_ws s) \<le> length s"
  by (simp add: skip_ws_def length_dropWhile_le)

lemma parse_str_shorter: "parse_str s = Some (v, r) \<Longrightarrow> length r < length s"
proof (induction s arbitrary: v r rule: parse_str.induct)
  case (2 c s)
  show ?case
  proof (cases "c = CHR 0x22 \<or> c = CHR 0x5C")
    case False
    then show ?thesis
      using 2 by (auto simp: parse_str.simps split: if_splits option.splits dest: rune_len_bounds)
        fastforce+
  next
    case True
    then show ?thesis
      using 2 by (auto simp: parse_str.simps split: if_splits option.splits list.splits) fastforce+
  qed
qed simp

lemma num_parts_le:
  "num_int s = Some (a, r) \<Longrightarrow> length r < length s" "num_frac s = Some (a, r) \<Longrightarrow> length r \<le> length s"
  "num_exp s = Some (a, r) \<Longrightarrow> length r \<le> length s"
proof -
  have digits: "num_digits t = Some (d, u) \<Longrightarrow> length u \<le> length t" for t d u
    by (auto simp: num_digits_def Let_def length_dropWhile_le split: if_splits)
  show "num_int s = Some (a, r) \<Longrightarrow> length r < length s"
    by (cases s) (auto simp: num_int_def le_imp_less_Suc length_dropWhile_le split: if_splits)
  show "num_frac s = Some (a, r) \<Longrightarrow> length r \<le> length s"
    by (cases s) (auto simp: num_frac_def le_SucI split: if_splits dest: digits)
  show "num_exp s = Some (a, r) \<Longrightarrow> length r \<le> length s"
    by (cases s) (fastforce simp: num_exp_def split: if_splits list.splits dest: digits)+
qed

lemma parse_scalar_shorter: "parse_scalar s = Some (v, r) \<Longrightarrow> length r < length s"
proof -
  have "parse_num s = Some (v, r) \<Longrightarrow> length r < length s"
    by (cases s) (auto simp: parse_num_def Let_def split: if_splits option.splits dest!: num_parts_le)
  moreover have "parse_lit lit x s = Some (v, r) \<Longrightarrow> lit \<noteq> [] \<Longrightarrow> s \<noteq> [] \<Longrightarrow> length r < length s" for lit x
    by (auto simp: parse_lit_def split: if_splits)
  ultimately show "parse_scalar s = Some (v, r) \<Longrightarrow> length r < length s"
    by (auto simp: parse_scalar_def split: list.splits if_splits dest!: parse_str_shorter)
qed

text \<open>\<open>shortens\<close>: what is left after a value is shorter than the text, so the guards never decide.\<close>

definition shortens :: "('a \<times> string) option \<Rightarrow> string \<Rightarrow> bool" where
  "shortens res s \<longleftrightarrow> (\<forall>v r. res = Some (v, r) \<longrightarrow> length r < length s)"

lemma skip_ws_Cons: "skip_ws t = c # u \<Longrightarrow> length u < length t"
  using length_skip_ws [of t] by simp

lemma shortens_simps [simp]: "shortens None s" "shortens (Some (v, r)) s \<longleftrightarrow> length r < length s"
  by (simp_all add: shortens_def)

lemma shortens_map: "shortens res s \<Longrightarrow> length s \<le> length t \<Longrightarrow> shortens (map_option (\<lambda>(v, r). (f v, r)) res) t"
  by (cases res) (auto simp: shortens_def)

lemma parse_scalar_shortens: "shortens (parse_scalar s) s"
  by (simp add: shortens_def parse_scalar_shorter)

lemma parse_shortens: "shortens (parse_value d s) s" "shortens (parse_elems d s) s" "shortens (parse_members d s) s"
proof -
  have "\<forall>d. shortens (parse_value d s) s \<and> shortens (parse_elems d s) s \<and> shortens (parse_members d s) s"
  proof (induction "length s" arbitrary: s rule: less_induct)
    case less
    have smaller: "shortens (parse_elems d u) u" "shortens (parse_members d u) u" "shortens (parse_value d u) u"
      if "length u < length s" for d u using less that by blast+
    have val: "shortens (parse_value d s) s" for d
    proof (cases s)
      case (Cons c t)
      have "length u < length s" if "skip_ws t = c' # u" for c' u
        using skip_ws_Cons [OF that] Cons by simp
      moreover have "shortens (map_option (\<lambda>(v, r). (JArr v, r)) (parse_elems e u)) (x # t)"
        "shortens (map_option (\<lambda>(v, r). (JObj v, r)) (parse_members e u)) (x # t)"
        if "length u < Suc (length t)" for e u x
        by (rule shortens_map, rule smaller, use that Cons in simp, use that in simp)+
      ultimately show ?thesis
        unfolding parse_value.simps [of d s]
        by (simp add: Cons parse_scalar_shortens split: list.split)
    qed (simp add: parse_value.simps)
    have "shortens (parse_elems d s) s" for d
    proof (cases "parse_value d s")
      case (Some vr)
      then obtain v r where v: "parse_value d s = Some (v, r)" "length r < length s"
        using val [of d] by (cases vr) auto
      have "length t < length s" if "skip_ws r = c # t" for c t using skip_ws_Cons [OF that] v(2) by simp
      then show ?thesis
        unfolding parse_elems.simps [of d s] v(1)
        by (auto split: list.split intro!: shortens_map smaller)
    qed (simp add: parse_elems.simps)
    moreover have "shortens (parse_members d s) s" for d
    proof -
      have "length t' < length s"
        if "skip_ws r' = e # t'" "parse_value d (skip_ws u) = Some (v, r')" "length (skip_ws u) < length s" for u r' e t' v
        using smaller(3) [OF that(3), of d] skip_ws_Cons [OF that(1)] that(2,3) by simp
      then show ?thesis
        unfolding parse_members.simps [of d s]
        by (auto split: list.split option.split intro!: shortens_map smaller)
    qed
    ultimately show ?case using val by blast
  qed
  then show "shortens (parse_value d s) s" "shortens (parse_elems d s) s" "shortens (parse_members d s) s" by blast+
qed

text \<open>The grammar, as rules that build a reading from the readings of the parts.\<close>

lemma parse_value_empty_array: "skip_ws t = CHR '']'' # u \<Longrightarrow> parse_value (Suc d) (CHR ''['' # t) = Some (JArr [], u)"
  by (simp add: parse_value.simps)

lemma parse_value_array:
  assumes "skip_ws t = c # u" "c \<noteq> CHR '']''" "parse_elems d (c # u) = Some (vs, r)"
  shows "parse_value (Suc d) (CHR ''['' # t) = Some (JArr vs, r)"
  using assms skip_ws_Cons [OF assms(1)] by (simp add: parse_value.simps)

lemma parse_value_object:
  assumes "skip_ws t = c # u" "c \<noteq> CHR ''}''" "parse_members d (c # u) = Some (ms, r)"
  shows "parse_value (Suc d) (CHR ''{'' # t) = Some (JObj ms, r)"
  using assms skip_ws_Cons [OF assms(1)] by (simp add: parse_value.simps)

lemma parse_value_scalar:
  "c \<noteq> CHR ''['' \<Longrightarrow> c \<noteq> CHR ''{'' \<Longrightarrow> parse_value d (c # t) = parse_scalar (c # t)"
  by (simp add: parse_value.simps)

lemma parse_elems_last:
  "parse_value d s = Some (v, r) \<Longrightarrow> skip_ws r = CHR '']'' # t \<Longrightarrow> parse_elems d s = Some ([v], t)"
  by (simp add: parse_elems.simps)

lemma parse_elems_more:
  assumes "parse_value d s = Some (v, r)" "skip_ws r = CHR '','' # t" "parse_elems d (skip_ws t) = Some (vs, r')"
  shows "parse_elems d s = Some (v # vs, r')"
proof -
  have "length r < length s" using parse_shortens(1) [of d s] assms(1) by simp
  then have "length (skip_ws t) < length s"
    using skip_ws_Cons [OF assms(2)] length_skip_ws [of t] by simp
  then show ?thesis using assms by (simp add: parse_elems.simps [of d s])
qed

lemma parse_members_step:
  assumes "parse_str s = Some (k, r)" "skip_ws r = CHR '':'' # u" "parse_value d (skip_ws u) = Some (v, r')"
  shows "skip_ws r' = CHR ''}'' # t \<Longrightarrow> parse_members d (CHR 0x22 # s) = Some ([(k, v)], t)"
    "skip_ws r' = CHR '','' # t \<Longrightarrow> parse_members d (skip_ws t) = Some (ms, r'')
       \<Longrightarrow> parse_members d (CHR 0x22 # s) = Some ((k, v) # ms, r'')"
proof -
  have u: "length (skip_ws u) < Suc (length s)"
    using parse_str_shorter [OF assms(1)] skip_ws_Cons [OF assms(2)] length_skip_ws [of u] by simp
  show "skip_ws r' = CHR ''}'' # t \<Longrightarrow> parse_members d (CHR 0x22 # s) = Some ([(k, v)], t)"
    using u assms by (simp add: parse_members.simps [of d "CHR 0x22 # s"])
  assume t: "skip_ws r' = CHR '','' # t" "parse_members d (skip_ws t) = Some (ms, r'')"
  have "length r' < length (skip_ws u)" using parse_shortens(1) [of d "skip_ws u"] assms(3) by simp
  then have "length (skip_ws t) < Suc (length s)"
    using skip_ws_Cons [OF t(1)] length_skip_ws [of t] u by simp
  then show "parse_members d (CHR 0x22 # s) = Some ((k, v) # ms, r'')"
    using u t assms by (simp add: parse_members.simps [of d "CHR 0x22 # s"])
qed

lemma parse_scalar_quote:
  "parse_scalar (quote s @ rest) = Some (JStr (quote_body s) (to_valid_utf8 s), rest)"
  by (simp add: parse_scalar_def quote_def parse_str_quote_body)

section \<open>Storing into a struct\<close>

text \<open>
  A member belongs to a field when the names agree exactly or under Unicode case folding; the long s
  and the Kelvin sign are the runes outside ASCII that fold to a letter.
\<close>

definition upper_ascii :: "char \<Rightarrow> char" where
  "upper_ascii c = (if 97 \<le> bv c \<and> bv c \<le> 122 then char_of (bv c - 32) else c)"

fun fold_key :: "string \<Rightarrow> string" where
  "fold_key [] = []"
| "fold_key (c # s) =
     (if take 2 (c # s) = encode_rune 383 then CHR ''S'' # fold_key (drop 1 s)
      else if take 3 (c # s) = encode_rune 8490 then CHR ''K'' # fold_key (drop 2 s)
      else upper_ascii c # fold_key s)"

text \<open>
  A field is stored by a function of the value and what the field holds; \<open>None\<close> is an error. A string
  field keeps what it holds on \<open>null\<close>. A repeated member finds the slice of the one before: its
  elements are overwritten in place, so the model keeps a slice with what its array holds beyond it.
\<close>

type_synonym 'a store = "json \<Rightarrow> 'a \<Rightarrow> 'a option"

type_synonym str_slice = "string list \<times> string list"

definition store_string :: "string store" where
  "store_string j old = (case j of JNull \<Rightarrow> Some old | JStr raw v \<Rightarrow> Some v | _ \<Rightarrow> None)"

definition store_bool :: "bool store" where
  "store_bool j old = (case j of JNull \<Rightarrow> Some old | JBool b \<Rightarrow> Some b | _ \<Rightarrow> None)"

fun store_elems :: "json list \<Rightarrow> string list \<Rightarrow> str_slice option" where
  "store_elems [] back = Some ([], back)"
| "store_elems (j # js) back =
     (case store_string j (case back of [] \<Rightarrow> [] | old # _ \<Rightarrow> old) of
        None \<Rightarrow> None
      | Some v \<Rightarrow> map_option (\<lambda>(vs, back'). (v # vs, back')) (store_elems js (drop 1 back)))"

definition store_strings :: "str_slice store" where
  "store_strings j old =
     (case j of
        JNull \<Rightarrow> Some ([], [])
      | JArr js \<Rightarrow> if js = [] then Some ([], []) else store_elems js (fst old @ snd old)
      | _ \<Rightarrow> None)"

fun store_members :: "(string \<times> 'a store) list \<Rightarrow> (string \<times> json) list \<Rightarrow> 'a \<Rightarrow> 'a option" where
  "store_members fields [] a = Some a"
| "store_members fields ((k, j) # ms) a =
     (case find (\<lambda>(f, st). k = f) fields of
        Some (f, st) \<Rightarrow> (case st j a of None \<Rightarrow> None | Some a' \<Rightarrow> store_members fields ms a')
      | None \<Rightarrow>
          (case find (\<lambda>(f, st). fold_key k = fold_key f) fields of
             Some (f, st) \<Rightarrow> (case st j a of None \<Rightarrow> None | Some a' \<Rightarrow> store_members fields ms a')
           | None \<Rightarrow> store_members fields ms a))"

definition store_struct :: "(string \<times> 'a store) list \<Rightarrow> 'a store" where
  "store_struct fields j a = (case j of JNull \<Rightarrow> Some a | JObj ms \<Rightarrow> store_members fields ms a | _ \<Rightarrow> None)"

definition Unmarshal :: "'a store \<Rightarrow> string \<Rightarrow> 'a \<Rightarrow> 'a option" where
  "Unmarshal st body a = (case parse_json body of None \<Rightarrow> None | Some j \<Rightarrow> st j a)"

section \<open>Reading back printed strings and arrays\<close>

lemma skip_ws_app: "\<forall>c \<in> set ws. is_ws c \<Longrightarrow> skip_ws (ws @ t) = skip_ws t"
  by (simp add: skip_ws_def dropWhile_append1)

lemma skip_ws_solid: "\<not> is_ws c \<Longrightarrow> skip_ws (c # t) = c # t"
  by (simp add: skip_ws_def)

lemma is_ws_simps [simp]:
  "is_ws (CHR '' '')" "is_ws (CHR 0x0A)" "\<not> is_ws (CHR 0x22)" "\<not> is_ws (CHR '','')" "\<not> is_ws (CHR '']'')"
  "\<not> is_ws (CHR ''}'')" "\<not> is_ws (CHR '':'')" "\<not> is_ws (CHR ''['')" "\<not> is_ws (CHR ''{'')" "\<not> is_ws (CHR ''n'')"
  "\<not> is_ws (CHR ''t'')"
  by (simp_all add: is_ws_def)

lemma quote_hd: "quote s @ t = CHR 0x22 # quote_body s @ CHR 0x22 # t"
  by (simp add: quote_def)

lemma parse_value_quote: "parse_value d (quote s @ t) = Some (JStr (quote_body s) (to_valid_utf8 s), t)"
  using parse_scalar_quote [of s t] by (simp add: quote_hd parse_value_scalar)

lemma join_quote_hd: "ss \<noteq> [] \<Longrightarrow> \<exists>u. join_with sep (map quote ss) @ t = CHR 0x22 # u"
  by (cases ss; cases "tl ss") (auto simp: quote_def)

lemma parse_elems_quotes:
  assumes "\<forall>c \<in> set ws. is_ws c" "\<forall>c \<in> set ws'. is_ws c" "ss \<noteq> []"
  shows "parse_elems d (join_with (CHR '','' # ws) (map quote ss) @ ws' @ CHR '']'' # rest) =
    Some (map (\<lambda>s. JStr (quote_body s) (to_valid_utf8 s)) ss, rest)"
  using assms(3)
proof (induction ss rule: list_nonempty_induct)
  case (single s)
  have "skip_ws (ws' @ CHR '']'' # rest) = CHR '']'' # rest" using assms(2) by (simp add: skip_ws_app skip_ws_solid)
  from parse_elems_last [OF parse_value_quote this] show ?case by simp
next
  case (cons s ss)
  let ?more = "join_with (CHR '','' # ws) (map quote ss) @ ws' @ CHR '']'' # rest"
  obtain u where u: "?more = CHR 0x22 # u" using join_quote_hd [OF cons(1)] by blast
  then have "skip_ws (ws @ ?more) = ?more" using assms(1) by (simp add: skip_ws_app skip_ws_solid)
  then have "parse_elems d (skip_ws (ws @ ?more)) =
      Some (map (\<lambda>s. JStr (quote_body s) (to_valid_utf8 s)) ss, rest)" using cons(2) by simp
  from parse_elems_more [OF parse_value_quote skip_ws_solid this, of s] cons(1) show ?case
    by (simp add: join_with_Cons)
qed

text \<open>A whole array as the encoder writes it, with white space around the elements.\<close>

lemma parse_value_strings:
  assumes "\<forall>c \<in> set ws0. is_ws c" "\<forall>c \<in> set ws. is_ws c" "\<forall>c \<in> set ws'. is_ws c" "ss \<noteq> []"
  shows "parse_value (Suc d) (CHR ''['' # ws0 @ join_with (CHR '','' # ws) (map quote ss) @ ws' @ CHR '']'' # rest) =
    Some (JArr (map (\<lambda>s. JStr (quote_body s) (to_valid_utf8 s)) ss), rest)"
proof -
  let ?body = "join_with (CHR '','' # ws) (map quote ss) @ ws' @ CHR '']'' # rest"
  obtain u where u: "?body = CHR 0x22 # u" using join_quote_hd [OF assms(4)] by blast
  then have "skip_ws (ws0 @ ?body) = CHR 0x22 # u" using assms(1) by (simp add: skip_ws_app skip_ws_solid)
  from parse_value_array [OF this] parse_elems_quotes [OF assms(2-4), of d rest] u show ?thesis by simp
qed

text \<open>ASCII text is valid UTF-8 and comes back unchanged.\<close>

lemma to_valid_utf8_ascii: "\<forall>c \<in> set s. bv c < 128 \<Longrightarrow> to_valid_utf8 s = s"
  by (induction s) (auto simp: to_valid_utf8.simps rune_len_ascii)

lemma store_elems_strings:
  "store_elems (map (\<lambda>s. JStr (r s) (v s)) ss) old = Some (map v ss, drop (length ss) old)"
  by (induction ss arbitrary: old) (simp_all add: store_string_def drop_Suc)

lemma store_strings_fresh: "store_strings (JArr (map (\<lambda>s. JStr (r s) (v s)) ss)) ([], []) = Some (map v ss, [])"
  by (simp add: store_strings_def store_elems_strings)

end
