(* ===== verification/Flags.thy ===== *)
theory Flags
  imports Config Json
begin

text \<open>
  Command line options of \<open>internal/app\<close> and the reading of durations: the loop of
  \<open>flag.FlagSet.Parse\<close> over the flags the program declares, \<open>time.ParseDuration\<close> and
  \<open>Duration.UnmarshalYAML\<close>. The floating-point product that turns the digits after a decimal point
  into nanoseconds is the parameter \<open>frac\<close> (digits, power of ten, unit).
\<close>

section \<open>Durations\<close>

type_synonym fraction = "nat \<Rightarrow> nat \<Rightarrow> nat \<Rightarrow> nat"

fun leadingInt :: "nat \<Rightarrow> string \<Rightarrow> (nat \<times> string) option" where
  "leadingInt x [] = Some (x, [])"
| "leadingInt x (c # s) =
     (if \<not> is_digit c then Some (x, c # s)
      else if 2 ^ 63 div 10 < x then None
      else let y = x * 10 + (bv c - 48) in if 2 ^ 63 < y then None else leadingInt y s)"

fun leadingFraction :: "nat \<Rightarrow> nat \<Rightarrow> bool \<Rightarrow> string \<Rightarrow> nat \<times> nat \<times> string" where
  "leadingFraction x scale overflow [] = (x, scale, [])"
| "leadingFraction x scale overflow (c # s) =
     (if \<not> is_digit c then (x, scale, c # s)
      else if overflow \<or> (2 ^ 63 - 1) div 10 < x then leadingFraction x scale True s
      else let y = x * 10 + (bv c - 48) in
        if 2 ^ 63 < y then leadingFraction x scale True s else leadingFraction y (scale * 10) False s)"

definition unitMap :: "(string \<times> nat) list" where
  "unitMap = [(''ns'', 1), (''us'', 1000), ([byte 194, byte 181, CHR ''s''], 1000),
     ([byte 206, byte 188, CHR ''s''], 1000), (''ms'', 1000000), (''s'', 1000000000), (''m'', 60000000000),
     (''h'', 3600000000000)]"

definition unit_char :: "char \<Rightarrow> bool" where
  "unit_char c \<longleftrightarrow> c \<noteq> CHR ''.'' \<and> \<not> is_digit c"

text \<open>One number with its unit: the nanoseconds and the rest of the text.\<close>

definition duration_part :: "fraction \<Rightarrow> string \<Rightarrow> (nat \<times> string) option" where
  "duration_part frac s =
     (case s of
        [] \<Rightarrow> None
      | c # _ \<Rightarrow>
          if \<not> (c = CHR ''.'' \<or> is_digit c) then None
          else (case leadingInt 0 s of
              None \<Rightarrow> None
            | Some (v, s1) \<Rightarrow>
                let pre = (s1 \<noteq> s);
                    dot = (s1 \<noteq> [] \<and> hd s1 = CHR ''.'');
                    (f, scale, s2) = (if dot then leadingFraction 0 1 False (tl s1) else (0, 1, s1));
                    post = (dot \<and> s2 \<noteq> tl s1) in
                if \<not> pre \<and> \<not> post then None
                else
                  let u = takeWhile unit_char s2; rest = dropWhile unit_char s2 in
                  if u = [] then None
                  else (case map_of unitMap u of
                      None \<Rightarrow> None
                    | Some unit \<Rightarrow>
                        if 2 ^ 63 div unit < v then None
                        else let v' = v * unit + (if 0 < f then frac f scale unit else 0) in
                          if 2 ^ 63 < v' then None else Some (v', rest))))"

lemma length_leadingInt: "leadingInt x s = Some (v, r) \<Longrightarrow> length r \<le> length s"
  by (induction x s rule: leadingInt.induct) (auto simp: Let_def split: if_splits)

lemma length_leadingFraction: "leadingFraction x sc ov s = (f, sc', r) \<Longrightarrow> length r \<le> length s"
  by (induction s arbitrary: x sc ov) (auto simp: Let_def le_SucI split: if_splits)

lemma duration_part_shorter:
  assumes "duration_part frac s = Some (v, r)"
  shows "length r < length s"
proof -
  from assms obtain v0 s1 where i: "leadingInt 0 s = Some (v0, s1)"
    by (auto simp: duration_part_def split: list.splits if_splits option.splits)
  obtain f sc s2 where f: "(if s1 \<noteq> [] \<and> hd s1 = CHR ''.'' then leadingFraction 0 1 False (tl s1) else (0, 1, s1)) = (f, sc, s2)"
    by (metis prod_cases3)
  have "length s2 \<le> length s1"
    using f length_leadingFraction [of 0 1 False "tl s1" f sc s2] by (cases s1) (auto split: if_splits)
  moreover have "takeWhile unit_char s2 \<noteq> []" "r = dropWhile unit_char s2"
    using assms unfolding duration_part_def i option.case prod.case Let_def f
    by (auto split: list.splits if_splits option.splits)
  then have "length r < length s2"
    by (metis add_diff_cancel_right' length_append length_greater_0_conv less_add_same_cancel2 takeWhile_dropWhile_id)
  ultimately show ?thesis using length_leadingInt [OF i] by simp
qed

function duration_loop :: "fraction \<Rightarrow> nat \<Rightarrow> string \<Rightarrow> nat option" where
  "duration_loop frac d s =
     (if s = [] then Some d
      else case duration_part frac s of
        None \<Rightarrow> None
      | Some (v, r) \<Rightarrow>
          let d' = (d + v) mod 2 ^ 64 in if 2 ^ 63 < d' then None else duration_loop frac d' r)"
  by pat_completeness auto
termination
  by (relation "measure (\<lambda>(frac, d, s). length s)") (auto dest: duration_part_shorter)

declare duration_loop.simps [simp del]

definition ParseDuration :: "fraction \<Rightarrow> string \<Rightarrow> Duration option" where
  "ParseDuration frac s0 =
     (let neg = (s0 \<noteq> [] \<and> hd s0 = CHR ''-'');
          s = (if s0 \<noteq> [] \<and> hd s0 \<in> {CHR ''-'', CHR ''+''} then tl s0 else s0) in
      if s = ''0'' then Some 0
      else if s = [] then None
      else case duration_loop frac 0 s of
        None \<Rightarrow> None
      | Some d \<Rightarrow> if neg then Some (int64 (- int64 (int d))) else if 2 ^ 63 - 1 < d then None else Some (int d))"

text \<open>The YAML package decodes the node to a string first.\<close>

definition UnmarshalYAML :: "fraction \<Rightarrow> ('n \<Rightarrow> string option) \<Rightarrow> 'n \<Rightarrow> Duration option" where
  "UnmarshalYAML frac decode n = (case decode n of None \<Rightarrow> None | Some s \<Rightarrow> ParseDuration frac s)"

section \<open>Options\<close>

record Options =
  ConfigPath :: string
  DryRun :: bool
  opt_DisableRUDefault :: bool
  opt_LogFormat :: string
  Interval :: Duration
  opt_MetricsListen :: string
  opt_CleanupOnShutdown :: bool

definition zero_Options :: Options where
  "zero_Options = \<lparr>ConfigPath = [], DryRun = False, opt_DisableRUDefault = False, opt_LogFormat = [],
     Interval = 0, opt_MetricsListen = [], opt_CleanupOnShutdown = False\<rparr>"

datatype flag_error = BadFlagSyntax string | FlagNotDefined string | HelpRequested | InvalidValue string string
  | FlagNeedsArgument string

definition ParseBool :: "string \<Rightarrow> bool option" where
  "ParseBool s =
     (if s \<in> {''1'', ''t'', ''T'', ''true'', ''TRUE'', ''True''} then Some True
      else if s \<in> {''0'', ''f'', ''F'', ''false'', ''FALSE'', ''False''} then Some False else None)"

datatype flag_kind = FlagString "string \<Rightarrow> Options \<Rightarrow> Options" | FlagBool "bool \<Rightarrow> Options \<Rightarrow> Options"
  | FlagDuration "Duration \<Rightarrow> Options \<Rightarrow> Options"

definition formal :: "(string \<times> flag_kind) list" where
  "formal =
     [(''config'', FlagString (\<lambda>v opts. opts\<lparr>ConfigPath := v\<rparr>)),
      (''dry-run'', FlagBool (\<lambda>v opts. opts\<lparr>DryRun := v\<rparr>)),
      (''disable-ru-default'', FlagBool (\<lambda>v opts. opts\<lparr>opt_DisableRUDefault := v\<rparr>)),
      (''log-format'', FlagString (\<lambda>v opts. opts\<lparr>opt_LogFormat := v\<rparr>)),
      (''interval'', FlagDuration (\<lambda>v opts. opts\<lparr>Interval := v\<rparr>)),
      (''metrics-listen'', FlagString (\<lambda>v opts. opts\<lparr>opt_MetricsListen := v\<rparr>)),
      (''cleanup-on-shutdown'', FlagBool (\<lambda>v opts. opts\<lparr>opt_CleanupOnShutdown := v\<rparr>))]"

definition set_flag :: "fraction \<Rightarrow> string \<Rightarrow> flag_kind \<Rightarrow> string \<Rightarrow> Options \<Rightarrow> (flag_error, Options) result" where
  "set_flag frac name k value opts =
     (case k of
        FlagString f \<Rightarrow> Inr (f value opts)
      | FlagBool f \<Rightarrow> (case ParseBool value of None \<Rightarrow> Inl (InvalidValue name value) | Some b \<Rightarrow> Inr (f b opts))
      | FlagDuration f \<Rightarrow>
          (case ParseDuration frac value of None \<Rightarrow> Inl (InvalidValue name value) | Some d \<Rightarrow> Inr (f d opts)))"

definition is_bool_flag :: "flag_kind \<Rightarrow> bool" where
  "is_bool_flag k = (case k of FlagBool _ \<Rightarrow> True | _ \<Rightarrow> False)"

text \<open>The name of a flag and the value after the first \<open>=\<close> that is not its first character.\<close>

definition split_flag :: "string \<Rightarrow> string \<times> string option" where
  "split_flag name =
     (let rest = dropWhile (\<lambda>c. c \<noteq> CHR ''='') (tl name) in
      if rest = [] then (name, None) else (hd name # takeWhile (\<lambda>c. c \<noteq> CHR ''='') (tl name), Some (tl rest)))"

fun parse_flags :: "fraction \<Rightarrow> string list \<Rightarrow> Options \<Rightarrow> (flag_error, Options) result" where
  "parse_flags frac [] opts = Inr opts"
| "parse_flags frac (s # args) opts =
     (if length s < 2 \<or> hd s \<noteq> CHR ''-'' then Inr opts
      else if s = ''--'' then Inr opts
      else
        let name0 = (if s ! 1 = CHR ''-'' then drop 2 s else drop 1 s) in
        if name0 = [] \<or> hd name0 = CHR ''-'' \<or> hd name0 = CHR ''='' then Inl (BadFlagSyntax s)
        else
          case split_flag name0 of (name, value) \<Rightarrow>
            (case map_of formal name of
               None \<Rightarrow> Inl (if name = ''help'' \<or> name = ''h'' then HelpRequested else FlagNotDefined name)
             | Some k \<Rightarrow>
                 if is_bool_flag k then
                   bind_result (set_flag frac name k (case value of None \<Rightarrow> ''true'' | Some v \<Rightarrow> v) opts) (parse_flags frac args)
                 else
                   (case (value, args) of
                      (Some v, _) \<Rightarrow> bind_result (set_flag frac name k v opts) (parse_flags frac args)
                    | (None, a # args') \<Rightarrow> bind_result (set_flag frac name k a opts) (parse_flags frac args')
                    | (None, []) \<Rightarrow> Inl (FlagNeedsArgument name))))"

text \<open>
  \<open>return opts, fs.Parse(args)\<close>: the language leaves open whether \<open>opts\<close> is read before or after the
  call that fills it; the model is the compiler's order, after.
\<close>

definition parseFlags :: "fraction \<Rightarrow> string list \<Rightarrow> (flag_error, Options) result" where
  "parseFlags frac args = parse_flags frac args zero_Options"

section \<open>Options read back\<close>

lemma leadingInt_append: "leadingInt x s = Some (y, []) \<Longrightarrow> leadingInt x (s @ t) = leadingInt y t"
  by (induction x s rule: leadingInt.induct) (auto simp: Let_def split: if_splits)

lemma is_digit_digit_char: "d < 10 \<Longrightarrow> is_digit (digit_char d)" "d < 10 \<Longrightarrow> bv (digit_char d) - 48 = d"
  by (simp_all add: is_digit_def of_char_digit_char)

lemma leadingInt_radix: "n \<le> 2 ^ 63 \<Longrightarrow> leadingInt 0 (radix_str 10 n) = Some (n, [])"
proof (induction "10 :: nat" n rule: radix_str.induct)
  case (1 n)
  show ?case
  proof (cases "n < 10")
    case True
    then show ?thesis by (simp add: radix_str.simps [of 10 n] is_digit_digit_char Let_def)
  next
    case False
    with 1 have "leadingInt 0 (radix_str 10 (n div 10)) = Some (n div 10, [])" by simp
    from leadingInt_append [OF this] have "leadingInt 0 (radix_str 10 n) = leadingInt (n div 10) [digit_char (n mod 10)]"
      using False by (simp add: radix_str.simps [of 10 n])
    moreover have "n div 10 \<le> 2 ^ 63 div 10" using "1.prems" by (intro div_le_mono)
    moreover have "n div 10 * 10 + n mod 10 = n" by simp
    ultimately show ?thesis using "1.prems" by (simp add: is_digit_digit_char Let_def)
  qed
qed

lemma hd_radix_digit: "\<exists>d < 10. \<exists>s. radix_str 10 n = digit_char d # s"
proof (cases "radix_str 10 n")
  case (Cons c s)
  then have "c \<in> digit_char ` {..<10}" using set_radix_str [of 10 n] by simp
  with Cons show ?thesis by auto
qed simp

lemma ParseDuration_ns:
  assumes "0 \<le> i" "i < 2 ^ 63"
  shows "ParseDuration frac (Itoa i @ ''ns'') = Some i"
proof -
  define n where "n = nat i"
  have n: "n < 2 ^ 63" "int n = i" using assms by (simp_all add: n_def nat_less_iff)
  obtain d s where d: "d < 10" "radix_str 10 n = digit_char d # s" using hd_radix_digit by blast
  have dig: "is_digit (digit_char d)" using d(1) by (rule is_digit_digit_char)
  then have sign: "digit_char d \<noteq> CHR ''-''" "digit_char d \<noteq> CHR ''+''" by (auto simp: is_digit_def)
  have lead: "leadingInt 0 (radix_str 10 n @ ''ns'') = Some (n, ''ns'')"
    using leadingInt_append [OF leadingInt_radix, of n "''ns''"] n(1) by (simp add: is_digit_def)
  have "duration_part frac (radix_str 10 n @ ''ns'') = Some (n, [])"
    unfolding duration_part_def lead using d dig n(1) by (simp add: Let_def unit_char_def is_digit_def unitMap_def)
  then have "duration_loop frac 0 (radix_str 10 n @ ''ns'') = Some n"
    using n(1) by (simp add: duration_loop.simps [of frac 0] duration_loop.simps [of frac n "[]"] d(2) Let_def)
  moreover have "radix_str 10 n @ ''ns'' \<noteq> ''0''" using d(2) by simp
  moreover have "Itoa i = radix_str 10 n" using assms(1) by (simp add: Itoa_def n_def)
  ultimately show ?thesis using d(2) sign n by (simp add: ParseDuration_def Let_def)
qed

text \<open>Options as arguments of the command line.\<close>

definition flag_args :: "Options \<Rightarrow> string list" where
  "flag_args opts =
     [''--config='' @ ConfigPath opts, ''--dry-run='' @ fmt_bool (DryRun opts),
      ''-disable-ru-default='' @ fmt_bool (opt_DisableRUDefault opts), ''--log-format='' @ opt_LogFormat opts,
      ''--interval='' @ Itoa (Interval opts) @ ''ns'', ''--metrics-listen'', opt_MetricsListen opts]
     @ (if opt_CleanupOnShutdown opts then [''-cleanup-on-shutdown''] else [])"

lemma ParseBool_fmt_bool: "ParseBool (fmt_bool b) = Some b" "ParseBool ''true'' = Some True"
  by (simp_all add: ParseBool_def fmt_bool_def)

lemma parseFlags_args:
  assumes "0 \<le> Interval opts" "Interval opts < 2 ^ 63"
  shows "parseFlags frac (flag_args opts) = Inr opts"
  using ParseDuration_ns [OF assms, of frac]
  by (cases opts) (simp add: parseFlags_def flag_args_def split_flag_def formal_def set_flag_def is_bool_flag_def ParseBool_fmt_bool
      zero_Options_def Let_def)

end
