(* ===== verification/Go_Url.thy ===== *)
theory Go_Url
  imports Json
begin

text \<open>
  The part of \<open>net/url\<close> that decides how a source URL is opened: \<open>url.Parse\<close> as of Go 1.22, reduced to
  what the program reads of its result (the error, the scheme and the path). Host, user and query are
  checked as the package checks them and then dropped.
\<close>

section \<open>Character classes\<close>

definition is_alpha :: "char \<Rightarrow> bool" where
  "is_alpha c \<longleftrightarrow> 65 \<le> bv c \<and> bv c \<le> 90 \<or> 97 \<le> bv c \<and> bv c \<le> 122"

definition is_alnum :: "char \<Rightarrow> bool" where
  "is_alnum c \<longleftrightarrow> is_alpha c \<or> is_digit c"

definition is_ctl :: "char \<Rightarrow> bool" where
  "is_ctl c \<longleftrightarrow> bv c < 32 \<or> bv c = 127"

definition lower_ascii :: "char \<Rightarrow> char" where
  "lower_ascii c = (if 65 \<le> bv c \<and> bv c \<le> 90 then char_of (bv c + 32) else c)"

text \<open>\<open>shouldEscape\<close> for the modes of host and zone.\<close>

definition host_escape :: "char \<Rightarrow> bool" where
  "host_escape c \<longleftrightarrow> \<not> is_alnum c \<and>
     c \<notin> set (''!$()*+,;=:[]<>-_.~'' @ [CHR 0x22, CHR 0x26, CHR 0x27])"

definition valid_userinfo_char :: "char \<Rightarrow> bool" where
  "valid_userinfo_char c \<longleftrightarrow> is_alnum c \<or> c \<in> set (''-._:~!$()*+,;=%@'' @ [CHR 0x26, CHR 0x27])"

section \<open>Unescaping\<close>

datatype url_mode = EncodePlain | EncodeHost | EncodeZone

definition hex_pair :: "char \<Rightarrow> char \<Rightarrow> nat option" where
  "hex_pair a b = (case (digit_value a, digit_value b) of (Some x, Some y) \<Rightarrow> Some (16 * x + y) | _ \<Rightarrow> None)"

definition escape_allowed :: "url_mode \<Rightarrow> nat \<Rightarrow> bool" where
  "escape_allowed mode v \<longleftrightarrow>
     (case mode of
        EncodePlain \<Rightarrow> True
      | EncodeHost \<Rightarrow> 128 \<le> v \<or> v = 37
      | EncodeZone \<Rightarrow> v = 37 \<or> v = 32 \<or> \<not> host_escape (byte v))"

definition plain_allowed :: "url_mode \<Rightarrow> char \<Rightarrow> bool" where
  "plain_allowed mode c \<longleftrightarrow> mode = EncodePlain \<or> 128 \<le> bv c \<or> \<not> host_escape c"

fun unescape :: "url_mode \<Rightarrow> string \<Rightarrow> string option" where
  "unescape mode [] = Some []"
| "unescape mode (c # s) =
     (if c = CHR ''%'' then
        (case s of
           a # b # t \<Rightarrow>
             (case hex_pair a b of
                None \<Rightarrow> None
              | Some v \<Rightarrow> if escape_allowed mode v then map_option ((#) (byte v)) (unescape mode t) else None)
         | _ \<Rightarrow> None)
      else if plain_allowed mode c then map_option ((#) c) (unescape mode s) else None)"

section \<open>Authority\<close>

definition validOptionalPort :: "string \<Rightarrow> bool" where
  "validOptionalPort port = (case port of [] \<Rightarrow> True | c # ds \<Rightarrow> c = CHR '':'' \<and> list_all is_digit ds)"

fun cut_sub :: "string \<Rightarrow> string \<Rightarrow> (string \<times> string) option" where
  "cut_sub sub [] = (if sub = [] then Some ([], []) else None)"
| "cut_sub sub (c # s) =
     (if take (length sub) (c # s) = sub then Some ([], c # s)
      else map_option (\<lambda>(a, b). (c # a, b)) (cut_sub sub s))"

definition last_cut :: "char \<Rightarrow> string \<Rightarrow> (string \<times> string) option" where
  "last_cut c s = (if c \<in> set s
     then Some (rev (drop 1 (dropWhile (\<lambda>x. x \<noteq> c) (rev s))), rev (takeWhile (\<lambda>x. x \<noteq> c) (rev s))) else None)"

definition host_ok :: "string \<Rightarrow> bool" where
  "host_ok host =
     (if take 1 host = ''['' then
        (case last_cut (CHR '']'') host of
           None \<Rightarrow> False
         | Some (addr, colonPort) \<Rightarrow>
             validOptionalPort colonPort \<and>
             (case cut_sub ''%25'' addr of
                None \<Rightarrow> unescape EncodeHost host \<noteq> None
              | Some (ip, zone) \<Rightarrow> unescape EncodeHost ip \<noteq> None \<and> unescape EncodeZone zone \<noteq> None
                  \<and> unescape EncodeHost (CHR '']'' # colonPort) \<noteq> None))
      else
        (case last_cut (CHR '':'') host of
           None \<Rightarrow> True
         | Some (_, port) \<Rightarrow> validOptionalPort (CHR '':'' # port))
        \<and> unescape EncodeHost host \<noteq> None)"

definition authority_ok :: "string \<Rightarrow> bool" where
  "authority_ok authority =
     (case last_cut (CHR ''@'') authority of
        None \<Rightarrow> host_ok authority
      | Some (userinfo, host) \<Rightarrow>
          host_ok host \<and> list_all valid_userinfo_char userinfo \<and>
          list_all (\<lambda>s. unescape EncodePlain s \<noteq> None)
            (if CHR '':'' \<in> set userinfo
             then [takeWhile (\<lambda>c. c \<noteq> CHR '':'') userinfo, drop 1 (dropWhile (\<lambda>c. c \<noteq> CHR '':'') userinfo)]
             else [userinfo]))"

section \<open>Parsing\<close>

fun scheme_loop :: "string \<Rightarrow> string \<Rightarrow> (string \<times> string) option" where
  "scheme_loop seen [] = Some ([], rev seen)"
| "scheme_loop seen (c # s) =
     (if is_alpha c then scheme_loop (c # seen) s
      else if is_digit c \<or> c \<in> set ''+-.'' then
        (if seen = [] then Some ([], c # s) else scheme_loop (c # seen) s)
      else if c = CHR '':'' then (if seen = [] then None else Some (rev seen, s))
      else Some ([], rev seen @ c # s))"

definition getScheme :: "string \<Rightarrow> (string \<times> string) option" where
  "getScheme rawURL = scheme_loop [] rawURL"

record URL =
  u_Scheme :: string
  u_Path :: string

definition cut_at :: "char \<Rightarrow> string \<Rightarrow> string \<times> string" where
  "cut_at c s = (takeWhile (\<lambda>x. x \<noteq> c) s, drop 1 (dropWhile (\<lambda>x. x \<noteq> c) s))"

definition parse_hier :: "string \<Rightarrow> string \<Rightarrow> URL option" where
  "parse_hier scheme rest =
     (let split = (scheme \<noteq> [] \<or> take 3 rest \<noteq> ''///'') \<and> take 2 rest = ''//'';
          authority = (if split then takeWhile (\<lambda>c. c \<noteq> CHR ''/'') (drop 2 rest) else []);
          path = (if split then dropWhile (\<lambda>c. c \<noteq> CHR ''/'') (drop 2 rest) else rest) in
      if split \<and> \<not> authority_ok authority then None
      else map_option (\<lambda>p. \<lparr>u_Scheme = scheme, u_Path = p\<rparr>) (unescape EncodePlain path))"

definition parse_url :: "string \<Rightarrow> URL option" where
  "parse_url rawURL =
     (if list_ex is_ctl rawURL then None
      else if rawURL = ''*'' then Some \<lparr>u_Scheme = [], u_Path = ''*''\<rparr>
      else case getScheme rawURL of
        None \<Rightarrow> None
      | Some (scheme0, rest0) \<Rightarrow>
          let scheme = map lower_ascii scheme0; rest = fst (cut_at (CHR ''?'') rest0) in
          if take 1 rest \<noteq> ''/'' \<and> scheme \<noteq> [] then Some \<lparr>u_Scheme = scheme, u_Path = []\<rparr>
          else if take 1 rest \<noteq> ''/'' \<and> CHR '':'' \<in> set (fst (cut_at (CHR ''/'') rest)) then None
          else parse_hier scheme rest)"

definition URL_Parse :: "string \<Rightarrow> URL option" where
  "URL_Parse rawURL =
     (case parse_url (fst (cut_at (CHR ''#'') rawURL)) of
        None \<Rightarrow> None
      | Some u \<Rightarrow>
          (case unescape EncodePlain (snd (cut_at (CHR ''#'') rawURL)) of None \<Rightarrow> None | Some _ \<Rightarrow> Some u))"

text \<open>A plain path, the usual source of a local list, is no URL with a scheme.\<close>

lemma unescape_plain: "CHR ''%'' \<notin> set s \<Longrightarrow> unescape EncodePlain s = Some s"
  by (induction s) (auto simp: plain_allowed_def)

lemma URL_Parse_abs_path:
  assumes "set s \<inter> {CHR ''#'', CHR ''?'', CHR ''%''} = {}" "\<not> list_ex is_ctl s" "take 1 s \<noteq> ''/''"
  shows "URL_Parse (CHR ''/'' # s) = Some \<lparr>u_Scheme = [], u_Path = CHR ''/'' # s\<rparr>"
proof -
  have cut: "cut_at c (CHR ''/'' # s) = (CHR ''/'' # s, [])" if "c \<notin> set (CHR ''/'' # s)" for c
  proof -
    have "takeWhile (\<lambda>x. x \<noteq> c) (CHR ''/'' # s) = CHR ''/'' # s" "dropWhile (\<lambda>x. x \<noteq> c) (CHR ''/'' # s) = []"
      using that by (auto simp: takeWhile_eq_all_conv dropWhile_eq_Nil_conv)
    then show ?thesis by (simp only: cut_at_def) simp
  qed
  have "unescape EncodePlain (CHR ''/'' # s) = Some (CHR ''/'' # s)" using assms(1) by (intro unescape_plain) auto
  moreover have "take 2 (CHR ''/'' # s) \<noteq> ''//''" using assms(3) by (cases s) auto
  ultimately have "parse_hier [] (CHR ''/'' # s) = Some \<lparr>u_Scheme = [], u_Path = CHR ''/'' # s\<rparr>"
    by (simp add: parse_hier_def)
  then show ?thesis using assms(1,2) cut
    by (simp add: URL_Parse_def parse_url_def getScheme_def is_alpha_def is_digit_def is_ctl_def)
qed

end
