(* ===== verification/Providers.thy ===== *)
theory Providers
  imports Go_Url Aggregate_Correct Rtnl Config
begin

text \<open>
  \<open>internal/source/txt\<close> and \<open>internal/source/ripe\<close>: the two providers of prefixes. What they ask of the
  operating system and the network is the record \<open>Env\<close>: its fields are arguments of the definitions.
  A response body and an opened file are the bytes that can be read and the error, if any, that ends
  the reading instead of the end of the data.
\<close>

section \<open>The environment\<close>

record Stream =
  st_Data :: string
  st_Err :: "string option"

record Response =
  StatusCode :: int
  Status :: string
  Body :: Stream

text \<open>
  \<open>http_get\<close> is \<open>Client.Do\<close> of a GET request with a timeout; \<open>open_file\<close> is \<open>os.Open\<close>; \<open>read_file\<close>,
  \<open>write_file\<close> and \<open>mkdir_all\<close> are the calls of package \<open>os\<close>; \<open>iface_addrs\<close> is \<open>net.InterfaceAddrs\<close>;
  \<open>now\<close> is \<open>time.Now()\<close> as JSON writes it and \<open>unix\<close> the same as Unix seconds; \<open>exec\<close> runs a command;
  \<open>yaml\<close> is the YAML decoder; \<open>unicode_upper\<close> is the upper-casing of a text outside ASCII.
\<close>

datatype net_addr = NetIPNet IPNet | NetOther string

record 'w Env =
  http_get :: "string \<Rightarrow> Duration \<Rightarrow> 'w \<Rightarrow> (string, Response) result \<times> 'w"
  open_file :: "string \<Rightarrow> 'w \<Rightarrow> (string, Stream) result"
  read_file :: "string \<Rightarrow> 'w \<Rightarrow> (string, string) result"
  write_file :: "string \<Rightarrow> string \<Rightarrow> 'w \<Rightarrow> string option \<times> 'w"
  mkdir_all :: "string \<Rightarrow> 'w \<Rightarrow> string option \<times> 'w"
  iface_addrs :: "'w \<Rightarrow> (string, net_addr list) result"
  now :: "'w \<Rightarrow> string"
  unix :: "'w \<Rightarrow> int"
  exec :: "string \<Rightarrow> string list \<Rightarrow> 'w \<Rightarrow> (string option \<times> string) \<times> 'w"
  yaml :: "string \<Rightarrow> (string, Config) result"
  unicode_upper :: "string \<Rightarrow> string"

section \<open>The provider interface\<close>

datatype source_error =
    SourceRequest
  | SourceTransport string
  | SourceStatus string
  | SourceOpen string
  | SourceRead string
  | SourceDecode

record 'w Provider =
  Fetch :: "'w \<Rightarrow> (source_error, Prefix list) result \<times> 'w"
  Provider_Type :: string

section \<open>Text lists\<close>

record TxtProvider =
  tp_URL :: string
  tp_Timeout :: Duration

definition txt_New :: "string \<Rightarrow> Duration \<Rightarrow> TxtProvider" where
  "txt_New rawurl timeout = \<lparr>tp_URL = rawurl, tp_Timeout = timeout\<rparr>"

text \<open>
  \<open>bufio.Scanner\<close> over lines: a last line without newline counts unless it is empty, also when an error
  ended the reading; the first line of 64 KiB or more ends the scan; one carriage return is dropped.
\<close>

definition drop_cr :: "string \<Rightarrow> string" where
  "drop_cr l = (if l \<noteq> [] \<and> last l = CHR 0x0D then butlast l else l)"

definition scan_lines :: "string \<Rightarrow> string list" where
  "scan_lines data =
     (let parts = split_on (CHR 0x0A) data;
          parts = (if last parts = [] then butlast parts else parts) in
      map drop_cr (takeWhile (\<lambda>l. length l < 65536) parts))"

definition is_comment_char :: "char \<Rightarrow> bool" where
  "is_comment_char c \<longleftrightarrow> c = CHR ''#'' \<or> c = CHR '';''"

definition parse_line :: "string \<Rightarrow> Prefix list" where
  "parse_line text =
     (let s = TrimSpace text in
      if s = [] \<or> is_comment_char (hd s) then []
      else
        let s = (if list_ex is_comment_char s
          then TrimSpace (takeWhile (\<lambda>c. \<not> is_comment_char c) s) else s) in
        case ParsePrefix s of None \<Rightarrow> [] | Some p \<Rightarrow> [Masked p])"

definition txt_Parse :: "string \<Rightarrow> Prefix list" where
  "txt_Parse data = concat (map parse_line (scan_lines data))"

definition txt_open :: "'w Env \<Rightarrow> TxtProvider \<Rightarrow> 'w \<Rightarrow> (source_error, Stream) result \<times> 'w" where
  "txt_open env p w =
     (let u = URL_Parse (tp_URL p) in
      if u \<noteq> None \<and> (u_Scheme (the u) = ''http'' \<or> u_Scheme (the u) = ''https'') then
        (case http_get env (tp_URL p) (tp_Timeout p) w of
           (Inl e, w') \<Rightarrow> (Inl (SourceTransport e), w')
         | (Inr resp, w') \<Rightarrow>
             if StatusCode resp div 100 \<noteq> 2 then (Inl (SourceStatus (Status resp)), w')
             else (Inr (Body resp), w'))
      else
        let path = (if u \<noteq> None \<and> u_Scheme (the u) = ''file'' then u_Path (the u) else tp_URL p) in
        case open_file env path w of
          Inl e \<Rightarrow> (Inl (SourceOpen e), w)
        | Inr f \<Rightarrow> (Inr f, w))"

definition txt_Fetch :: "'w Env \<Rightarrow> TxtProvider \<Rightarrow> 'w \<Rightarrow> (source_error, Prefix list) result \<times> 'w" where
  "txt_Fetch env p w =
     (case txt_open env p w of
        (Inl e, w') \<Rightarrow> (Inl e, w')
      | (Inr r, w') \<Rightarrow> (Inr (txt_Parse (st_Data r)), w'))"

definition txt_provider :: "'w Env \<Rightarrow> TxtProvider \<Rightarrow> 'w Provider" where
  "txt_provider env p = \<lparr>Fetch = txt_Fetch env p, Provider_Type = ''txt''\<rparr>"

section \<open>RIPE country resources\<close>

definition endpoint :: "string \<Rightarrow> string" where
  "endpoint country =
     ''https://stat.ripe.net/data/country-resource-list/data.json?resource='' @ country @ [CHR 0x26]
     @ ''v4_format=prefix''"

record RipeProvider =
  rp_Country :: string
  rp_Timeout :: Duration

definition ToUpper :: "(string \<Rightarrow> string) \<Rightarrow> string \<Rightarrow> string" where
  "ToUpper unicode s = (if list_all (\<lambda>c. bv c < 128) s then map upper_ascii s else unicode s)"

definition ripe_New :: "'w Env \<Rightarrow> string \<Rightarrow> Duration \<Rightarrow> RipeProvider" where
  "ripe_New env country timeout = \<lparr>rp_Country = ToUpper (unicode_upper env) country, rp_Timeout = timeout\<rparr>"

record Resources =
  res_IPv4 :: str_slice
  res_IPv6 :: str_slice

definition store_resources :: "Resources store" where
  "store_resources = store_struct
     [(''ipv4'', \<lambda>j r. map_option (\<lambda>v. r\<lparr>res_IPv4 := v\<rparr>) (store_strings j (res_IPv4 r))),
      (''ipv6'', \<lambda>j r. map_option (\<lambda>v. r\<lparr>res_IPv6 := v\<rparr>) (store_strings j (res_IPv6 r)))]"

definition store_doc :: "Resources store" where
  "store_doc = store_struct [(''data'', store_struct [(''resources'', store_resources)])]"

definition parse_raw :: "string \<Rightarrow> Prefix list" where
  "parse_raw raw = (case ParsePrefix (TrimSpace raw) of None \<Rightarrow> [] | Some p \<Rightarrow> [Masked p])"

definition ripe_Parse :: "string \<Rightarrow> (source_error, Prefix list) result" where
  "ripe_Parse body =
     (case Unmarshal store_doc body \<lparr>res_IPv4 = ([], []), res_IPv6 = ([], [])\<rparr> of
        None \<Rightarrow> Inl SourceDecode
      | Some doc \<Rightarrow> Inr (concat (map parse_raw (fst (res_IPv4 doc) @ fst (res_IPv6 doc)))))"

definition ripe_Fetch :: "'w Env \<Rightarrow> RipeProvider \<Rightarrow> 'w \<Rightarrow> (source_error, Prefix list) result \<times> 'w" where
  "ripe_Fetch env p w =
     (if URL_Parse (endpoint (rp_Country p)) = None then (Inl SourceRequest, w)
      else case http_get env (endpoint (rp_Country p)) (rp_Timeout p) w of
        (Inl e, w') \<Rightarrow> (Inl (SourceTransport e), w')
      | (Inr resp, w') \<Rightarrow>
          if StatusCode resp div 100 \<noteq> 2 then (Inl (SourceStatus (Status resp)), w')
          else (case st_Err (Body resp) of
              Some e \<Rightarrow> (Inl (SourceRead e), w')
            | None \<Rightarrow> (ripe_Parse (st_Data (Body resp)), w')))"

definition ripe_provider :: "'w Env \<Rightarrow> RipeProvider \<Rightarrow> 'w Provider" where
  "ripe_provider env p = \<lparr>Fetch = ripe_Fetch env p, Provider_Type = ''ripe_country''\<rparr>"

section \<open>What a provider promises\<close>

text \<open>
  The contract the application relies on: whatever the environment answers, the prefixes of a
  successful fetch are valid and masked. Normalisation then only reorders and merges them.
\<close>

locale prefix_provider =
  fixes fetch :: "'w \<Rightarrow> (source_error, Prefix list) result \<times> 'w"
  assumes fetch_ok: "fetch w = (Inr ps, w') \<Longrightarrow> p \<in> set ps \<Longrightarrow> pfx_ok p"
begin

lemma fetch_wf: "fetch w = (Inr ps, w') \<Longrightarrow> \<forall>p \<in> set ps. pfx_wf p"
  using fetch_ok by (auto simp: pfx_ok_def)

lemma fetch_normalized:
  assumes "fetch w = (Inr ps, w')"
  shows "addrs (Normalize ps aggregate) = addrs ps" "\<forall>p \<in> set (Normalize ps aggregate). pfx_ok p"
    "sorted (Normalize ps aggregate)" "distinct (Normalize ps aggregate)"
  using Normalize_spec [OF fetch_wf [OF assms]] by blast+

end

lemma parse_line_ok: "p \<in> set (parse_line s) \<Longrightarrow> pfx_ok p"
  by (auto simp: parse_line_def Let_def intro: ParsePrefix_Masked_ok split: if_splits option.splits)

lemma parse_raw_ok: "p \<in> set (parse_raw s) \<Longrightarrow> pfx_ok p"
  by (auto simp: parse_raw_def intro: ParsePrefix_Masked_ok split: option.splits)

interpretation txt_source: prefix_provider "txt_Fetch env p" for env p
  by unfold_locales
    (auto simp: txt_Fetch_def txt_Parse_def intro: parse_line_ok split: prod.splits sum.splits)

interpretation ripe_source: prefix_provider "ripe_Fetch env p" for env p
  by unfold_locales
    (auto simp: ripe_Fetch_def ripe_Parse_def intro: parse_raw_ok
      split: prod.splits sum.splits if_splits option.splits)

section \<open>Reading a list back\<close>

text \<open>Text without white space at its ends is left alone by trimming.\<close>

definition no_space :: "string \<Rightarrow> bool" where
  "no_space s \<longleftrightarrow> (\<forall>c \<in> set s. 33 \<le> bv c \<and> bv c < 128)"

lemma strip_runes_stop:
  assumes "\<forall>r \<in> set rs. r = [] \<or> s = [] \<or> take (length r) s \<noteq> r"
  shows "strip_runes rs s = s"
proof -
  have "find (\<lambda>r. r \<noteq> [] \<and> s \<noteq> [] \<and> take (length r) s = r) rs = None"
    using assms by (auto simp: find_None_iff)
  then show ?thesis by (simp add: strip_runes.simps [of rs s])
qed

lemma strip_runes_Nil: "strip_runes rs [] = []"
  by (rule strip_runes_stop) auto

lemma space_rune_bytes:
  assumes "r \<in> set space_runes"
  shows "r \<noteq> []" "\<forall>c \<in> set r. bv c < 33 \<or> 128 \<le> bv c"
  using assms by (auto simp: space_runes_def byte_def)

lemma strip_runes_solid:
  assumes "33 \<le> bv c" "bv c < 128"
  shows "strip_runes space_runes (c # s) = c # s" "strip_runes (map rev space_runes) (c # s) = c # s"
proof -
  have "take (length r) (c # s) \<noteq> r" if r: "r \<noteq> []" "\<forall>x \<in> set r. bv x < 33 \<or> 128 \<le> bv x" for r
    using r assms by (cases r) auto
  then have "take (length r) (c # s) \<noteq> r" "take (length r) (c # s) \<noteq> rev r" if "r \<in> set space_runes" for r
    using space_rune_bytes [OF that] by (metis length_rev rev_is_Nil_conv set_rev)+
  then show "strip_runes space_runes (c # s) = c # s" "strip_runes (map rev space_runes) (c # s) = c # s"
    by (auto intro!: strip_runes_stop)
qed

lemma TrimSpace_solid:
  assumes "no_space s"
  shows "TrimSpace s = s"
proof (cases s rule: rev_cases)
  case Nil
  then show ?thesis by (simp add: TrimSpace_def strip_runes_Nil)
next
  case (snoc u c)
  have c: "33 \<le> bv c" "bv c < 128" using assms snoc by (auto simp: no_space_def)
  have "strip_runes space_runes s = s"
  proof (cases s)
    case (Cons a t)
    then show ?thesis using strip_runes_solid(1) [of a t] assms by (auto simp: no_space_def)
  qed (simp add: snoc)
  then show ?thesis using strip_runes_solid(2) [OF c, of "rev u"] snoc by (simp add: TrimSpace_def)
qed
lemma strip_runes_before:
  assumes "\<forall>r \<in> set rs. c \<notin> set r"
  shows "\<exists>x'. strip_runes rs (x @ c # y) = x' @ c # y \<and> set x' \<subseteq> set x"
proof (induction "length x" arbitrary: x rule: less_induct)
  case less
  let ?s = "x @ c # y" and ?P = "\<lambda>r s. r \<noteq> [] \<and> s \<noteq> [] \<and> take (length r) s = r"
  show ?case
  proof (cases "find (\<lambda>r. ?P r ?s) rs")
    case None
    then show ?thesis by (subst strip_runes.simps) auto
  next
    case (Some r)
    then have r: "r \<in> set rs" "r \<noteq> []" "take (length r) ?s = r" by (auto simp: find_Some_iff)
    have "length r \<le> length x"
    proof (rule ccontr)
      assume "\<not> length r \<le> length x"
      then have "c \<in> set (take (length r) ?s)" by (cases "length r - length x") auto
      then show False using r assms by metis
    qed
    then have drop: "drop (length r) ?s = drop (length r) x @ c # y" by simp
    have "length (drop (length r) x) < length x" using r(2) \<open>length r \<le> length x\<close> by (cases r) auto
    from less [OF this] obtain x' where
      "strip_runes rs (drop (length r) x @ c # y) = x' @ c # y" "set x' \<subseteq> set x"
      by (meson in_set_dropD subset_iff)
    then show ?thesis using Some drop by (subst strip_runes.simps) auto
  qed
qed

lemma byte_eq: "n < 256 \<Longrightarrow> byte n = c \<longleftrightarrow> n = bv c"
  by (auto simp: byte_def)

lemma strip_runes_blank: "strip_runes (map rev space_runes) (CHR '' '' # s) = strip_runes (map rev space_runes) s"
proof -
  let ?P = "\<lambda>r. r \<noteq> [] \<and> CHR '' '' # s \<noteq> [] \<and> take (length r) (CHR '' '' # s) = r"
  have only: "r = '' ''" if "r \<in> set (map rev space_runes)" "hd r = CHR '' ''" for r
    using that by (auto simp: space_runes_def byte_eq)
  have "byte 32 = CHR '' ''" by (simp add: byte_eq)
  then have "'' '' \<in> set (map rev space_runes)" "?P '' ''" by (simp_all add: space_runes_def)
  then have "find ?P (map rev space_runes) \<noteq> None" unfolding find_None_iff by blast
  then obtain r where r: "find ?P (map rev space_runes) = Some r" by blast
  then have "r \<in> set (map rev space_runes)" "?P r" by (auto simp: find_Some_iff)
  moreover from this(2) have "hd r = CHR '' ''" by (cases r) auto
  ultimately have "r = '' ''" using only by blast
  then show ?thesis using r by (subst strip_runes.simps) simp
qed

lemma TrimSpace_blanks:
  assumes "no_space s" "s \<noteq> []"
  shows "TrimSpace (s @ replicate k (CHR '' '')) = s"
proof -
  have "strip_runes (map rev space_runes) (replicate k (CHR '' '') @ t) = strip_runes (map rev space_runes) t" for t
    by (induction k) (simp_all add: strip_runes_blank)
  moreover have "strip_runes space_runes (s @ t) = s @ t" for t
    using assms strip_runes_solid(1) by (cases s) (auto simp: no_space_def)
  ultimately show ?thesis using TrimSpace_solid [OF assms(1)] by (simp add: TrimSpace_def) (metis append.right_neutral)
qed

text \<open>
  A line of a list: a prefix as it prints, blanks, and a comment after \<open>#\<close> or \<open>;\<close> unless the line ends.
\<close>

definition list_line :: "Prefix \<Rightarrow> nat \<Rightarrow> string \<Rightarrow> string" where
  "list_line p blanks comment = Prefix_String p @ replicate blanks (CHR '' '') @ comment"

definition list_line_ok :: "Prefix \<times> nat \<times> string \<Rightarrow> bool" where
  "list_line_ok = (\<lambda>(p, blanks, comment). pfx_ok p \<and> (comment \<noteq> [] \<longrightarrow> is_comment_char (hd comment))
     \<and> CHR 0x0A \<notin> set comment \<and> length (list_line p blanks comment) < 65536)"

lemma comment_solid: "is_comment_char c \<Longrightarrow> 33 \<le> bv c \<and> bv c < 128"
  by (auto simp: is_comment_char_def)

lemma TrimSpace_comment:
  assumes "no_space s" "s \<noteq> []" "is_comment_char c"
  shows "\<exists>t'. TrimSpace (s @ replicate k (CHR '' '') @ c # t) = s @ replicate k (CHR '' '') @ c # t'"
proof -
  have "strip_runes space_runes (s @ u) = s @ u" for u
    using assms(1,2) strip_runes_solid(1) by (cases s) (auto simp: no_space_def)
  moreover have "\<forall>r \<in> set (map rev space_runes). c \<notin> set r"
    using space_rune_bytes(2) comment_solid [OF assms(3)] by fastforce
  from strip_runes_before [OF this, of "rev t" "rev (s @ replicate k (CHR '' ''))"] obtain x' where
    "strip_runes (map rev space_runes) (rev t @ c # rev (s @ replicate k (CHR '' ''))) = x' @ c # rev (s @ replicate k (CHR '' ''))"
    by blast
  ultimately show ?thesis by (simp add: TrimSpace_def)
qed
text \<open>Printed prefixes hold digits, dots, colons and a slash only.\<close>

lemma digit_char_solid: "d < 16 \<Longrightarrow> 33 \<le> bv (digit_char d) \<and> bv (digit_char d) < 128"
  by (simp add: of_char_digit_char)

lemma no_space_radix: "2 \<le> b \<Longrightarrow> b \<le> 16 \<Longrightarrow> no_space (radix_str b n)"
  using set_radix_str [of b n] digit_char_solid by (fastforce simp: no_space_def)

lemma no_space_append [simp]: "no_space (a @ b) \<longleftrightarrow> no_space a \<and> no_space b" "no_space []"
  "no_space (c # s) \<longleftrightarrow> 33 \<le> bv c \<and> bv c < 128 \<and> no_space s"
  by (auto simp: no_space_def)

lemma no_space_join: "no_space sep \<Longrightarrow> \<forall>f \<in> set fs. no_space f \<Longrightarrow> no_space (join_with sep fs)"
  by (induction sep fs rule: join_with.induct) auto

lemma no_space_Prefix_String:
  assumes "pfx_ok p"
  shows "no_space (Prefix_String p)" "Prefix_String p \<noteq> []"
proof -
  have four: "no_space (string4 w)" for w
    unfolding string4_def by (intro no_space_join) (auto intro: no_space_radix)
  have groups: "no_space (string_groups gs)" for gs
    by (auto simp: string_groups_def Let_def split: prod.splits intro!: no_space_join no_space_radix)
  have six: "no_space (string6 w)" for w unfolding string6_def by (rule groups)
  have "Zone (Prefix_Addr p) = []" "Prefix_Addr p \<noteq> AddrZero"
    using assms by (auto simp: pfx_ok_def pfx_wf_def Prefix_IsValid_def)
  then have "no_space (Addr_String (Prefix_Addr p))"
    by (cases "Prefix_Addr p") (auto simp: four six zone_suffix_def)
  then show "no_space (Prefix_String p)"
    using assms by (auto simp: Prefix_String_def Itoa_def pfx_ok_def intro: no_space_radix)
  show "Prefix_String p \<noteq> []" by (simp add: Prefix_String_def)
qed
lemma comment_not_printed: "pfx_ok p \<Longrightarrow> \<forall>c \<in> set (Prefix_String p). \<not> is_comment_char c \<and> c \<noteq> CHR 0x0A \<and> c \<noteq> CHR 0x0D"
proof (intro ballI)
  fix c assume p: "pfx_ok p" and c: "c \<in> set (Prefix_String p)"
  have "Zone (Prefix_Addr p) = []" "Prefix_IsValid p" using p by (auto simp: pfx_ok_def pfx_wf_def)
  then have "d \<notin> set (Prefix_String p)" if "digit_value d = None" "d \<notin> set ''./:-invalid IP''" for d
    using not_in_Addr_String [of d "Prefix_Addr p"] in_Itoa [of d] that by (auto simp: Prefix_String_def)
  note free = this
  have "CHR ''#'' \<notin> set (Prefix_String p)" "CHR '';'' \<notin> set (Prefix_String p)"
    "CHR 0x0A \<notin> set (Prefix_String p)" "CHR 0x0D \<notin> set (Prefix_String p)"
    by (rule free; simp add: digit_value_def)+
  then show "\<not> is_comment_char c \<and> c \<noteq> CHR 0x0A \<and> c \<noteq> CHR 0x0D"
    using c by (auto simp: is_comment_char_def)
qed

lemma parse_line_printed:
  assumes "pfx_ok p" "comment \<noteq> [] \<longrightarrow> is_comment_char (hd comment)"
  shows "parse_line (Prefix_String p @ replicate k (CHR '' '') @ comment) = [p]"
proof -
  let ?s = "Prefix_String p" and ?b = "replicate k (CHR '' '')"
  have s: "no_space ?s" "?s \<noteq> []" using no_space_Prefix_String [OF assms(1)] by auto
  have free: "\<forall>c \<in> set ?s. \<not> is_comment_char c" using comment_not_printed [OF assms(1)] by blast
  have hd: "hd (?s @ u) = hd ?s" "\<not> is_comment_char (hd ?s)" for u using s(2) free by simp_all
  have parse: "ParsePrefix ?s = Some p" "Masked p = p"
    using ParsePrefix_String [of p] assms(1) by (auto simp: pfx_ok_def)
  show ?thesis
  proof (cases comment)
    case Nil
    have "\<not> list_ex is_comment_char ?s" using free by (simp add: list_ex_iff)
    then show ?thesis using Nil TrimSpace_blanks [OF s, of k] parse hd(2) s(2) by (simp add: parse_line_def)
  next
    case (Cons c t)
    then have c: "is_comment_char c" using assms(2) by simp
    obtain t' where t': "TrimSpace (?s @ ?b @ c # t) = ?s @ ?b @ c # t'" using TrimSpace_comment [OF s c] by blast
    have "\<not> is_comment_char (CHR '' '')" by (simp add: is_comment_char_def)
    then have "\<forall>x \<in> set (?s @ ?b). \<not> is_comment_char x" using free by (simp add: ball_Un)
    then have take: "takeWhile (\<lambda>x. \<not> is_comment_char x) (?s @ ?b @ c # t') = ?s @ ?b"
      using c by (subst append_assoc [symmetric], subst takeWhile_append2) auto
    define u where "u = ?s @ ?b @ c # t'"
    have u: "u \<noteq> []" "\<not> is_comment_char (hd u)" "list_ex is_comment_char u"
      "takeWhile (\<lambda>x. \<not> is_comment_char x) u = ?s @ ?b"
      using c hd s(2) take by (simp_all add: u_def)
    show ?thesis
      unfolding parse_line_def Cons t' u_def [symmetric] using u TrimSpace_blanks [OF s, of k] parse by simp
  qed
qed

lemma scan_lines_terminated:
  assumes "\<forall>l \<in> set ls. CHR 0x0A \<notin> set l \<and> length l < 65536"
  shows "scan_lines (concat (map (\<lambda>l. l @ [CHR 0x0A]) ls)) = map drop_cr ls"
proof -
  have "split_on (CHR 0x0A) (concat (map (\<lambda>l. l @ [CHR 0x0A]) ls)) = ls @ [[]]"
    using assms by (induction ls) (auto simp: split_on_append)
  then show ?thesis using assms by (simp add: scan_lines_def takeWhile_eq_all_conv [THEN iffD2])
qed

lemma drop_cr_line:
  assumes "pfx_ok p" "comment \<noteq> [] \<longrightarrow> is_comment_char (hd comment)"
  shows "\<exists>c'. drop_cr (list_line p k comment) = Prefix_String p @ replicate k (CHR '' '') @ c'
    \<and> (c' \<noteq> [] \<longrightarrow> is_comment_char (hd c'))"
proof (cases comment rule: rev_cases)
  case Nil
  have "last (Prefix_String p) \<noteq> CHR 0x0D"
    using comment_not_printed [OF assms(1)] no_space_Prefix_String(2) [OF assms(1)] last_in_set by blast
  then have "last (Prefix_String p @ replicate k (CHR '' '')) \<noteq> CHR 0x0D" by (cases k) (simp_all add: last_append)
  then show ?thesis using Nil by (auto simp: list_line_def drop_cr_def)
next
  case (snoc c x)
  show ?thesis
  proof (cases "x = CHR 0x0D")
    case True
    then have "c \<noteq> []" using assms(2) snoc by (auto simp: is_comment_char_def)
    then show ?thesis using True snoc assms(2)
      by (intro exI [of _ c]) (simp add: list_line_def drop_cr_def butlast_append hd_append)
  next
    case False
    then show ?thesis using snoc assms(2) by (auto simp: list_line_def drop_cr_def)
  qed
qed

text \<open>A list of printed prefixes, with comments or without, is read back whole and in order.\<close>

lemma txt_Parse_list:
  assumes "\<forall>e \<in> set es. list_line_ok e"
  shows "txt_Parse (concat (map (\<lambda>(p, k, c). list_line p k c @ [CHR 0x0A]) es)) = map fst es"
proof -
  let ?ls = "map (\<lambda>(p, k, c). list_line p k c) es"
  have "\<forall>l \<in> set ?ls. CHR 0x0A \<notin> set l \<and> length l < 65536"
    using assms comment_not_printed by (fastforce simp: list_line_ok_def list_line_def)
  then have "scan_lines (concat (map (\<lambda>(p, k, c). list_line p k c @ [CHR 0x0A]) es)) = map drop_cr ?ls"
    using scan_lines_terminated [of ?ls] by (simp add: comp_def split_def)
  moreover have "parse_line (drop_cr (list_line p k c)) = [p]" if "(p, k, c) \<in> set es" for p k c
  proof -
    have ok: "pfx_ok p" "c \<noteq> [] \<longrightarrow> is_comment_char (hd c)" using assms that by (auto simp: list_line_ok_def)
    show ?thesis using drop_cr_line [OF ok, of k] parse_line_printed [OF ok(1)] by metis
  qed
  then have "map parse_line (map drop_cr ?ls) = map (\<lambda>e. [fst e]) es" by auto
  ultimately show ?thesis unfolding txt_Parse_def by (simp only:) (induction es; simp)
qed

end
