(* ===== verification/State_Store.thy ===== *)
theory State_Store
  imports Providers
begin

text \<open>
  \<open>internal/state\<close>: the last known good prefixes of a group, kept in one JSON file per group. The path
  of the file, the text \<open>json.MarshalIndent\<close> writes, its decoding, and both operations with their
  error branches. A time is its RFC 3339 text, which is what both sides of the file see.
\<close>

section \<open>Paths\<close>

text \<open>\<open>filepath.Clean\<close> over the segments of a path, the stack of kept ones last first.\<close>

definition clean_step :: "bool \<Rightarrow> string \<Rightarrow> string list \<Rightarrow> string list" where
  "clean_step rooted seg stack =
     (if seg = [] \<or> seg = ''.'' then stack
      else if seg = ''..'' then
        (case stack of
           s # rest \<Rightarrow> if s = ''..'' then seg # stack else rest
         | [] \<Rightarrow> if rooted then [] else [seg])
      else seg # stack)"

definition clean_segments :: "string \<Rightarrow> string list" where
  "clean_segments path = fold (clean_step (take 1 path = ''/'')) (split_on (CHR ''/'') path) []"

definition Clean :: "string \<Rightarrow> string" where
  "Clean path =
     (let body = join_with ''/'' (rev (clean_segments path)) in
      if take 1 path = ''/'' then CHR ''/'' # body else if body = [] then ''.'' else body)"

definition Join :: "string \<Rightarrow> string \<Rightarrow> string" where
  "Join dir file =
     (if dir \<noteq> [] then Clean (dir @ ''/'' @ file) else if file \<noteq> [] then Clean file else [])"

record Store =
  Dir :: string

definition state_New :: "string \<Rightarrow> Store" where
  "state_New dir = \<lparr>Dir = dir\<rparr>"

definition path :: "Store \<Rightarrow> string \<Rightarrow> string" where
  "path s grp = Join (Dir s) (grp @ ''.json'')"

section \<open>The file\<close>

record GroupState =
  Group :: string
  SourceType :: string
  Prefixes :: "string list"
  FetchedAt :: string
  FromFallback :: bool

definition zero_GroupState :: GroupState where
  "zero_GroupState = \<lparr>Group = [], SourceType = [], Prefixes = [], FetchedAt = ''0001-01-01T00:00:00Z'',
     FromFallback = False\<rparr>"

text \<open>The times \<open>time.Time\<close> writes to and reads from JSON.\<close>

definition field :: "nat \<Rightarrow> nat \<Rightarrow> string \<Rightarrow> string" where
  "field a n s = take n (drop a s)"

definition num_in :: "nat \<Rightarrow> nat \<Rightarrow> string \<Rightarrow> bool" where
  "num_in lo hi s \<longleftrightarrow> list_all is_digit s \<and>
     (case radix_val 10 s of None \<Rightarrow> False | Some v \<Rightarrow> lo \<le> v \<and> v \<le> hi)"

definition days_in :: "nat \<Rightarrow> nat \<Rightarrow> nat" where
  "days_in month year =
     (if month = 2 then (if year mod 4 = 0 \<and> (year mod 100 \<noteq> 0 \<or> year mod 400 = 0) then 29 else 28)
      else if month \<in> {4, 6, 9, 11} then 30 else 31)"

definition zone_ok :: "string \<Rightarrow> bool" where
  "zone_ok s \<longleftrightarrow> s = ''Z'' \<or> length s = 6 \<and> s ! 0 \<in> {CHR ''+'', CHR ''-''} \<and> num_in 0 23 (field 1 2 s)
     \<and> s ! 3 = CHR '':'' \<and> num_in 0 59 (field 4 2 s)"

definition skip_fraction :: "string \<Rightarrow> string" where
  "skip_fraction s =
     (if 2 \<le> length s \<and> s ! 0 = CHR ''.'' \<and> is_digit (s ! 1) then dropWhile is_digit (drop 1 s) else s)"

definition rfc3339 :: "string \<Rightarrow> bool" where
  "rfc3339 s \<longleftrightarrow> 19 \<le> length s
     \<and> num_in 0 9999 (field 0 4 s) \<and> s ! 4 = CHR ''-'' \<and> num_in 1 12 (field 5 2 s) \<and> s ! 7 = CHR ''-''
     \<and> num_in 1 (days_in (the (radix_val 10 (field 5 2 s))) (the (radix_val 10 (field 0 4 s)))) (field 8 2 s)
     \<and> s ! 10 = CHR ''T'' \<and> num_in 0 23 (field 11 2 s) \<and> s ! 13 = CHR '':'' \<and> num_in 0 59 (field 14 2 s)
     \<and> s ! 16 = CHR '':'' \<and> num_in 0 59 (field 17 2 s) \<and> zone_ok (skip_fraction (drop 19 s))"

definition newline_indent :: "nat \<Rightarrow> string" where
  "newline_indent k = CHR 0x0A # replicate (2 * k) (CHR '' '')"

definition member :: "string \<Rightarrow> string \<Rightarrow> string" where
  "member name value = newline_indent 1 @ quote name @ '': '' @ value"

definition marshal_strings :: "string list \<Rightarrow> string" where
  "marshal_strings ss =
     (if ss = [] then ''null''
      else CHR ''['' # newline_indent 2 @ join_with (CHR '','' # newline_indent 2) (map quote ss)
        @ newline_indent 1 @ '']'')"

text \<open>
  \<open>json.MarshalIndent(st, "", "  ")\<close>. A slice that was never appended to is nil, written as null; a time
  that RFC 3339 cannot express is an error.
\<close>

definition MarshalIndent :: "GroupState \<Rightarrow> string option" where
  "MarshalIndent st =
     (if \<not> rfc3339 (FetchedAt st) then None
      else Some (CHR ''{'' # member ''group'' (quote (Group st)) @ '',''
        @ member ''source_type'' (quote (SourceType st)) @ '',''
        @ member ''prefixes'' (marshal_strings (Prefixes st)) @ '',''
        @ member ''fetched_at'' (quote (FetchedAt st))
        @ (if FromFallback st then '','' @ member ''from_fallback'' ''true'' else [])
        @ newline_indent 0 @ ''}''))"

definition store_time :: "string store" where
  "store_time j old = (case j of JNull \<Rightarrow> Some old | JStr raw v \<Rightarrow> if rfc3339 raw then Some raw else None | _ \<Rightarrow> None)"

text \<open>The second component holds what the array behind \<open>Prefixes\<close> has beyond the slice.\<close>

definition store_group :: "(GroupState \<times> string list) store" where
  "store_group = store_struct
     [(''group'', \<lambda>j (st, x). map_option (\<lambda>v. (st\<lparr>Group := v\<rparr>, x)) (store_string j (Group st))),
      (''source_type'', \<lambda>j (st, x). map_option (\<lambda>v. (st\<lparr>SourceType := v\<rparr>, x)) (store_string j (SourceType st))),
      (''prefixes'', \<lambda>j (st, x). map_option (\<lambda>(v, x'). (st\<lparr>Prefixes := v\<rparr>, x')) (store_strings j (Prefixes st, x))),
      (''fetched_at'', \<lambda>j (st, x). map_option (\<lambda>v. (st\<lparr>FetchedAt := v\<rparr>, x)) (store_time j (FetchedAt st))),
      (''from_fallback'', \<lambda>j (st, x). map_option (\<lambda>v. (st\<lparr>FromFallback := v\<rparr>, x)) (store_bool j (FromFallback st)))]"

section \<open>Operations\<close>

datatype state_error = StateIO string | StateEncode | StateDecode

definition SaveGroup ::
  "'w Env \<Rightarrow> Store \<Rightarrow> string \<Rightarrow> string \<Rightarrow> Prefix list \<Rightarrow> 'w \<Rightarrow> state_error option \<times> 'w" where
  "SaveGroup env s grp sourceType prefixes w =
     (case mkdir_all env (Dir s) w of
        (Some e, w1) \<Rightarrow> (Some (StateIO e), w1)
      | (None, w1) \<Rightarrow>
          let st = zero_GroupState\<lparr>Group := grp, SourceType := sourceType, FetchedAt := now env w1,
                Prefixes := map Prefix_String prefixes\<rparr> in
          case MarshalIndent st of
            None \<Rightarrow> (Some StateEncode, w1)
          | Some b \<Rightarrow>
              (case write_file env (path s grp) b w1 of
                 (Some e, w2) \<Rightarrow> (Some (StateIO e), w2)
               | (None, w2) \<Rightarrow> (None, w2)))"

definition parse_stored :: "string \<Rightarrow> Prefix list" where
  "parse_stored raw = (case ParsePrefix raw of None \<Rightarrow> [] | Some p \<Rightarrow> [Masked p])"

definition LoadGroup ::
  "'w Env \<Rightarrow> Store \<Rightarrow> string \<Rightarrow> 'w \<Rightarrow> (state_error, Prefix list \<times> GroupState) result" where
  "LoadGroup env s grp w =
     (case read_file env (path s grp) w of
        Inl e \<Rightarrow> Inl (StateIO e)
      | Inr b \<Rightarrow>
          (case Unmarshal store_group b (zero_GroupState, []) of
             None \<Rightarrow> Inl StateDecode
           | Some (st, _) \<Rightarrow> Inr (concat (map parse_stored (Prefixes st)), st)))"

section \<open>What is written can be read\<close>

definition json_plain :: "char \<Rightarrow> bool" where
  "json_plain c \<longleftrightarrow> is_digit c \<or> c \<in> set ''-:TZ+.''"

lemma json_plainD:
  assumes "json_plain c"
  shows "bv c < 128" "quote_ascii c = [c]"
  using assms by (auto simp: json_plain_def quote_ascii_def is_digit_def)

lemma quote_body_plain: "\<forall>c \<in> set s. json_plain c \<Longrightarrow> quote_body s = s \<and> to_valid_utf8 s = s"
  by (induction s) (simp_all add: quote_body.simps json_plainD to_valid_utf8_ascii)

lemma num_in_digits: "num_in lo hi (field a n s) \<Longrightarrow> a \<le> i \<Longrightarrow> i < a + n \<Longrightarrow> i < length s \<Longrightarrow> is_digit (s ! i)"
proof -
  assume a: "num_in lo hi (field a n s)" "a \<le> i" "i < a + n" "i < length s"
  then have "field a n s ! (i - a) = s ! i" "i - a < length (field a n s)" by (auto simp: field_def)
  then show "is_digit (s ! i)" using a(1) by (metis num_in_def list_all_length)
qed

lemma zone_ok_plain:
  assumes "zone_ok s"
  shows "\<forall>c \<in> set s. json_plain c"
proof (cases "s = ''Z''")
  case False
  then have z: "length s = 6" "s ! 0 \<in> {CHR ''+'', CHR ''-''}" "num_in 0 23 (field 1 2 s)" "s ! 3 = CHR '':''"
    "num_in 0 59 (field 4 2 s)" using assms by (auto simp: zone_ok_def)
  have "json_plain (s ! i)" if "i < 6" for i
  proof -
    have "i = 0 \<or> 1 \<le> i \<and> i < 1 + 2 \<or> i = 3 \<or> 4 \<le> i \<and> i < 4 + 2" using that by arith
    then show ?thesis
      using z num_in_digits [OF z(3), of i] num_in_digits [OF z(5), of i] by (auto simp: json_plain_def)
  qed
  then show ?thesis using z(1) by (metis in_set_conv_nth)
qed (simp add: json_plain_def)

lemma skip_fraction_plain: "\<forall>c \<in> set (skip_fraction s). json_plain c \<Longrightarrow> \<forall>c \<in> set s. json_plain c"
proof (cases "2 \<le> length s \<and> s ! 0 = CHR ''.'' \<and> is_digit (s ! 1)")
  case True
  assume p: "\<forall>c \<in> set (skip_fraction s). json_plain c"
  obtain t where s: "s = CHR ''.'' # t" using True by (cases s) auto
  have "set t \<subseteq> set (takeWhile is_digit t) \<union> set (dropWhile is_digit t)"
    by (metis order_refl set_append takeWhile_dropWhile_id)
  moreover have "\<forall>c \<in> set (takeWhile is_digit t). json_plain c" by (auto simp: json_plain_def dest: set_takeWhileD)
  ultimately show ?thesis using p True s by (auto simp: skip_fraction_def json_plain_def)
qed (auto simp: skip_fraction_def split: if_splits)

lemma rfc3339_plain:
  assumes "rfc3339 s"
  shows "\<forall>c \<in> set s. json_plain c"
proof -
  note r = assms [unfolded rfc3339_def]
  have "json_plain (s ! i)" if "i < 19" for i
  proof -
    have len: "i < length s" using r that by simp
    have "i \<in> {4, 7, 10, 13, 16} \<or> (0 \<le> i \<and> i < 0 + 4) \<or> (5 \<le> i \<and> i < 5 + 2) \<or> (8 \<le> i \<and> i < 8 + 2)
        \<or> (11 \<le> i \<and> i < 11 + 2) \<or> (14 \<le> i \<and> i < 14 + 2) \<or> (17 \<le> i \<and> i < 17 + 2)"
      unfolding insert_iff empty_iff using \<open>i < 19\<close> by arith
    then have "i \<in> {4, 7, 10, 13, 16} \<or> is_digit (s ! i)"
      using r by (elim conjE disjE) (blast intro: num_in_digits [OF _ _ _ len])+
    then show ?thesis using r by (elim disjE) (auto simp: json_plain_def)
  qed
  then have "\<forall>c \<in> set (take 19 s). json_plain c" using r by (auto simp: in_set_conv_nth)
  moreover have "\<forall>c \<in> set (drop 19 s). json_plain c" using r zone_ok_plain skip_fraction_plain by blast
  ultimately show ?thesis by (metis Un_iff append_take_drop_id set_append)
qed

lemma newline_indent_ws: "\<forall>c \<in> set (newline_indent k). is_ws c"
  by (auto simp: newline_indent_def)

lemma skip_ws_member: "skip_ws (member name value @ rest) = CHR 0x22 # quote_body name @ CHR 0x22 # '': '' @ value @ rest"
  using skip_ws_app [OF newline_indent_ws [of 1], of "quote name @ '': '' @ value @ rest"]
  by (simp add: member_def quote_def skip_ws_solid)

text \<open>A value that is read whatever follows it, and does not start with white space.\<close>

definition self_delimiting :: "nat \<Rightarrow> string \<Rightarrow> json \<Rightarrow> bool" where
  "self_delimiting d value v \<longleftrightarrow>
     (\<forall>t. parse_value d (value @ t) = Some (v, t) \<and> skip_ws (value @ t) = value @ t)"

lemma parse_member:
  assumes "self_delimiting d value v"
  shows "skip_ws rest = CHR ''}'' # t \<Longrightarrow>
      parse_members d (skip_ws (member name value @ rest)) = Some ([(to_valid_utf8 name, v)], t)"
    "parse_members d (skip_ws others) = Some (ms, r) \<Longrightarrow>
      parse_members d (skip_ws (member name value @ CHR '','' # others)) = Some ((to_valid_utf8 name, v) # ms, r)"
proof -
  have colon: "skip_ws ('': '' @ value @ t) = CHR '':'' # CHR '' '' # value @ t" for t by (simp add: skip_ws_solid)
  have val: "parse_value d (skip_ws (CHR '' '' # value @ t)) = Some (v, t)" for t
    using assms skip_ws_app [of "'' ''" "value @ t"] by (simp add: self_delimiting_def)
  note step = parse_members_step [OF parse_str_quote_body colon val]
  show "skip_ws rest = CHR ''}'' # t \<Longrightarrow>
      parse_members d (skip_ws (member name value @ rest)) = Some ([(to_valid_utf8 name, v)], t)"
    unfolding skip_ws_member by (rule step(1))
  show "parse_members d (skip_ws others) = Some (ms, r) \<Longrightarrow>
      parse_members d (skip_ws (member name value @ CHR '','' # others)) = Some ((to_valid_utf8 name, v) # ms, r)"
    unfolding skip_ws_member by (rule step(2)) (simp_all add: skip_ws_solid)
qed
definition stored_json :: "GroupState \<Rightarrow> json" where
  "stored_json st = JObj
     ([(''group'', JStr (quote_body (Group st)) (to_valid_utf8 (Group st))),
       (''source_type'', JStr (quote_body (SourceType st)) (to_valid_utf8 (SourceType st))),
       (''prefixes'', if Prefixes st = [] then JNull
          else JArr (map (\<lambda>s. JStr (quote_body s) (to_valid_utf8 s)) (Prefixes st))),
       (''fetched_at'', JStr (quote_body (FetchedAt st)) (to_valid_utf8 (FetchedAt st)))]
      @ (if FromFallback st then [(''from_fallback'', JBool True)] else []))"

lemma self_delimiting_quote: "self_delimiting d (quote s) (JStr (quote_body s) (to_valid_utf8 s))"
  by (simp add: self_delimiting_def parse_value_quote) (simp add: quote_def skip_ws_solid)

lemma self_delimiting_true: "self_delimiting d ''true'' (JBool True)"
  by (simp add: self_delimiting_def parse_value_scalar parse_scalar_def parse_lit_def skip_ws_solid)

lemma self_delimiting_strings:
  "self_delimiting (Suc d) (marshal_strings ss)
     (if ss = [] then JNull else JArr (map (\<lambda>s. JStr (quote_body s) (to_valid_utf8 s)) ss))"
proof (cases "ss = []")
  case True
  then show ?thesis
    by (simp add: self_delimiting_def marshal_strings_def parse_value_scalar parse_scalar_def parse_lit_def skip_ws_solid)
next
  case False
  note parse_value_strings [OF newline_indent_ws newline_indent_ws newline_indent_ws False]
  then show ?thesis using False by (simp add: self_delimiting_def marshal_strings_def skip_ws_solid)
qed

lemma json_names:
  "to_valid_utf8 ''group'' = ''group''" "to_valid_utf8 ''source_type'' = ''source_type''"
  "to_valid_utf8 ''prefixes'' = ''prefixes''" "to_valid_utf8 ''fetched_at'' = ''fetched_at''"
  "to_valid_utf8 ''from_fallback'' = ''from_fallback''"
  by (rule to_valid_utf8_ascii; simp)+

lemma parse_members_state:
  fixes st :: GroupState
  defines "tail \<equiv> (if FromFallback st then '','' @ member ''from_fallback'' ''true'' else []) @ newline_indent 0 @ ''}''"
  shows "parse_members (Suc d) (skip_ws (member ''group'' (quote (Group st)) @ '',''
      @ member ''source_type'' (quote (SourceType st)) @ '',''
      @ member ''prefixes'' (marshal_strings (Prefixes st)) @ '',''
      @ member ''fetched_at'' (quote (FetchedAt st)) @ tail)) =
    Some (case stored_json st of JObj ms \<Rightarrow> ms, [])"
proof -
  let ?str = "\<lambda>s. JStr (quote_body s) (to_valid_utf8 s)"
  have close: "skip_ws (newline_indent 0 @ ''}'') = ''}''"
    using skip_ws_app [OF newline_indent_ws] by (simp add: skip_ws_solid)
  have last: "parse_members (Suc d) (skip_ws (member ''fetched_at'' (quote (FetchedAt st)) @ tail)) =
    Some ((''fetched_at'', ?str (FetchedAt st)) # (if FromFallback st then [(''from_fallback'', JBool True)] else []), [])"
  proof (cases "FromFallback st")
    case False
    then have "tail = newline_indent 0 @ ''}''" by (simp add: tail_def)
    then show ?thesis using parse_member(1) [OF self_delimiting_quote close] False by (simp add: json_names)
  next
    case True
    note parse_member(2) [OF self_delimiting_quote parse_member(1) [OF self_delimiting_true close]]
    then show ?thesis using True by (simp add: tail_def json_names)
  qed
  note parse_member(2) [OF self_delimiting_quote parse_member(2) [OF self_delimiting_quote
        parse_member(2) [OF self_delimiting_strings last]]]
  then show ?thesis by (simp add: stored_json_def json_names)
qed

lemma parse_MarshalIndent:
  assumes "MarshalIndent st = Some b"
  shows "parse_json b = Some (stored_json st)"
proof -
  have "parse_value 10000 b = Some (stored_json st, [])"
  proof -
    have "skip_ws b = b" "b \<noteq> []" using assms by (auto simp: MarshalIndent_def skip_ws_solid split: if_splits)
    obtain t where b: "b = CHR ''{'' # t" "\<exists>u. skip_ws t = CHR 0x22 # u"
      "parse_members 9999 (skip_ws t) = Some (case stored_json st of JObj ms \<Rightarrow> ms, [])"
      using assms parse_members_state [of 9998 st] by (auto simp: MarshalIndent_def skip_ws_member split: if_splits)
    then show ?thesis using parse_value_object [of t _ _ 9999] by (fastforce simp: stored_json_def)
  qed
  moreover have "skip_ws b = b" using assms by (auto simp: MarshalIndent_def skip_ws_solid split: if_splits)
  ultimately show ?thesis by (simp add: parse_json_def skip_ws_def)
qed
text \<open>The names of the members match the fields exactly, so each value is stored in its own field.\<close>

lemma Unmarshal_MarshalIndent:
  assumes "MarshalIndent st = Some b"
  shows "Unmarshal store_group b (zero_GroupState, []) =
    Some (st\<lparr>Group := to_valid_utf8 (Group st), SourceType := to_valid_utf8 (SourceType st),
             Prefixes := map to_valid_utf8 (Prefixes st)\<rparr>, [])"
proof -
  have time: "rfc3339 (FetchedAt st)" using assms by (simp add: MarshalIndent_def split: if_splits)
  have "quote_body (FetchedAt st) = FetchedAt st" using quote_body_plain [OF rfc3339_plain [OF time]] ..
  then have "store_group (stored_json st) (zero_GroupState, []) =
    Some (st\<lparr>Group := to_valid_utf8 (Group st), SourceType := to_valid_utf8 (SourceType st),
             Prefixes := map to_valid_utf8 (Prefixes st)\<rparr>, [])"
    using time by (cases st)
      (auto simp: stored_json_def store_group_def store_struct_def store_string_def store_time_def store_bool_def
        store_strings_fresh zero_GroupState_def store_strings_def [of JNull])
  then show ?thesis using parse_MarshalIndent [OF assms] by (simp add: Unmarshal_def)
qed

lemma Prefix_String_utf8: "pfx_ok p \<Longrightarrow> to_valid_utf8 (Prefix_String p) = Prefix_String p"
  using no_space_Prefix_String(1) by (auto simp: no_space_def intro: to_valid_utf8_ascii)

lemma parse_stored_printed: "pfx_ok p \<Longrightarrow> parse_stored (Prefix_String p) = [p]"
  using ParsePrefix_String [of p] by (simp add: parse_stored_def pfx_ok_def)

lemma LoadGroup_ok:
  assumes "LoadGroup env s grp w = Inr (ps, st)" "p \<in> set ps"
  shows "pfx_ok p"
  using assms by (auto simp: LoadGroup_def parse_stored_def intro: ParsePrefix_Masked_ok [OF sym]
      split: sum.splits option.splits)

section \<open>The file of a group\<close>

text \<open>A group whose name has no slash has a file of its own in the directory.\<close>

lemma clean_segments_file:
  assumes "dir \<noteq> []" "CHR ''/'' \<notin> set file" "file \<notin> {[], ''.'', ''..''}"
  shows "\<exists>segs. clean_segments (dir @ ''/'' @ file) = file # segs \<and>
    segs = fold (clean_step (take 1 dir = ''/'')) (split_on (CHR ''/'') dir) []"
proof -
  have split: "split_on (CHR ''/'') (dir @ CHR ''/'' # file) = split_on (CHR ''/'') dir @ [file]"
  proof (induction dir)
    case (Cons c dir)
    then show ?case by (cases "split_on (CHR ''/'') dir") auto
  qed (simp add: split_on_free assms(2))
  have "take 1 (dir @ ''/'' @ file) = take 1 dir" using assms(1) by (cases dir) auto
  then show ?thesis using split assms(3) by (simp add: clean_segments_def clean_step_def)
qed

lemma join_with_snoc: "xs \<noteq> [] \<Longrightarrow> join_with sep (xs @ [x]) = join_with sep xs @ sep @ x"
  by (induction xs rule: list_nonempty_induct) (auto simp: join_with_Cons)

lemma path_last:
  assumes "CHR ''/'' \<notin> set grp"
  shows "\<exists>pre. path s grp = pre @ grp @ ''.json'' \<and> (pre = [] \<or> last pre = CHR ''/'')"
proof -
  let ?file = "grp @ ''.json''"
  have name: "CHR ''/'' \<notin> set ?file" "?file \<notin> {[], ''.'', ''..''}"
    using assms by (auto simp: append_eq_Cons_conv)
  have clean: "\<exists>pre. Clean p = pre @ ?file \<and> (pre = [] \<or> last pre = CHR ''/'')"
    if "clean_segments p = ?file # segs" for p segs
  proof (cases "rev segs = []")
    case True
    then show ?thesis using that by (auto simp: Clean_def Let_def intro: exI [of _ "''/''"])
  next
    case False
    from that have "join_with ''/'' (rev (clean_segments p)) = join_with ''/'' (rev segs) @ ''/'' @ ?file"
      using join_with_snoc [OF False] by simp
    then have "Clean p = (if take 1 p = ''/'' then ''/'' else []) @ (join_with ''/'' (rev segs) @ ''/'') @ ?file"
      by (simp add: Clean_def)
    then show ?thesis by (intro exI [of _ "(if take 1 p = ''/'' then ''/'' else []) @ join_with ''/'' (rev segs) @ ''/''"]) simp
  qed
  show ?thesis
  proof (cases "Dir s = []")
    case True
    have "clean_segments ?file = [?file]"
      using name by (simp add: clean_segments_def split_on_free clean_step_def)
    then show ?thesis using clean True by (simp add: path_def Join_def)
  next
    case False
    then show ?thesis using clean_segments_file [OF False name] clean by (auto simp: path_def Join_def)
  qed
qed

lemma path_inj:
  assumes "CHR ''/'' \<notin> set g" "CHR ''/'' \<notin> set h" "path s g = path s h"
  shows "g = h"
proof -
  obtain x y where x: "path s g = x @ g @ ''.json''" "x = [] \<or> last x = CHR ''/''"
    and y: "path s h = y @ h @ ''.json''" "y = [] \<or> last y = CHR ''/''"
    using path_last [OF assms(1)] path_last [OF assms(2)] by blast
  have base: "takeWhile (\<lambda>c. c \<noteq> CHR ''/'') (rev (u @ f)) = rev f"
    if "u = [] \<or> last u = CHR ''/''" "CHR ''/'' \<notin> set f" for u f
    using that by (cases u rule: rev_cases) (auto simp: takeWhile_append takeWhile_eq_all_conv)
  have "x @ g = y @ h" using x(1) y(1) assms(3) by simp
  then show ?thesis using base [OF x(2) assms(1)] base [OF y(2) assms(2)] by (metis rev_rev_ident)
qed
section \<open>Saving and loading\<close>

text \<open>What the store relies on of the file system: files are kept under their cleaned path.\<close>

locale file_system =
  fixes env :: "'w Env"
  assumes write_read: "write_file env p b w = (None, w') \<Longrightarrow> read_file env p w' = Inr b"
    and write_other: "write_file env p b w = (e, w') \<Longrightarrow> q \<noteq> p \<Longrightarrow> read_file env q w' = read_file env q w"
    and mkdir_read: "mkdir_all env d w = (e, w') \<Longrightarrow> read_file env q w = Inr c \<Longrightarrow> read_file env q w' = Inr c"
begin

lemma load_saved:
  assumes "SaveGroup env s grp sourceType ps w = (None, w')" "\<forall>p \<in> set ps. pfx_ok p"
  shows "\<exists>st. LoadGroup env s grp w' = Inr (ps, st) \<and> Prefixes st = map Prefix_String ps \<and> \<not> FromFallback st"
proof -
  let ?st = "\<lambda>w1. zero_GroupState\<lparr>Group := grp, SourceType := sourceType, FetchedAt := now env w1,
    Prefixes := map Prefix_String ps\<rparr>"
  obtain w1 b where b: "MarshalIndent (?st w1) = Some b" "write_file env (path s grp) b w1 = (None, w')"
    using assms(1) by (auto simp: SaveGroup_def Let_def split: prod.splits option.splits)
  have "map to_valid_utf8 (map Prefix_String ps) = map Prefix_String ps"
    using assms(2) by (simp add: Prefix_String_utf8)
  then have "Unmarshal store_group b (zero_GroupState, []) =
      Some ((?st w1)\<lparr>Group := to_valid_utf8 grp, SourceType := to_valid_utf8 sourceType\<rparr>, [])"
    using Unmarshal_MarshalIndent [OF b(1)] by simp
  moreover have "concat (map parse_stored (map Prefix_String ps)) = ps"
    using assms(2) by (induction ps) (simp_all add: parse_stored_printed)
  ultimately show ?thesis using write_read [OF b(2)] by (simp add: LoadGroup_def zero_GroupState_def)
qed

lemma save_other:
  assumes "SaveGroup env s grp sourceType ps w = (e, w')" "path s other \<noteq> path s grp"
    and "LoadGroup env s other w = Inr r"
  shows "LoadGroup env s other w' = Inr r"
proof -
  obtain b where b: "read_file env (path s other) w = Inr b"
    using assms(3) by (auto simp: LoadGroup_def split: sum.splits)
  obtain e1 w1 where m: "mkdir_all env (Dir s) w = (e1, w1)" by fastforce
  have "read_file env (path s other) w' = Inr b"
    using assms(1) m mkdir_read [OF m b] write_other [OF _ assms(2)]
    by (auto simp: SaveGroup_def Let_def split: prod.splits option.splits)
  then show ?thesis using assms(3) b by (simp add: LoadGroup_def)
qed

end

end
