(* ===== verification/App.thy ===== *)
theory App
  imports Flags State_Store Health Planner Reconcile
begin

text \<open>
  \<open>internal/app\<close>: loading the configuration with its overrides, turning gateways into candidates,
  building a plan for every group (fetch, fall back, normalise, save, resolve, list, plan), applying
  it, and cleaning up. The state passed through is the metrics registry and the world; log output is
  left out and the plan printed on standard output is part of a result. \<open>ords\<close> are the orders in which
  Go ranges over the maps while a plan is built.
\<close>

section \<open>Configuration\<close>

definition loadConfig :: "'w Env \<Rightarrow> Options \<Rightarrow> 'w \<Rightarrow> (load_error, Config) result" where
  "loadConfig env opts w =
     (case Load (\<lambda>p. read_file env p w) (yaml env) (ConfigPath opts) of
        Inl e \<Rightarrow> Inl e
      | Inr cfg0 \<Rightarrow>
          let cfg1 = (if opt_DisableRUDefault opts then DisableRUDefault cfg0 else cfg0);
              g = c_Global cfg1;
              g = (if opt_LogFormat opts \<noteq> [] then g\<lparr>LogFormat := opt_LogFormat opts\<rparr> else g);
              g = (if Interval opts \<noteq> 0 then g\<lparr>RefreshInterval := Interval opts\<rparr> else g);
              g = (if opt_MetricsListen opts \<noteq> [] then g\<lparr>MetricsListen := opt_MetricsListen opts\<rparr> else g);
              g = (if opt_CleanupOnShutdown opts then g\<lparr>CleanupOnShutdown := True\<rparr> else g) in
          validated (cfg1\<lparr>c_Global := g\<rparr>))"

definition selectLogFormat :: "Options \<Rightarrow> Config \<Rightarrow> string" where
  "selectLogFormat opts cfg = (if opt_LogFormat opts \<noteq> [] then opt_LogFormat opts else LogFormat (c_Global cfg))"

text \<open>\<open>logging.New\<close>: which of the two handlers of \<open>log/slog\<close> the program logs with.\<close>

datatype log_handler = JSONHandler | TextHandler

definition logging_New :: "string \<Rightarrow> log_handler" where
  "logging_New format = (if format = ''json'' then JSONHandler else TextHandler)"

definition ValidateReload :: "'w Env \<Rightarrow> Config \<Rightarrow> Options \<Rightarrow> 'w \<Rightarrow> Config \<times> load_error option" where
  "ValidateReload env current opts w =
     (case loadConfig env opts w of Inl e \<Rightarrow> (current, Some e) | Inr next \<Rightarrow> (next, None))"

section \<open>Gateway candidates\<close>

fun firstNonEmpty :: "string list \<Rightarrow> string" where
  "firstNonEmpty [] = []"
| "firstNonEmpty (v # vs) = (if v \<noteq> [] then v else firstNonEmpty vs)"

definition app_mergeHealthChecks :: "HealthCheck \<Rightarrow> HealthCheck \<Rightarrow> HealthCheck" where
  "app_mergeHealthChecks parent child =
     (let out = parent;
          out = (if 0 < length (hc_Targets child) then out\<lparr>hc_Targets := hc_Targets child\<rparr> else out);
          out = (if hc_Timeout child \<noteq> 0 then out\<lparr>hc_Timeout := hc_Timeout child\<rparr> else out) in
      out)"

definition hop_candidate :: "string \<Rightarrow> string \<Rightarrow> bool \<Rightarrow> HealthCheck \<Rightarrow> string \<Rightarrow> Candidate list" where
  "hop_candidate name dev onLink hc raw =
     (if raw = [] then []
      else case ParseAddr raw of
        None \<Rightarrow> []
      | Some addr \<Rightarrow> [\<lparr>cd_Name = name, cd_Dev = dev, cd_OnLink = onLink, cd_Via = addr, cd_HealthCheck = hc\<rparr>])"

definition candidatesFromHop ::
  "string \<Rightarrow> string \<Rightarrow> bool \<Rightarrow> HealthCheck \<Rightarrow> string \<Rightarrow> string \<Rightarrow> string \<Rightarrow> Candidate list" where
  "candidatesFromHop name dev onLink hc any v4 v6 =
     (let out = hop_candidate (name @ ''-ipv4'') dev onLink hc v4 @ hop_candidate (name @ ''-ipv6'') dev onLink hc v6 in
      if 0 < length out then out else hop_candidate name dev onLink hc any)"

definition candidatesFromGateway ::
  "GatewayConfig \<Rightarrow> string \<Rightarrow> bool \<Rightarrow> HealthCheck \<Rightarrow> nat \<Rightarrow> Candidate list" where
  "candidatesFromGateway gw fallbackDev fallbackOnLink parentHC index =
     (let name = (if gw_Name gw = [] then ''gw'' @ Itoa (int index + 1) else gw_Name gw) in
      candidatesFromHop name (firstNonEmpty [gw_Dev gw, fallbackDev]) (gw_OnLink gw \<or> fallbackOnLink)
        (app_mergeHealthChecks parentHC (gw_HealthCheck gw)) (gw_Via gw) (gw_Via4 gw) (gw_Via6 gw))"

definition gatewaysFromNextHop :: "NextHopConfig \<Rightarrow> Candidate list" where
  "gatewaysFromNextHop h =
     (if length (nh_Gateways h) = 0
      then candidatesFromHop ''primary'' (nh_Dev h) (nh_OnLink h) (nh_HealthCheck h) (nh_Via h) (nh_Via4 h) (nh_Via6 h)
      else concat (map (\<lambda>(i, gw). candidatesFromGateway gw (nh_Dev h) (nh_OnLink h) (nh_HealthCheck h) i)
        (enumerate 0 (nh_Gateways h))))"

definition gatewaysFromTarget :: "TargetConfig \<Rightarrow> Candidate list" where
  "gatewaysFromTarget t =
     (if length (tg_Gateways t) = 0
      then gatewaysFromNextHop \<lparr>nh_Dev = tg_Dev t, nh_Via = tg_Via t, nh_Via4 = tg_Via4 t, nh_Via6 = tg_Via6 t,
        nh_OnLink = tg_OnLink t, nh_HealthCheck = tg_HealthCheck t, nh_Gateways = []\<rparr>
      else concat (map (\<lambda>(i, gw). candidatesFromGateway gw (tg_Dev t) (tg_OnLink t) (tg_HealthCheck t) i)
        (enumerate 0 (tg_Gateways t))))"

fun filterCandidatesByFamily :: "Candidate list \<Rightarrow> int \<Rightarrow> Candidate list" where
  "filterCandidatesByFamily [] family = []"
| "filterCandidatesByFamily (c # cs) family =
     (if \<not> Addr_IsValid (cd_Via c) then filterCandidatesByFamily cs family
      else (if family = 4 \<and> Is4 (cd_Via c) then [c] else [])
        @ (if family = 6 \<and> Is6 (cd_Via c) then [c] else [])
        @ filterCandidatesByFamily cs family)"

text \<open>Selection for one family, when the configured family asks for it.\<close>

definition resolveCandidates ::
  "'w Kernel \<Rightarrow> 'w Pinger \<Rightarrow> string \<Rightarrow> string \<Rightarrow> string \<Rightarrow> Candidate list \<Rightarrow> Registry \<Rightarrow> 'w
     \<Rightarrow> (kernel_error, ResolvedHop list) result \<times> Registry \<times> 'w" where
  "resolveCandidates k ping grp scope family candidates reg w =
     (if length candidates = 0 then (Inr [], reg, w)
      else
        case (if family = [] \<or> family = ''dual'' \<or> family = ''ipv4''
              then Select ''ipv4'' (grp @ ''.'' @ scope) (filterCandidatesByFamily candidates 4) (LinkIndexByName k) ping reg w
              else (Inr [], reg, w)) of
          (Inl e, reg1, w1) \<Rightarrow> (Inl e, reg1, w1)
        | (Inr v4, reg1, w1) \<Rightarrow>
            (case (if family = ''dual'' \<or> family = ''ipv6''
                   then Select ''ipv6'' (grp @ ''.'' @ scope) (filterCandidatesByFamily candidates 6) (LinkIndexByName k) ping reg1 w1
                   else (Inr [], reg1, w1)) of
               (Inl e, reg2, w2) \<Rightarrow> (Inl e, reg2, w2)
             | (Inr v6, reg2, w2) \<Rightarrow> (Inr (v4 @ v6), reg2, w2)))"

definition resolveTargetHops ::
  "'w Kernel \<Rightarrow> 'w Pinger \<Rightarrow> string \<Rightarrow> string \<Rightarrow> string \<Rightarrow> TargetConfig \<Rightarrow> Registry \<Rightarrow> 'w
     \<Rightarrow> (kernel_error, ResolvedHop list) result \<times> Registry \<times> 'w" where
  "resolveTargetHops k ping grp scope family t reg w =
     resolveCandidates k ping grp scope family (gatewaysFromTarget t) reg w"

definition resolveDefaultHops ::
  "'w Kernel \<Rightarrow> 'w Pinger \<Rightarrow> string \<Rightarrow> string \<Rightarrow> NextHopConfig option \<Rightarrow> Registry \<Rightarrow> 'w
     \<Rightarrow> (kernel_error, ResolvedHop list) result \<times> Registry \<times> 'w" where
  "resolveDefaultHops k ping grp family nh reg w =
     (case nh of
        None \<Rightarrow> (Inr [], reg, w)
      | Some h \<Rightarrow> resolveCandidates k ping grp ''default'' family (gatewaysFromNextHop h) reg w)"

section \<open>Exclusions\<close>

definition addrPrefix :: "net_addr \<Rightarrow> Prefix option" where
  "addrPrefix a =
     (case a of
        NetIPNet n \<Rightarrow>
          (case AddrFromSlice (ipn_IP n) of
             None \<Rightarrow> None
           | Some addr \<Rightarrow> Some (Masked (PrefixFrom (Unmap addr) (fst (Mask_Size (ipn_Mask n))))))
      | NetOther s \<Rightarrow> (case ParsePrefix s of None \<Rightarrow> None | Some p \<Rightarrow> Some (Masked p)))"

fun local_prefixes :: "net_addr list \<Rightarrow> Prefix list" where
  "local_prefixes [] = []"
| "local_prefixes (a # as) =
     (case addrPrefix a of
        None \<Rightarrow> local_prefixes as
      | Some prefix \<Rightarrow>
          let addr = Prefix_Addr prefix in
          if \<not> Addr_IsValid addr \<or> IsPrivate addr \<or> IsLoopback addr \<or> IsLinkLocalUnicast addr \<or> IsMulticast addr
             \<or> \<not> IsGlobalUnicast addr
          then local_prefixes as
          else if Is4 addr then PrefixFrom addr 32 # local_prefixes as
          else PrefixFrom addr 128 # local_prefixes as)"

definition localNonPrivatePrefixes :: "'w Env \<Rightarrow> 'w \<Rightarrow> (string, Prefix list) result" where
  "localNonPrivatePrefixes env w =
     (case iface_addrs env w of Inl e \<Rightarrow> Inl e | Inr as \<Rightarrow> Inr (local_prefixes as))"

definition prefixAddrs :: "Prefix list \<Rightarrow> Addr list" where
  "prefixAddrs prefixes = map Prefix_Addr prefixes"

datatype exclusion_error = ExcludeParse string | InterfaceAddrs string

fun parse_excludes :: "string list \<Rightarrow> (exclusion_error, Prefix list) result" where
  "parse_excludes [] = Inr []"
| "parse_excludes (raw # raws) =
     (case ParsePrefix raw of
        None \<Rightarrow> Inl (ExcludeParse raw)
      | Some p \<Rightarrow> bind_result (parse_excludes raws) (\<lambda>ps. Inr (Masked p # ps)))"

definition exclusionInputs :: "'w Env \<Rightarrow> TargetConfig \<Rightarrow> 'w \<Rightarrow> (exclusion_error, Prefix list \<times> Addr list) result" where
  "exclusionInputs env t w =
     (case parse_excludes (tg_ExcludePrefixes t) of
        Inl e \<Rightarrow> Inl e
      | Inr ps \<Rightarrow>
          let throwPrefixes = Normalize (FilterFamily ps (tg_Family t)) False in
          if \<not> tg_ExcludeLocalIPs t then Inr (throwPrefixes, [])
          else (case localNonPrivatePrefixes env w of
              Inl e \<Rightarrow> Inl (InterfaceAddrs e)
            | Inr local \<Rightarrow> Inr (throwPrefixes, prefixAddrs (FilterFamily local (tg_Family t)))))"

section \<open>Building a plan\<close>

datatype app_error =
    Usage
  | FlagError flag_error
  | ConfigRequired
  | ConfigError load_error
  | UnsupportedSource string
  | ResolveTargetDev string string kernel_error
  | ResolveDefaultDev string string kernel_error
  | ResolveTargetGateways string kernel_error
  | ResolveDefaultGateways string kernel_error
  | ListOwnedRoutes string kernel_error
  | ListOwnedRules string kernel_error
  | BuildExclusions string exclusion_error
  | ApplyError kernel_error

definition providerFor :: "'w Env \<Rightarrow> RouteGroup \<Rightarrow> Config \<Rightarrow> (app_error, 'w Provider) result" where
  "providerFor env g cfg =
     (if sc_Type (g_Source g) = ''ripe_country''
      then Inr (ripe_provider env (ripe_New env (sc_Country (g_Source g)) (HTTPTimeout (c_Global cfg))))
      else if sc_Type (g_Source g) = ''txt''
      then Inr (txt_provider env (txt_New (sc_URL (g_Source g)) (HTTPTimeout (c_Global cfg))))
      else Inl (UnsupportedSource (sc_Type (g_Source g))))"

text \<open>
  The prefixes of a group: fetched, or the last known good ones when the fetch fails. \<open>None\<close> is a group
  that is skipped. A failed save is only logged.
\<close>

definition obtain_prefixes ::
  "'w Env \<Rightarrow> Config \<Rightarrow> RouteGroup \<Rightarrow> 'w Provider \<Rightarrow> Registry \<Rightarrow> 'w \<Rightarrow> (Prefix list \<times> bool) option \<times> Registry \<times> 'w" where
  "obtain_prefixes env cfg g provider reg w =
     (let st = state_New (StateDir (c_Global cfg)); agg = EnablePrefixAggregation (c_Global cfg) in
      case Fetch provider w of
        (Inl e, w1) \<Rightarrow>
          let reg1 = Inc ''source_fetch_failure_total'' reg in
          (case LoadGroup env st (g_Name g) w1 of
             Inl _ \<Rightarrow> (None, reg1, w1)
           | Inr (raw, _) \<Rightarrow> (Some (Normalize raw agg, True), reg1, w1))
      | (Inr raw, w1) \<Rightarrow>
          let reg1 = Inc ''source_fetch_success_total'' reg; prefixes = Normalize raw agg in
          (case SaveGroup env st (g_Name g) (sc_Type (g_Source g)) prefixes w1 of
             (_, w2) \<Rightarrow> (Some (prefixes, False), reg1, w2)))"

definition dev_index :: "'w Kernel \<Rightarrow> string \<Rightarrow> 'w \<Rightarrow> (kernel_error, int) result" where
  "dev_index k dev w = (if dev \<noteq> [] then LinkIndexByName k dev w else Inr 0)"

definition default_dev :: "TargetConfig \<Rightarrow> string" where
  "default_dev t = (case tg_Default t of None \<Rightarrow> [] | Some d \<Rightarrow> nh_Dev d)"

text \<open>The rest of the loop body: devices, gateways, what the kernel holds, exclusions.\<close>

definition group_input ::
  "'w Kernel \<Rightarrow> 'w Env \<Rightarrow> Config \<Rightarrow> RouteGroup \<Rightarrow> string \<Rightarrow> Prefix list \<Rightarrow> bool \<Rightarrow> Registry \<Rightarrow> 'w
     \<Rightarrow> (app_error, InputGroup) result \<times> Registry \<times> 'w" where
  "group_input k env cfg g sourceType prefixes fromFallback reg w =
     (let t = g_Target g; gl = c_Global cfg; ping = ExecPinger_Ping (exec env) in
      case dev_index k (tg_Dev t) w of
        Inl e \<Rightarrow> (Inl (ResolveTargetDev (g_Name g) (tg_Dev t) e), reg, w)
      | Inr linkIndex \<Rightarrow>
      case dev_index k (default_dev t) w of
        Inl e \<Rightarrow> (Inl (ResolveDefaultDev (g_Name g) (default_dev t) e), reg, w)
      | Inr defaultLinkIndex \<Rightarrow>
      case resolveTargetHops k ping (g_Name g) ''target'' (tg_Family t) t reg w of
        (Inl e, reg1, w1) \<Rightarrow> (Inl (ResolveTargetGateways (g_Name g) e), reg1, w1)
      | (Inr targetHops, reg1, w1) \<Rightarrow>
      case resolveDefaultHops k ping (g_Name g) (tg_Family t) (tg_Default t) reg1 w1 of
        (Inl e, reg2, w2) \<Rightarrow> (Inl (ResolveDefaultGateways (g_Name g) e), reg2, w2)
      | (Inr defaultHops, reg2, w2) \<Rightarrow>
      case routes_CurrentOwned k (tg_Table t) (RouteProtocol gl) (tg_Family t) w2 of
        Inl e \<Rightarrow> (Inl (ListOwnedRoutes (g_Name g) e), reg2, w2)
      | Inr currentRoutes \<Rightarrow>
      case rules_CurrentOwned k (tg_Table t) (rc_Priority (g_Rule g)) (RulePriorityBase gl) (RulePriorityStep gl)
             (tg_Family t) w2 of
        Inl e \<Rightarrow> (Inl (ListOwnedRules (g_Name g) e), reg2, w2)
      | Inr currentRules \<Rightarrow>
      case exclusionInputs env t w2 of
        Inl e \<Rightarrow> (Inl (BuildExclusions (g_Name g) e), reg2, w2)
      | Inr (throwPrefixes, coveredLocalAddrs) \<Rightarrow>
          (Inr \<lparr>ig_Config = g, ig_Prefixes = prefixes, ig_ThrowPrefixes = throwPrefixes,
             ig_CoveredLocalAddrs = coveredLocalAddrs, ig_SourceType = sourceType, ig_FromFallback = fromFallback,
             ig_LinkIndex = linkIndex, ig_DefaultLinkIndex = defaultLinkIndex, ig_TargetHops = targetHops,
             ig_DefaultHops = defaultHops, ig_CurrentRoutes = currentRoutes, ig_CurrentRules = currentRules\<rparr>, reg2, w2))"

fun build_inputs ::
  "'w Kernel \<Rightarrow> 'w Env \<Rightarrow> Config \<Rightarrow> RouteGroup list \<Rightarrow> Registry \<Rightarrow> 'w
     \<Rightarrow> (app_error, InputGroup list) result \<times> Registry \<times> 'w" where
  "build_inputs k env cfg [] reg w = (Inr [], reg, w)"
| "build_inputs k env cfg (g # gs) reg w =
     (case providerFor env g cfg of
        Inl e \<Rightarrow> (Inl e, reg, w)
      | Inr provider \<Rightarrow>
      case obtain_prefixes env cfg g provider reg w of
        (None, reg1, w1) \<Rightarrow> build_inputs k env cfg gs reg1 w1
      | (Some (prefixes, fromFallback), reg1, w1) \<Rightarrow>
      case group_input k env cfg g (Provider_Type provider) prefixes fromFallback reg1 w1 of
        (Inl e, reg2, w2) \<Rightarrow> (Inl e, reg2, w2)
      | (Inr ig, reg2, w2) \<Rightarrow>
      case build_inputs k env cfg gs reg2 w2 of
        (Inl e, reg3, w3) \<Rightarrow> (Inl e, reg3, w3)
      | (Inr igs, reg3, w3) \<Rightarrow> (Inr (ig # igs), reg3, w3))"

definition plan_gauges :: "GroupPlan \<Rightarrow> Registry \<Rightarrow> Registry" where
  "plan_gauges gp reg =
     SetGroupGauge ''managed_rules'' (gp_Group gp)
       (int (gp_CurrentManagedRuleCount gp) + int (length (gp_RulesToAdd gp)) - int (length (gp_RulesToRemove gp)))
     (SetGroupGauge ''managed_routes'' (gp_Group gp)
       (int (gp_CurrentManagedRouteCount gp) + int (length (gp_RoutesToAdd gp)) - int (length (gp_RoutesToRemove gp)))
     (SetGroupGauge ''managed_prefixes'' (gp_Group gp) (int (gp_DesiredPrefixCount gp)) reg))"

definition BuildPlan ::
  "plan_orders \<Rightarrow> 'w Kernel \<Rightarrow> 'w Env \<Rightarrow> Config \<Rightarrow> Registry \<Rightarrow> 'w \<Rightarrow> (app_error, Plan) result \<times> Registry \<times> 'w" where
  "BuildPlan ords k env cfg reg w =
     (case build_inputs k env cfg (Groups cfg) reg w of
        (Inl e, reg1, w1) \<Rightarrow> (Inl e, reg1, w1)
      | (Inr inputs, reg1, w1) \<Rightarrow>
          let plan = Build ords (RouteProtocol (c_Global cfg)) inputs in
          (Inr plan, fold plan_gauges (plan_Groups plan) reg1, w1))"

section \<open>Reconciliation and cleanup\<close>

text \<open>A run returns its error, what it printed, the registry and the world.\<close>

type_synonym 'w outcome = "app_error option \<times> string \<times> Registry \<times> 'w"

definition apply_plan ::
  "string \<Rightarrow> 'w Kernel \<Rightarrow> Plan \<Rightarrow> Registry \<Rightarrow> 'w \<Rightarrow> (Registry \<Rightarrow> 'w \<Rightarrow> Registry) \<Rightarrow> 'w outcome" where
  "apply_plan failure k plan reg w success =
     (case rules_Apply k (plan_Groups plan) w of
        (Some e, w1) \<Rightarrow> (Some (ApplyError e), Plan_String plan, Inc failure reg, w1)
      | (None, w1) \<Rightarrow>
          (case routes_Apply k (plan_Groups plan) w1 of
             (Some e, w2) \<Rightarrow> (Some (ApplyError e), Plan_String plan, Inc failure reg, w2)
           | (None, w2) \<Rightarrow> (None, Plan_String plan, success reg w2, w2)))"

definition reconcileOnce ::
  "plan_orders \<Rightarrow> 'w Kernel \<Rightarrow> 'w Env \<Rightarrow> Config \<Rightarrow> bool \<Rightarrow> Registry \<Rightarrow> 'w \<Rightarrow> 'w outcome" where
  "reconcileOnce ords k env cfg dryRun reg w =
     (case BuildPlan ords k env cfg reg w of
        (Inl e, reg1, w1) \<Rightarrow> (Some e, [], Inc ''failed_reconcile_total'' reg1, w1)
      | (Inr plan, reg1, w1) \<Rightarrow>
          if dryRun then (None, Plan_String plan, reg1, w1)
          else apply_plan ''failed_reconcile_total'' k plan reg1 w1
            (\<lambda>r w2. Set_Gauge ''last_success_timestamp'' (unix env w2) (Inc ''successful_reconcile_total'' r)))"

definition cleanup_group :: "RouteGroup \<Rightarrow> Route list \<Rightarrow> Rule list \<Rightarrow> GroupPlan" where
  "cleanup_group g currentRoutes currentRules =
     \<lparr>gp_Group = g_Name g, gp_SourceType = sc_Type (g_Source g), gp_TargetTable = tg_Table (g_Target g),
      gp_Family = tg_Family (g_Target g), gp_DesiredPrefixCount = 0,
      gp_CurrentManagedRouteCount = length currentRoutes, gp_CurrentManagedRuleCount = length currentRules,
      gp_RoutesToAdd = [], gp_RoutesToRemove = currentRoutes, gp_RulesToAdd = [], gp_RulesToRemove = currentRules,
      gp_SourceFromFallback = False\<rparr>"

fun cleanup_groups :: "'w Kernel \<Rightarrow> GlobalConfig \<Rightarrow> RouteGroup list \<Rightarrow> 'w \<Rightarrow> (app_error, GroupPlan list) result" where
  "cleanup_groups k gl [] w = Inr []"
| "cleanup_groups k gl (g # gs) w =
     (let t = g_Target g in
      case routes_CurrentOwned k (tg_Table t) (RouteProtocol gl) (tg_Family t) w of
        Inl e \<Rightarrow> Inl (ListOwnedRoutes (g_Name g) e)
      | Inr currentRoutes \<Rightarrow>
      case (if rc_Enabled (g_Rule g)
            then rules_CurrentOwned k (tg_Table t) (rc_Priority (g_Rule g)) (RulePriorityBase gl) (RulePriorityStep gl)
              (tg_Family t) w
            else Inr []) of
        Inl e \<Rightarrow> Inl (ListOwnedRules (g_Name g) e)
      | Inr currentRules \<Rightarrow>
          bind_result (cleanup_groups k gl gs w) (\<lambda>gps. Inr (cleanup_group g currentRoutes currentRules # gps)))"

definition BuildCleanupPlan :: "Config \<Rightarrow> 'w Kernel \<Rightarrow> 'w \<Rightarrow> (app_error, Plan) result" where
  "BuildCleanupPlan cfg k w =
     bind_result (cleanup_groups k (c_Global cfg) (Groups cfg) w) (\<lambda>gps. Inr \<lparr>plan_Groups = gps\<rparr>)"

definition cleanupOwned :: "'w Kernel \<Rightarrow> Config \<Rightarrow> bool \<Rightarrow> Registry \<Rightarrow> 'w \<Rightarrow> 'w outcome" where
  "cleanupOwned k cfg dryRun reg w =
     (case BuildCleanupPlan cfg k w of
        Inl e \<Rightarrow> (Some e, [], Inc ''failed_cleanup_total'' reg, w)
      | Inr plan \<Rightarrow>
          if dryRun then (None, Plan_String plan, reg, w)
          else apply_plan ''failed_cleanup_total'' k plan reg w (\<lambda>r w2. Inc ''successful_cleanup_total'' r))"

section \<open>What a plan is built from\<close>

lemma providerFor_ok:
  assumes "providerFor env g cfg = Inr provider" "Fetch provider w = (Inr ps, w')"
  shows "\<forall>p \<in> set ps. pfx_ok p"
  using assms txt_source.fetch_ok ripe_source.fetch_ok
  by (auto simp: providerFor_def ripe_provider_def txt_provider_def split: if_splits)

text \<open>Fetched or loaded, the prefixes of a group are valid, masked, sorted and distinct.\<close>

lemma obtain_prefixes_ok:
  assumes "providerFor env g cfg = Inr provider" "obtain_prefixes env cfg g provider reg w = (Some (ps, fb), reg', w')"
  shows "\<forall>p \<in> set ps. pfx_ok p" "sorted ps" "distinct ps"
proof -
  obtain raw where raw: "ps = Normalize raw (EnablePrefixAggregation (c_Global cfg))" "\<forall>p \<in> set raw. pfx_ok p"
  proof (cases "Fetch provider w")
    case (Pair res w1)
    show thesis
    proof (cases res)
      case (Inl e)
      then obtain r st where r: "LoadGroup env (state_New (StateDir (c_Global cfg))) (g_Name g) w1 = Inr (r, st)"
        "ps = Normalize r (EnablePrefixAggregation (c_Global cfg))"
        using assms(2) Pair by (auto simp: obtain_prefixes_def Let_def split: sum.splits)
      show thesis using that [OF r(2)] LoadGroup_ok [OF r(1)] by blast
    next
      case (Inr r)
      then show thesis using that assms(2) Pair providerFor_ok [OF assms(1)]
        by (auto simp: obtain_prefixes_def Let_def split: prod.splits)
    qed
  qed
  have "\<forall>p \<in> set raw. pfx_wf p" using raw(2) by (auto simp: pfx_ok_def)
  from Normalize_spec [OF this] show "\<forall>p \<in> set ps. pfx_ok p" "sorted ps" "distinct ps" unfolding raw(1) by blast+
qed

lemma group_input_fields:
  assumes "group_input k env cfg g src ps fb reg w = (Inr ig, reg', w')"
  shows "ig_Config ig = g" "ig_Prefixes ig = ps" "ig_FromFallback ig = fb" "ig_SourceType ig = src"
    "routes_CurrentOwned k (tg_Table (g_Target g)) (RouteProtocol (c_Global cfg)) (tg_Family (g_Target g)) w' =
      Inr (ig_CurrentRoutes ig)"
    "rules_CurrentOwned k (tg_Table (g_Target g)) (rc_Priority (g_Rule g)) (RulePriorityBase (c_Global cfg))
      (RulePriorityStep (c_Global cfg)) (tg_Family (g_Target g)) w' = Inr (ig_CurrentRules ig)"
  using assms by (auto simp: group_input_def Let_def split: sum.splits prod.splits)

text \<open>The groups that are planned are among those configured, each at most once, with good prefixes.\<close>

lemma build_inputs_groups:
  assumes "build_inputs k env cfg gs reg w = (Inr igs, reg', w')"
  shows "set (map ig_Config igs) \<subseteq> set gs" "distinct (map f gs) \<Longrightarrow> distinct (map (\<lambda>ig. f (ig_Config ig)) igs)"
    "\<forall>ig \<in> set igs. (\<forall>p \<in> set (ig_Prefixes ig). pfx_ok p) \<and> sorted (ig_Prefixes ig) \<and> distinct (ig_Prefixes ig)"
proof -
  have "set (map ig_Config igs) \<subseteq> set gs \<and> (distinct (map f gs) \<longrightarrow> distinct (map (\<lambda>ig. f (ig_Config ig)) igs))
    \<and> (\<forall>ig \<in> set igs. (\<forall>p \<in> set (ig_Prefixes ig). pfx_ok p) \<and> sorted (ig_Prefixes ig) \<and> distinct (ig_Prefixes ig))"
    using assms
  proof (induction gs arbitrary: igs reg w reg' w')
    case (Cons g gs)
    from Cons.prems obtain provider where p: "providerFor env g cfg = Inr provider" by (auto split: sum.splits)
    obtain res reg1 w1 where o: "obtain_prefixes env cfg g provider reg w = (res, reg1, w1)" by (metis prod_cases3)
    show ?case
    proof (cases res)
      case None
      then have "build_inputs k env cfg gs reg1 w1 = (Inr igs, reg', w')" using Cons.prems p o by simp
      from Cons.IH [OF this] show ?thesis by auto
    next
      case (Some a)
      obtain ps fb where a: "a = (ps, fb)" by (cases a)
      then obtain ig reg2 w2 igs' where i: "group_input k env cfg g (Provider_Type provider) ps fb reg1 w1 = (Inr ig, reg2, w2)"
        "build_inputs k env cfg gs reg2 w2 = (Inr igs', reg', w')" "igs = ig # igs'"
        using Cons.prems p o Some by (auto split: sum.splits prod.splits)
      have IH: "set (map ig_Config igs') \<subseteq> set gs" "distinct (map f gs) \<longrightarrow> distinct (map (\<lambda>ig. f (ig_Config ig)) igs')"
        "\<forall>ig \<in> set igs'. (\<forall>p \<in> set (ig_Prefixes ig). pfx_ok p) \<and> sorted (ig_Prefixes ig) \<and> distinct (ig_Prefixes ig)"
        using Cons.IH [OF i(2)] by blast+
      moreover have "f g \<notin> (\<lambda>ig. f (ig_Config ig)) ` set igs'" if "distinct (map f (g # gs))"
        using that IH(1) by (auto simp: image_iff subset_iff)
      ultimately show ?thesis
        using group_input_fields(1,2) [OF i(1)] obtain_prefixes_ok [OF p o [unfolded Some a]] i(3) by auto
    qed
  qed simp
  then show "set (map ig_Config igs) \<subseteq> set gs" "distinct (map f gs) \<Longrightarrow> distinct (map (\<lambda>ig. f (ig_Config ig)) igs)"
    "\<forall>ig \<in> set igs. (\<forall>p \<in> set (ig_Prefixes ig). pfx_ok p) \<and> sorted (ig_Prefixes ig) \<and> distinct (ig_Prefixes ig)"
    by blast+
qed

section \<open>What the metrics report\<close>

lemma group_gauge_name_metric:
  "group_gauge_name ''managed_routes'' grp \<noteq> group_gauge_name ''managed_rules'' grp'"
  "group_gauge_name ''managed_routes'' grp \<noteq> group_gauge_name ''managed_prefixes'' grp'"
  "group_gauge_name ''managed_rules'' grp \<noteq> group_gauge_name ''managed_prefixes'' grp'"
  by (simp_all add: group_gauge_name_def)

lemma diff_count:
  assumes "is_range_order od" "is_range_order oc" "diffRoutes od oc desired current = (add, remove)"
    and "distinct (map routeKey current)"
  shows "int (length current) + int (length add) - int (length remove) = int (card (routeKey ` set desired))"
proof -
  note d = route_diff.diff_keys [OF assms(1-3)]
  have len: "length add = card (routeKey ` set add)" "length remove = card (routeKey ` set remove)"
    "length current = card (routeKey ` set current)"
    using d(5,6) assms(4) by (metis distinct_card length_map list.set_map)+
  have "card (routeKey ` set desired) + card (routeKey ` set current - routeKey ` set desired)
      = card (routeKey ` set current) + card (routeKey ` set desired - routeKey ` set current)"
    using card_Un_disjoint [of "routeKey ` set desired" "routeKey ` set current - routeKey ` set desired"]
      card_Un_disjoint [of "routeKey ` set current" "routeKey ` set desired - routeKey ` set current"]
    by (simp add: Un_commute)
  then show ?thesis using len d(3,4) by simp
qed

lemma managed_routes_gauge:
  assumes "\<forall>j. is_range_order (ords j)" "distinct (map routeKey (ig_CurrentRoutes g))"
  shows "gauge (plan_gauges (build_group ords proto g) reg) (group_gauge_name ''managed_routes'' (g_Name (ig_Config g)))
    = Some (int (card (routeKey ` set (desiredRoutes proto g (plan_prefixes g)))))"
proof -
  obtain add remove where d: "diffRoutes (ords 0) (ords 1) (desiredRoutes proto g (plan_prefixes g)) (ig_CurrentRoutes g) = (add, remove)"
    by (meson prod.exhaust)
  obtain ua ur where r: "diffRules (ords 2) (ords 3) (desiredRules g) (ig_CurrentRules g) = (ua, ur)"
    by (meson prod.exhaust)
  have "is_range_order (ords 0)" "is_range_order (ords 1)" using assms(1) by blast+
  from diff_count [OF this d assms(2)] show ?thesis
    by (simp add: plan_gauges_def registry build_group_def d r group_gauge_name_metric Let_def del: One_nat_def)
qed

end
