(* ===== verification/Daemon.thy ===== *)
theory Daemon
  imports App
begin

text \<open>
  \<open>runDaemon\<close>, \<open>Run\<close> and \<open>main\<close>: the event loop as a state machine and the commands. The loop waits
  for one of its channels; an event carries the map orders of the run it triggers. Between two events
  the world may change by itself (\<open>rely\<close>). \<open>time.NewTicker\<close> and \<open>Ticker.Reset\<close> panic on a duration that
  is not positive. The metrics server that \<open>runDaemon\<close> starts and what it prints are left out.
\<close>

section \<open>The event loop\<close>

datatype event =
    Done
  | RefreshTick plan_orders
  | HealthTick plan_orders
  | Reload plan_orders

datatype 'w daemon =
    Running Config Registry 'w
  | Stopped Registry 'w
  | Panicked Registry 'w

definition run :: "'w Kernel \<Rightarrow> 'w Env \<Rightarrow> Options \<Rightarrow> plan_orders \<Rightarrow> Config \<Rightarrow> Registry \<Rightarrow> 'w \<Rightarrow> 'w daemon" where
  "run k env opts ords active reg w =
     (case reconcileOnce ords k env active (DryRun opts) reg w of (err, out, reg', w') \<Rightarrow> Running active reg' w')"

definition tickers_ok :: "Config \<Rightarrow> bool" where
  "tickers_ok cfg \<longleftrightarrow> 0 < RefreshInterval (c_Global cfg) \<and> 0 < HealthCheckInterval (c_Global cfg)"

definition daemon_start :: "'w Kernel \<Rightarrow> 'w Env \<Rightarrow> Options \<Rightarrow> plan_orders \<Rightarrow> Config \<Rightarrow> Registry \<Rightarrow> 'w \<Rightarrow> 'w daemon" where
  "daemon_start k env opts ords cfg reg w =
     (if tickers_ok cfg then run k env opts ords cfg reg w else Panicked reg w)"

definition handle :: "'w Kernel \<Rightarrow> 'w Env \<Rightarrow> Options \<Rightarrow> event \<Rightarrow> Config \<Rightarrow> Registry \<Rightarrow> 'w \<Rightarrow> 'w daemon" where
  "handle k env opts ev active reg w =
     (case ev of
        Done \<Rightarrow>
          if CleanupOnShutdown (c_Global active) then
            (case cleanupOwned k active (DryRun opts) reg w of (err, out, reg', w') \<Rightarrow> Stopped reg' w')
          else Stopped reg w
      | RefreshTick ords \<Rightarrow> run k env opts ords active reg w
      | HealthTick ords \<Rightarrow> run k env opts ords active reg w
      | Reload ords \<Rightarrow>
          (case loadConfig env opts w of
             Inl e \<Rightarrow> Running active reg w
           | Inr next \<Rightarrow> if tickers_ok next then run k env opts ords next reg w else Panicked reg w))"

inductive daemon_step ::
  "('w \<Rightarrow> 'w \<Rightarrow> bool) \<Rightarrow> 'w Kernel \<Rightarrow> 'w Env \<Rightarrow> Options \<Rightarrow> event \<Rightarrow> 'w daemon \<Rightarrow> 'w daemon \<Rightarrow> bool"
  for rely k env opts where
  "rely w w1 \<Longrightarrow> daemon_step rely k env opts ev (Running active reg w) (handle k env opts ev active reg w1)"

inductive daemon_reach ::
  "('w \<Rightarrow> 'w \<Rightarrow> bool) \<Rightarrow> 'w Kernel \<Rightarrow> 'w Env \<Rightarrow> Options \<Rightarrow> Config \<Rightarrow> Registry \<Rightarrow> 'w \<Rightarrow> 'w daemon \<Rightarrow> bool"
  for rely k env opts cfg reg w where
  start: "daemon_reach rely k env opts cfg reg w (daemon_start k env opts ords cfg reg w)"
| step: "daemon_reach rely k env opts cfg reg w s \<Longrightarrow> daemon_step rely k env opts ev s s'
    \<Longrightarrow> daemon_reach rely k env opts cfg reg w s'"

inductive_cases daemon_stepE: "daemon_step rely k env opts ev s s'"

inductive_simps daemon_step_simps:
  "daemon_step rely k env opts ev (Running active reg w) s'"
  "daemon_step rely k env opts ev (Stopped reg w) s'"
  "daemon_step rely k env opts ev (Panicked reg w) s'"

text \<open>The same along a schedule of events with no change from outside, as a function.\<close>

fun daemon_events :: "'w Kernel \<Rightarrow> 'w Env \<Rightarrow> Options \<Rightarrow> event list \<Rightarrow> 'w daemon \<Rightarrow> 'w daemon" where
  "daemon_events k env opts [] s = s"
| "daemon_events k env opts (ev # evs) s =
     (case s of Running active reg w \<Rightarrow> daemon_events k env opts evs (handle k env opts ev active reg w) | _ \<Rightarrow> s)"

definition runDaemon ::
  "'w Kernel \<Rightarrow> 'w Env \<Rightarrow> Options \<Rightarrow> plan_orders \<Rightarrow> event list \<Rightarrow> Config \<Rightarrow> Registry \<Rightarrow> 'w \<Rightarrow> 'w daemon" where
  "runDaemon k env opts ords evs cfg reg w = daemon_events k env opts evs (daemon_start k env opts ords cfg reg w)"

section \<open>Commands\<close>

datatype 'w run_result = Exited "app_error option" string 'w | InDaemon "'w daemon"

definition run_command ::
  "'w Netlink \<Rightarrow> 'w Env \<Rightarrow> plan_orders \<Rightarrow> event list \<Rightarrow> string \<Rightarrow> Options \<Rightarrow> Config \<Rightarrow> 'w \<Rightarrow> 'w run_result" where
  "run_command nl env ords evs cmd opts cfg w =
     (let reg = New_Registry; kernel = NetlinkKernel nl in
      if cmd = ''check'' then
        (case BuildPlan ords kernel env cfg reg w of
           (Inl e, _, w') \<Rightarrow> Exited (Some e) [] w'
         | (Inr plan, _, w') \<Rightarrow> Exited None (Plan_String plan) w')
      else if cmd = ''apply'' then
        (case reconcileOnce ords kernel env cfg (DryRun opts) reg w of (err, out, _, w') \<Rightarrow> Exited err out w')
      else if cmd = ''cleanup'' then
        (case cleanupOwned kernel cfg (DryRun opts) reg w of (err, out, _, w') \<Rightarrow> Exited err out w')
      else if cmd = ''daemon'' then InDaemon (runDaemon kernel env opts ords evs cfg reg w)
      else Exited (Some Usage) [] w)"

definition Run ::
  "fraction \<Rightarrow> 'w Netlink \<Rightarrow> 'w Env \<Rightarrow> plan_orders \<Rightarrow> event list \<Rightarrow> string \<Rightarrow> string list \<Rightarrow> 'w \<Rightarrow> 'w run_result" where
  "Run frac nl env ords evs version args w =
     (case args of
        [] \<Rightarrow> Exited (Some Usage) [] w
      | cmd # rest \<Rightarrow>
          if cmd = ''version'' then Exited None (version @ [CHR 0x0A]) w
          else (case parseFlags frac rest of
              Inl e \<Rightarrow> Exited (Some (FlagError e)) [] w
            | Inr opts \<Rightarrow>
                if ConfigPath opts = [] then Exited (Some ConfigRequired) [] w
                else (case loadConfig env opts w of
                    Inl e \<Rightarrow> Exited (Some (ConfigError e)) [] w
                  | Inr cfg \<Rightarrow> run_command nl env ords evs cmd opts cfg w)))"

text \<open>The exit status of \<open>main\<close>: 1 on an error, 2 on a panic.\<close>

definition main :: "'w run_result \<Rightarrow> nat" where
  "main r = (case r of
     Exited None out w \<Rightarrow> 0 | Exited (Some e) out w \<Rightarrow> 1
   | InDaemon s \<Rightarrow> (case s of Panicked reg w \<Rightarrow> 2 | _ \<Rightarrow> 0))"

section \<open>Invariants of the event loop\<close>

lemma validated_Inr: "validated c = Inr d \<longleftrightarrow> Validate c = [] \<and> d = c"
  by (auto simp: validated_def)

lemma loadConfig_valid: "loadConfig env opts w = Inr cfg \<Longrightarrow> Validate cfg = []"
  by (auto simp: loadConfig_def Let_def validated_Inr split: sum.splits)

lemma run_Running: "\<exists>reg' w'. run k env opts ords active reg w = Running active reg' w'"
  by (auto simp: run_def split: prod.splits)

text \<open>The configuration in force is valid, and its tickers run.\<close>

fun daemon_inv :: "'w daemon \<Rightarrow> bool" where
  "daemon_inv (Running active reg w) \<longleftrightarrow> Validate active = [] \<and> tickers_ok active"
| "daemon_inv _ \<longleftrightarrow> True"

lemma daemon_inv_run: "Validate active = [] \<Longrightarrow> tickers_ok active \<Longrightarrow> daemon_inv (run k env opts ords active reg w)"
  using run_Running [of k env opts ords active reg w] by auto

lemma daemon_inv_handle:
  assumes "Validate active = []" "tickers_ok active"
  shows "daemon_inv (handle k env opts ev active reg w)"
  using assms
  by (auto simp: handle_def daemon_inv_run dest: loadConfig_valid split: event.splits sum.splits prod.splits)

lemma daemon_reach_inv:
  assumes "daemon_reach rely k env opts cfg reg w s" "Validate cfg = []"
  shows "daemon_inv s"
  using assms
proof (induction rule: daemon_reach.induct)
  case (start ords)
  then show ?case by (simp add: daemon_start_def daemon_inv_run)
next
  case (step s ev s')
  then show ?case by (auto elim!: daemon_stepE intro: daemon_inv_handle)
qed

text \<open>A schedule of events is one of the runs of the state machine.\<close>

lemma daemon_events_reach:
  assumes "daemon_reach rely k env opts cfg reg w s" "\<And>w. rely w w"
  shows "daemon_reach rely k env opts cfg reg w (daemon_events k env opts evs s)"
  using assms(1)
proof (induction evs arbitrary: s)
  case (Cons ev evs)
  show ?case
  proof (cases s)
    case (Running active r v)
    have "daemon_step rely k env opts ev s (handle k env opts ev active r v)"
      unfolding Running by (rule daemon_step.intros) (rule assms(2))
    from Cons.IH [OF daemon_reach.step [OF Cons.prems this]] show ?thesis using Running by simp
  qed (use Cons.prems in simp_all)
qed simp

lemma runDaemon_reach: "(\<And>w. rely w w) \<Longrightarrow> daemon_reach rely k env opts cfg reg w (runDaemon k env opts ords evs cfg reg w)"
  unfolding runDaemon_def by (rule daemon_events_reach) (rule daemon_reach.start)

text \<open>More freedom for the world gives more runs.\<close>

lemma daemon_reach_mono:
  assumes "\<And>v v'. rely v v' \<Longrightarrow> rely' v v'" "daemon_reach rely k env opts cfg reg w s"
  shows "daemon_reach rely' k env opts cfg reg w s"
  using assms(2)
proof (induction rule: daemon_reach.induct)
  case (start ords)
  show ?case by (rule daemon_reach.start)
next
  case (step s ev s')
  from step.hyps(2) have "daemon_step rely' k env opts ev s s'"
    by (auto elim!: daemon_stepE intro: daemon_step.intros assms(1))
  with step.IH show ?case by (rule daemon_reach.step)
qed

lemma daemon_events_final [simp]:
  "daemon_events k env opts evs (Stopped reg w) = Stopped reg w" "daemon_events k env opts evs (Panicked reg w) = Panicked reg w"
  by (cases evs; simp)+

text \<open>The shutdown event ends the loop, also when the cleanup fails.\<close>

lemma daemon_shutdown_final:
  assumes "daemon_step rely k env opts Done (Running active r v) d"
  shows "\<exists>r' v'. d = Stopped r' v'"
proof -
  from assms obtain v1 where "d = handle k env opts Done active r v1" by (auto simp: daemon_step_simps)
  then show ?thesis by (cases "cleanupOwned k active (DryRun opts) r v1") (simp add: handle_def)
qed

section \<open>Intervals\<close>

text \<open>
  Validation does not look at the two intervals, the tickers do: which configurations start or reload
  into a panic.
\<close>

definition with_intervals :: "Config \<Rightarrow> Duration \<Rightarrow> Duration \<Rightarrow> Config" where
  "with_intervals c r h = c\<lparr>c_Global := (c_Global c)\<lparr>RefreshInterval := r, HealthCheckInterval := h\<rparr>\<rparr>"

lemma Validate_intervals: "Validate (ApplyDefaults (with_intervals c r h)) = Validate (ApplyDefaults c)"
proof -
  let ?d = "ApplyDefaults (with_intervals c r h)" and ?c = "ApplyDefaults c"
  have "c_Routing ?d = c_Routing ?c" "c_Defaults ?d = c_Defaults ?c" "SpecialZones ?d = SpecialZones ?c"
    "LogFormat (c_Global ?d) = LogFormat (c_Global ?c)" "RouteProtocol (c_Global ?d) = RouteProtocol (c_Global ?c)"
    "RulePriorityBase (c_Global ?d) = RulePriorityBase (c_Global ?c)"
    "RulePriorityStep (c_Global ?d) = RulePriorityStep (c_Global ?c)"
    by (simp_all add: ApplyDefaults_def with_intervals_def Let_def)
  then show ?thesis by (simp only: Validate_def Let_def Groups_def ru_active_def)
qed

lemma ApplyDefaults_intervals:
  "RefreshInterval (c_Global (ApplyDefaults (with_intervals c r h))) = (if r = 0 then 3600 * Second else r)"
  "HealthCheckInterval (c_Global (ApplyDefaults (with_intervals c r h))) = (if h = 0 then 5 * Second else h)"
  by (simp_all add: ApplyDefaults_def with_intervals_def Let_def default_if_def)

lemma run_not_Panicked: "run k env opts ords active reg w \<noteq> Panicked r v"
  using run_Running [of k env opts ords active reg w] by auto

lemma daemon_start_panics: "(\<exists>r v. daemon_start k env opts ords cfg reg w = Panicked r v) \<longleftrightarrow> \<not> tickers_ok cfg"
  by (simp add: daemon_start_def run_not_Panicked)

lemma handle_panics:
  "(\<exists>r v. handle k env opts ev active reg w = Panicked r v) \<longleftrightarrow>
     (\<exists>ords next. ev = Reload ords \<and> loadConfig env opts w = Inr next \<and> \<not> tickers_ok next)"
  by (cases ev) (auto simp: handle_def run_not_Panicked split: sum.splits prod.splits if_splits)

end
