(* ===== verification/Host.thy ===== *)
theory Host
  imports Daemon Netlink_Table
begin

text \<open>
  The program against a host: the contract between its own operations and the parts of the host it
  does not mean to touch (locale \<open>quiet_host\<close>), the lists a plan is built from under it, and a
  concrete host that keeps the contract.
\<close>

section \<open>The contract\<close>

text \<open>
  Two worlds agree on the routes when they hold the same ones and list them alike; likewise for rules.
\<close>

definition same_routes :: "'w Netlink \<Rightarrow> ('w \<Rightarrow> NlRoute set) \<Rightarrow> 'w \<Rightarrow> 'w \<Rightarrow> bool" where
  "same_routes nl fib w w' \<longleftrightarrow> fib w' = fib w
     \<and> (\<forall>fam t p. nk_RouteListFiltered nl fam t p w' = nk_RouteListFiltered nl fam t p w)"

definition same_rules :: "'w Netlink \<Rightarrow> ('w \<Rightarrow> NlRule set) \<Rightarrow> 'w \<Rightarrow> 'w \<Rightarrow> bool" where
  "same_rules nl rules w w' \<longleftrightarrow> rules w' = rules w \<and> (\<forall>fam. nk_RuleList nl fam w' = nk_RuleList nl fam w)"

lemma same_refl [simp]: "same_routes nl fib w w" "same_rules nl rules w w"
  by (simp_all add: same_routes_def same_rules_def)

lemma same_trans:
  "same_routes nl fib w w1 \<Longrightarrow> same_routes nl fib w1 w2 \<Longrightarrow> same_routes nl fib w w2"
  "same_rules nl rules w w1 \<Longrightarrow> same_rules nl rules w1 w2 \<Longrightarrow> same_rules nl rules w w2"
  by (simp_all add: same_routes_def same_rules_def)

lemma same_CurrentOwned:
  "same_routes nl fib w w' \<Longrightarrow> routes_CurrentOwned (NetlinkKernel nl) t p f w' = routes_CurrentOwned (NetlinkKernel nl) t p f w"
  "same_rules nl rules w w' \<Longrightarrow>
     rules_CurrentOwned (NetlinkKernel nl) t pr base st f w' = rules_CurrentOwned (NetlinkKernel nl) t pr base st f w"
  by (simp_all add: same_routes_def same_rules_def routes_CurrentOwned_def rules_CurrentOwned_def NetlinkKernel_def
      nl_ListRoutes_def nl_ListRules_def)

text \<open>
  The host as the program relies on it: routes and rules behave as their contracts say, an operation on
  the one leaves the other alone, and downloading, writing files and pinging change neither.
\<close>

locale quiet_host =
  fibs: netlink_fib nl fib invar + ruls: netlink_rules nl rules invar nfam
  for nl :: "'w Netlink" and fib :: "'w \<Rightarrow> NlRoute set" and rules :: "'w \<Rightarrow> NlRule set"
    and invar :: "'w \<Rightarrow> bool" and nfam :: "NlRule \<Rightarrow> nl_family" +
  fixes env :: "'w Env"
  assumes http_quiet: "invar w \<Longrightarrow> http_get env url timeout w = (res, w') \<Longrightarrow>
      invar w' \<and> same_routes nl fib w w' \<and> same_rules nl rules w w'"
    and write_quiet: "invar w \<Longrightarrow> write_file env fname b w = (err, w') \<Longrightarrow>
      invar w' \<and> same_routes nl fib w w' \<and> same_rules nl rules w w'"
    and mkdir_quiet: "invar w \<Longrightarrow> mkdir_all env dir w = (err, w') \<Longrightarrow>
      invar w' \<and> same_routes nl fib w w' \<and> same_rules nl rules w w'"
    and exec_quiet: "invar w \<Longrightarrow> exec env cmd args w = (r, w') \<Longrightarrow>
      invar w' \<and> same_routes nl fib w w' \<and> same_rules nl rules w w'"
    and rule_ops_routes: "nk_RuleAdd nl m w = (e, w') \<or> nk_RuleDel nl m w = (e, w') \<Longrightarrow> same_routes nl fib w w'"
    and route_ops_rules: "nk_RouteAdd nl n w = (e, w') \<or> nk_RouteDel nl n w = (e, w') \<Longrightarrow> same_rules nl rules w w'"
begin

definition quiet :: "'w \<Rightarrow> 'w \<Rightarrow> bool" where
  "quiet w w' \<longleftrightarrow> (invar w \<longrightarrow> invar w' \<and> same_routes nl fib w w' \<and> same_rules nl rules w w')"

lemma quiet_refl [simp]: "quiet w w"
  by (simp add: quiet_def)

lemma quiet_trans: "quiet w w1 \<Longrightarrow> quiet w1 w2 \<Longrightarrow> quiet w w2"
  using same_trans by (fastforce simp: quiet_def)

lemma quietD:
  assumes "quiet w w'" "invar w"
  shows "invar w'" "same_routes nl fib w w'" "same_rules nl rules w w'"
  using assms by (auto simp: quiet_def)

lemma env_quiet:
  "http_get env url timeout w = (res, w') \<Longrightarrow> quiet w w'" "write_file env fname b w = (err, w') \<Longrightarrow> quiet w w'"
  "mkdir_all env dir w = (err, w') \<Longrightarrow> quiet w w'" "exec env cmd args w = (r, w') \<Longrightarrow> quiet w w'"
  unfolding quiet_def using http_quiet [of w url timeout res w'] write_quiet [of w fname b err w']
    mkdir_quiet [of w dir err w'] exec_quiet [of w cmd args r w'] by blast+

lemma Fetch_quiet:
  assumes "providerFor env g cfg = Inr provider" "Fetch provider w = (res, w')"
  shows "quiet w w'"
  using assms env_quiet(1)
  by (auto simp: providerFor_def ripe_provider_def txt_provider_def ripe_Fetch_def txt_Fetch_def txt_open_def Let_def
      split: if_splits prod.splits sum.splits option.splits)

lemma SaveGroup_quiet: "SaveGroup env s grp src ps w = (err, w') \<Longrightarrow> quiet w w'"
  by (auto simp: SaveGroup_def Let_def split: prod.splits option.splits dest!: env_quiet(2,3) intro: quiet_trans)

lemma obtain_prefixes_quiet:
  assumes "providerFor env g cfg = Inr provider" "obtain_prefixes env cfg g provider reg w = (res, reg', w')"
  shows "quiet w w'"
  using assms(2) Fetch_quiet [OF assms(1), of w]
  by (auto simp: obtain_prefixes_def Let_def split: prod.splits sum.splits intro: quiet_trans dest: SaveGroup_quiet)

lemma Ping_quiet: "ExecPinger_Ping (exec env) dev a t w = (err, w') \<Longrightarrow> quiet w w'"
  using env_quiet(4) by (auto simp: ExecPinger_Ping_def split: prod.splits option.splits)

lemma ping_targets_quiet: "ping_targets family dev timeout targets (ExecPinger_Ping (exec env)) w = (res, w') \<Longrightarrow> quiet w w'"
proof (induction targets arbitrary: w)
  case (Cons raw targets)
  then show ?case
    by (auto split: option.splits if_splits prod.splits dest!: Ping_quiet Cons.IH intro: quiet_trans)
qed simp

lemma select_items_quiet:
  "select_items family scope i cs link (ExecPinger_Ping (exec env)) items reg w = (res, reg', w') \<Longrightarrow> quiet w w'"
proof (induction cs arbitrary: i items reg w)
  case (Cons c cs)
  then show ?case
    by (auto simp: Let_def evaluateCandidate_def split: sum.splits prod.splits
        dest!: ping_targets_quiet Cons.IH intro: quiet_trans)
qed simp

lemma Select_quiet: "Select family scope cs link (ExecPinger_Ping (exec env)) reg w = (res, reg', w') \<Longrightarrow> quiet w w'"
  by (auto simp: Select_def split: if_splits prod.splits sum.splits dest!: select_items_quiet)

lemma resolve_quiet:
  "resolveCandidates k (ExecPinger_Ping (exec env)) grp scope family cs reg w = (res, reg', w') \<Longrightarrow> quiet w w'"
  by (auto simp: resolveCandidates_def split: if_splits prod.splits sum.splits dest!: Select_quiet intro: quiet_trans)

end

context quiet_host
begin

lemma group_input_quiet:
  assumes "group_input (NetlinkKernel nl) env cfg g src ps fb reg w = (res, reg', w')"
  shows "quiet w w'"
  using assms
  by (auto simp: group_input_def Let_def resolveTargetHops_def resolveDefaultHops_def
      split: sum.splits prod.splits option.splits dest!: resolve_quiet intro: quiet_trans)

lemma build_inputs_quiet:
  assumes "build_inputs (NetlinkKernel nl) env cfg gs reg w = (res, reg', w')"
  shows "quiet w w'"
  using assms
proof (induction gs arbitrary: res reg w reg' w')
  case (Cons g gs)
  show ?case
  proof (cases "providerFor env g cfg")
    case (Inr provider)
    obtain o1 reg1 w1 where o: "obtain_prefixes env cfg g provider reg w = (o1, reg1, w1)" by (metis prod_cases3)
    note q1 = obtain_prefixes_quiet [OF Inr o]
    show ?thesis
    proof (cases o1)
      case None
      then show ?thesis using Cons o Inr quiet_trans [OF q1] by simp
    next
      case (Some a)
      obtain ps fb where a: "a = (ps, fb)" by (cases a)
      obtain r2 reg2 w2 where i: "group_input (NetlinkKernel nl) env cfg g (Provider_Type provider) ps fb reg1 w1 = (r2, reg2, w2)"
        by (metis prod_cases3)
      note q2 = quiet_trans [OF q1 group_input_quiet [OF i]]
      show ?thesis
      proof (cases r2)
        case (Inl e)
        then show ?thesis using Cons.prems Inr o Some a i q2 by simp
      next
        case r2: (Inr ig)
        obtain r3 reg3 w3 where b: "build_inputs (NetlinkKernel nl) env cfg gs reg2 w2 = (r3, reg3, w3)" by (metis prod_cases3)
        then have "w' = w3" using Cons.prems Inr o Some a i r2 by (cases r3) auto
        then show ?thesis using quiet_trans [OF q2 Cons.IH [OF b]] by simp
      qed
    qed
  qed (use Cons.prems in simp)
qed simp

text \<open>The lists a plan starts from are what the kernel holds before and after it is built.\<close>

lemma build_inputs_current:
  assumes "build_inputs (NetlinkKernel nl) env cfg gs reg w = (Inr igs, reg', w')" "invar w" "ig \<in> set igs"
  shows "routes_CurrentOwned (NetlinkKernel nl) (group_table ig) (RouteProtocol (c_Global cfg)) (group_family ig) w =
      Inr (ig_CurrentRoutes ig)
    \<and> rules_CurrentOwned (NetlinkKernel nl) (group_table ig) (rc_Priority (g_Rule (ig_Config ig)))
      (RulePriorityBase (c_Global cfg)) (RulePriorityStep (c_Global cfg)) (group_family ig) w = Inr (ig_CurrentRules ig)"
  using assms
proof (induction gs arbitrary: igs reg w)
  case (Cons g gs)
  from Cons.prems obtain provider where p: "providerFor env g cfg = Inr provider" by (auto split: sum.splits)
  obtain o1 reg1 w1 where o: "obtain_prefixes env cfg g provider reg w = (o1, reg1, w1)" by (metis prod_cases3)
  note q1 = obtain_prefixes_quiet [OF p o]
  show ?case
  proof (cases o1)
    case None
    then have "build_inputs (NetlinkKernel nl) env cfg gs reg1 w1 = (Inr igs, reg', w')" using Cons.prems(1) p o by simp
    from Cons.IH [OF this quietD(1) [OF q1 Cons.prems(2)] Cons.prems(3)]
    show ?thesis using same_CurrentOwned quietD(2,3) [OF q1 Cons.prems(2)] by metis
  next
    case (Some a)
    obtain ps fb where a: "a = (ps, fb)" by (cases a)
    then obtain ig0 reg2 w2 igs' where i: "group_input (NetlinkKernel nl) env cfg g (Provider_Type provider) ps fb reg1 w1 = (Inr ig0, reg2, w2)"
      "build_inputs (NetlinkKernel nl) env cfg gs reg2 w2 = (Inr igs', reg', w')" "igs = ig0 # igs'"
      using Cons.prems(1) p o Some by (auto split: sum.splits prod.splits)
    note q2 = quiet_trans [OF q1 group_input_quiet [OF i(1)]]
    note earlier = same_CurrentOwned(1) [OF quietD(2) [OF q2 Cons.prems(2)]] same_CurrentOwned(2) [OF quietD(3) [OF q2 Cons.prems(2)]]
    show ?thesis
    proof (cases "ig = ig0")
      case True
      then show ?thesis using group_input_fields [OF i(1)] unfolding group_table_def group_family_def earlier by simp
    next
      case False
      then have "ig \<in> set igs'" using Cons.prems(3) i(3) by simp
      from Cons.IH [OF i(2) quietD(1) [OF q2 Cons.prems(2)] this] show ?thesis unfolding earlier .
    qed
  qed
qed simp

end

section \<open>A concrete host\<close>

definition linux_write :: "string \<Rightarrow> string \<Rightarrow> LinuxState \<Rightarrow> string option \<times> LinuxState" where
  "linux_write p b w = (None, w\<lparr>ls_files := (p, b) # ls_files w\<rparr>)"

definition linux_read :: "string \<Rightarrow> LinuxState \<Rightarrow> (string, string) result" where
  "linux_read p w = (case map_of (ls_files w) p of None \<Rightarrow> Inl ''no such file or directory'' | Some b \<Rightarrow> Inr b)"

definition linux_env :: "LinuxState Env" where
  "linux_env =
     \<lparr>http_get = (\<lambda>url timeout w. (case map_of (ls_web w) url of
        None \<Rightarrow> Inl ''no such host''
      | Some b \<Rightarrow> Inr \<lparr>StatusCode = 200, Status = ''200 OK'', Body = \<lparr>st_Data = b, st_Err = None\<rparr>\<rparr>, w)),
      open_file = (\<lambda>p w. bind_result (linux_read p w) (\<lambda>b. Inr \<lparr>st_Data = b, st_Err = None\<rparr>)),
      read_file = linux_read, write_file = linux_write, mkdir_all = (\<lambda>d w. (None, w)),
      iface_addrs = (\<lambda>w. Inr []), now = (\<lambda>w. ''2024-05-01T12:00:00.5Z''), unix = (\<lambda>w. 1714564800),
      exec = (\<lambda>cmd args w. ((None, []), w)), yaml = (\<lambda>b. Inl ''yaml: no document''), unicode_upper = (\<lambda>s. s)\<rparr>"

interpretation linux_files: file_system linux_env
  by unfold_locales
    (auto simp: linux_env_def linux_write_def linux_read_def split: option.splits)

lemma linux_same:
  assumes "ls_routes w' = ls_routes w" "ls_rules w' = ls_rules w"
  shows "linux_invar w \<Longrightarrow> linux_invar w'" "same_routes linux_nl linux_fib w w'" "same_rules linux_nl linux_rules w w'"
  using assms by (simp_all add: linux_invar_def same_routes_def same_rules_def linux_nl_def linux_fib_def linux_rules_def)

interpretation linux_host: quiet_host linux_nl linux_fib linux_rules linux_invar linux_rule_family linux_env
proof (intro quiet_host.intro quiet_host_axioms.intro)
  show "netlink_fib linux_nl linux_fib linux_invar" by (rule linux_routes.netlink_fib_axioms)
  show "netlink_rules linux_nl linux_rules linux_invar linux_rule_family" by (rule linux_rules.netlink_rules_axioms)
  fix w w'
  have quiet: "linux_invar w' \<and> same_routes linux_nl linux_fib w w' \<and> same_rules linux_nl linux_rules w w'"
    if "linux_invar w" "ls_routes w' = ls_routes w" "ls_rules w' = ls_rules w" using linux_same that by blast
  show "linux_invar w' \<and> same_routes linux_nl linux_fib w w' \<and> same_rules linux_nl linux_rules w w'"
    if "linux_invar w" "http_get linux_env url timeout w = (res, w')" for url timeout res
    using that by (intro quiet) (auto simp: linux_env_def)
  show "linux_invar w' \<and> same_routes linux_nl linux_fib w w' \<and> same_rules linux_nl linux_rules w w'"
    if "linux_invar w" "write_file linux_env fname b w = (err, w')" for fname b err
    using that by (intro quiet) (auto simp: linux_env_def linux_write_def)
  show "linux_invar w' \<and> same_routes linux_nl linux_fib w w' \<and> same_rules linux_nl linux_rules w w'"
    if "linux_invar w" "mkdir_all linux_env dir w = (err, w')" for dir err
    using that by (intro quiet) (auto simp: linux_env_def)
  show "linux_invar w' \<and> same_routes linux_nl linux_fib w w' \<and> same_rules linux_nl linux_rules w w'"
    if "linux_invar w" "exec linux_env cmd args w = (r, w')" for cmd args r
    using that by (intro quiet) (auto simp: linux_env_def)
  show "same_routes linux_nl linux_fib w w'"
    if "nk_RuleAdd linux_nl m w = (e, w') \<or> nk_RuleDel linux_nl m w = (e, w')" for m e
    using that by (auto simp: same_routes_def linux_nl_def linux_fib_def linux_RuleAdd_def linux_RuleDel_def split: if_splits)
  show "same_rules linux_nl linux_rules w w'"
    if "nk_RouteAdd linux_nl n w = (e, w') \<or> nk_RouteDel linux_nl n w = (e, w')" for n e
    using that by (auto simp: same_rules_def linux_nl_def linux_rules_def linux_RouteAdd_def linux_RouteDel_def split: if_splits)
qed

end
