(* ===== verification/Host_Runs.thy ===== *)
theory Host_Runs
  imports Host
begin

text \<open>
  What whole runs do to the kernel's tables under the contract of a host: a successful reconciliation,
  a cleanup (complete or interrupted), a dry run, and every run of a daemon in dry-run mode.
\<close>

section \<open>A run of the application\<close>

text \<open>What a plan needs beyond its lists being current, group by group.\<close>

definition routes_storable :: "int \<Rightarrow> NlRoute set \<Rightarrow> InputGroup list \<Rightarrow> bool" where
  "routes_storable proto M gs \<longleftrightarrow>
     (\<forall>g \<in> set gs.
        (\<forall>r \<in> set (group_desired proto g). route_plain r)
        \<and> (\<forall>r \<in> set (group_desired proto g). \<forall>s \<in> set (group_desired proto g).
            rt_Dst r = rt_Dst s \<and> rt_Metric r = rt_Metric s \<longrightarrow> route_fields r = route_fields s)
        \<and> (\<forall>r \<in> set (group_desired proto g). \<forall>x \<in> fib_entries M.
            route_ident x = (rt_Table r, rt_Dst r, rt_Metric r) \<longrightarrow> x \<in> owned_entries proto [g]))"

definition rules_storable ::
  "'w Netlink \<Rightarrow> (NlRule \<Rightarrow> nl_family) \<Rightarrow> NlRule set \<Rightarrow> int \<Rightarrow> int \<Rightarrow> InputGroup list \<Rightarrow> bool" where
  "rules_storable nl nfam M base step gs \<longleftrightarrow>
     (\<forall>g \<in> set gs. \<forall>r \<in> set (desiredRules g). rule_plain r \<and> ru_Table r = group_table g
        \<and> (rule_fields r \<in> rule_entries nl M \<longrightarrow> rule_fields r \<in> owned_rules base step (rule_entry_family nl nfam) [g]))"

lemma routes_ready_iff:
  "routes_ready nl M proto gs w \<longleftrightarrow> distinct (map group_table gs) \<and> routes_storable proto M gs
     \<and> (\<forall>g \<in> set gs. routes_CurrentOwned (NetlinkKernel nl) (group_table g) proto (group_family g) w = Inr (ig_CurrentRoutes g))"
  unfolding routes_ready_def routes_storable_def by blast

lemma rules_ready_iff:
  "rules_ready nl nfam M base step gs w \<longleftrightarrow> distinct (map group_table gs) \<and> rules_storable nl nfam M base step gs
     \<and> (\<forall>g \<in> set gs. rules_CurrentOwned (NetlinkKernel nl) (group_table g) (rc_Priority (g_Rule (ig_Config g))) base step
          (group_family g) w = Inr (ig_CurrentRules g))"
  unfolding rules_ready_def rules_storable_def by blast

definition table_of :: "RouteGroup \<Rightarrow> int" where
  "table_of g = tg_Table (g_Target g)"

lemma group_table_of: "group_table = (\<lambda>ig. table_of (ig_Config ig))"
  by (simp add: fun_eq_iff group_table_def table_of_def)

context quiet_host
begin

lemma rules_Apply_routes: "rules_Apply (NetlinkKernel nl) plans w = (e, w') \<Longrightarrow> same_routes nl fib w w'"
proof -
  have step: "same_routes nl fib u u'" if "exec_op (AddRule (NetlinkKernel nl)) (DeleteRule (NetlinkKernel nl)) x u = (e, u')" for x u e u'
    using that by (cases x) (auto simp: NetlinkKernel_rules intro: rule_ops_routes split: prod.splits)
  show "rules_Apply (NetlinkKernel nl) plans w = (e, w') \<Longrightarrow> same_routes nl fib w w'"
    unfolding rules_Apply_ops by (rule run_each_rel [OF step]) (auto intro: same_trans(1))
qed

lemma routes_Apply_rules: "routes_Apply (NetlinkKernel nl) plans w = (e, w') \<Longrightarrow> same_rules nl rules w w'"
proof -
  have step: "same_rules nl rules u u'" if "exec_op (AddRoute (NetlinkKernel nl)) (DeleteRoute (NetlinkKernel nl)) x u = (e, u')" for x u e u'
    using that by (cases x) (auto simp: NetlinkKernel_routes intro: route_ops_rules split: prod.splits)
  show "routes_Apply (NetlinkKernel nl) plans w = (e, w') \<Longrightarrow> same_rules nl rules w w'"
    unfolding routes_Apply_ops by (rule run_each_rel [OF step]) (auto intro: same_trans(2))
qed

end

context quiet_host
begin

text \<open>
  A successful run leaves the kernel with its old routes and rules, less what the planned groups owned,
  plus what they want.
\<close>

lemma reconcile_effect:
  assumes inv: "invar w" and ords: "\<forall>i j. is_range_order (ords i j)"
    and tables: "distinct (map table_of (Groups cfg))"
    and run: "reconcileOnce ords (NetlinkKernel nl) env cfg False reg w = (None, out, reg', w')"
    and build: "build_inputs (NetlinkKernel nl) env cfg (Groups cfg) reg w = (Inr igs, reg1, w1)"
    and stor: "routes_storable (RouteProtocol (c_Global cfg)) (fib w) igs"
      "rules_storable nl nfam (rules w) (RulePriorityBase (c_Global cfg)) (RulePriorityStep (c_Global cfg)) igs"
  shows "invar w'"
    "fib_entries (fib w') = (fib_entries (fib w) - owned_entries (RouteProtocol (c_Global cfg)) igs)
      \<union> desired_entries (RouteProtocol (c_Global cfg)) igs"
    "rule_entries nl (rules w') = (rule_entries nl (rules w) - owned_rules (RulePriorityBase (c_Global cfg))
      (RulePriorityStep (c_Global cfg)) (rule_entry_family nl nfam) igs) \<union> wanted_rules igs"
proof -
  let ?gl = "c_Global cfg"
  let ?plans = "plan_Groups (Build ords (RouteProtocol ?gl) igs)"
  obtain w2 where w2: "rules_Apply (NetlinkKernel nl) ?plans w1 = (None, w2)"
    and w': "routes_Apply (NetlinkKernel nl) ?plans w2 = (None, w')"
    using run build by (auto simp: reconcileOnce_def BuildPlan_def apply_plan_def Let_def split: prod.splits option.splits)
  note q = quietD [OF build_inputs_quiet [OF build] inv]
  have dist: "distinct (map group_table igs)"
    unfolding group_table_of using build_inputs_groups(2) [OF build tables] .
  note current = build_inputs_current [OF build inv]
  have rules1: "rules w1 = rules w" using q(3) by (simp add: same_rules_def)
  have "rules_ready nl nfam (rules w1) (RulePriorityBase ?gl) (RulePriorityStep ?gl) igs w1"
    unfolding rules_ready_iff same_CurrentOwned(2) [OF q(3)] using dist current stor(2) rules1 by simp
  from ruls.rules_after_apply [OF q(1) this ords w2]
  have r: "invar w2" "rule_entries nl (rules w2) = (rule_entries nl (rules w1) - owned_rules (RulePriorityBase ?gl)
      (RulePriorityStep ?gl) (rule_entry_family nl nfam) igs) \<union> wanted_rules igs" by auto
  have same: "same_routes nl fib w w2" using same_trans(1) [OF q(2) rules_Apply_routes [OF w2]] .
  then have fib2: "fib w2 = fib w" by (simp add: same_routes_def)
  have "routes_ready nl (fib w2) (RouteProtocol ?gl) igs w2"
    unfolding routes_ready_iff same_CurrentOwned(1) [OF same] using dist current stor(1) fib2 by simp
  from fibs.fib_after_apply [OF r(1) this ords w'] fib2
  show "invar w'" "fib_entries (fib w') = (fib_entries (fib w) - owned_entries (RouteProtocol ?gl) igs)
      \<union> desired_entries (RouteProtocol ?gl) igs" by simp_all
  have "rules w' = rules w2" using routes_Apply_rules [OF w'] by (simp add: same_rules_def)
  then show "rule_entries nl (rules w') = (rule_entries nl (rules w) - owned_rules (RulePriorityBase ?gl)
      (RulePriorityStep ?gl) (rule_entry_family nl nfam) igs) \<union> wanted_rules igs" using r(2) rules1 by simp
qed

text \<open>A dry run and a failed plan change neither routes nor rules.\<close>

lemma reconcile_dry:
  assumes "reconcileOnce ords (NetlinkKernel nl) env cfg True reg w = (err, out, reg', w')"
  shows "quiet w w'"
proof (cases "build_inputs (NetlinkKernel nl) env cfg (Groups cfg) reg w")
  case (fields res reg1 w1)
  then show ?thesis using assms build_inputs_quiet [OF fields]
    by (cases res) (auto simp: reconcileOnce_def BuildPlan_def Let_def)
qed

lemma reconcile_plan_fails:
  assumes "build_inputs (NetlinkKernel nl) env cfg (Groups cfg) reg w = (Inl e, reg1, w1)"
  shows "reconcileOnce ords (NetlinkKernel nl) env cfg dry reg w = (Some e, [], Inc ''failed_reconcile_total'' reg1, w1)"
    "quiet w w1"
  using assms build_inputs_quiet [OF assms] by (simp_all add: reconcileOnce_def BuildPlan_def)

end

section \<open>Cleanup\<close>

text \<open>A group as the planner sees it when nothing has been fetched: what it owns depends on its configuration only.\<close>

definition config_input :: "RouteGroup \<Rightarrow> InputGroup" where
  "config_input g = \<lparr>ig_Config = g, ig_Prefixes = [], ig_ThrowPrefixes = [], ig_CoveredLocalAddrs = [],
     ig_SourceType = [], ig_FromFallback = False, ig_LinkIndex = 0, ig_DefaultLinkIndex = 0, ig_TargetHops = [],
     ig_DefaultHops = [], ig_CurrentRoutes = [], ig_CurrentRules = []\<rparr>"

lemma config_input_simps [simp]:
  "group_table (config_input g) = table_of g" "group_family (config_input g) = tg_Family (g_Target g)"
  "ig_Config (config_input g) = g"
  by (simp_all add: config_input_def group_table_def group_family_def table_of_def)

definition cleaned :: "'w Kernel \<Rightarrow> GlobalConfig \<Rightarrow> 'w \<Rightarrow> RouteGroup \<Rightarrow> GroupPlan \<Rightarrow> bool" where
  "cleaned k gl w g gp \<longleftrightarrow> gp_RoutesToAdd gp = [] \<and> gp_RulesToAdd gp = []
     \<and> routes_CurrentOwned k (table_of g) (RouteProtocol gl) (tg_Family (g_Target g)) w = Inr (gp_RoutesToRemove gp)
     \<and> (if rc_Enabled (g_Rule g)
        then rules_CurrentOwned k (table_of g) (rc_Priority (g_Rule g)) (RulePriorityBase gl) (RulePriorityStep gl)
               (tg_Family (g_Target g)) w = Inr (gp_RulesToRemove gp)
        else gp_RulesToRemove gp = [])"

lemma cleanup_groups_cleaned: "cleanup_groups k gl gs w = Inr gps \<Longrightarrow> list_all2 (cleaned k gl w) gs gps"
proof (induction gs arbitrary: gps)
  case (Cons g gs)
  then obtain rs us gps' where c: "cleanup_groups k gl gs w = Inr gps'" "gps = cleanup_group g rs us # gps'"
    "routes_CurrentOwned k (tg_Table (g_Target g)) (RouteProtocol gl) (tg_Family (g_Target g)) w = Inr rs"
    "(if rc_Enabled (g_Rule g) then rules_CurrentOwned k (tg_Table (g_Target g)) (rc_Priority (g_Rule g)) (RulePriorityBase gl)
      (RulePriorityStep gl) (tg_Family (g_Target g)) w else Inr []) = Inr us"
    by (auto simp: Let_def bind_result_Inr split: sum.splits)
  then have "cleaned k gl w g (cleanup_group g rs us)"
    by (auto simp: cleaned_def cleanup_group_def table_of_def split: if_splits)
  then show ?case using Cons.IH [OF c(1)] c(2) by simp
qed simp

lemma cleanup_ops:
  assumes "\<forall>gp \<in> set plans. gp_RoutesToAdd gp = [] \<and> gp_RulesToAdd gp = []"
  shows "route_ops plans = map Del (concat (map gp_RoutesToRemove plans))"
    "rule_ops plans = map Del (concat (map gp_RulesToRemove plans))"
proof -
  have "pass1 gp = []" "pass2 gp = map Del (gp_RoutesToRemove gp)" if "gp_RoutesToAdd gp = []" for gp
    using that by (simp_all add: pass1_def pass2_def pre_removals_def post_removals_def)
  then have "concat (map pass1 plans) = []" "concat (map pass2 plans) = map Del (concat (map gp_RoutesToRemove plans))"
    using assms by (induction plans) simp_all
  then show "route_ops plans = map Del (concat (map gp_RoutesToRemove plans))" by (simp add: route_ops_def)
  show "rule_ops plans = map Del (concat (map gp_RulesToRemove plans))"
    using assms by (induction plans) (simp_all add: rule_ops_def)
qed

lemma zip_cleaned:
  assumes "list_all2 P gs gps"
  shows "map snd (zip gs gps) = gps" "map fst (zip gs gps) = gs" "\<And>e. e \<in> set (zip gs gps) \<Longrightarrow> P (fst e) (snd e)"
proof -
  have len: "length gs = length gps" using assms by (rule list_all2_lengthD)
  then show "map snd (zip gs gps) = gps" "map fst (zip gs gps) = gs" by simp_all
  show "P (fst e) (snd e)" if "e \<in> set (zip gs gps)" for e
  proof -
    have "\<forall>(x, y) \<in> set (zip gs gps). P x y" using assms by (simp add: list_all2_iff)
    from bspec [OF this that] show ?thesis by (simp add: case_prod_beta)
  qed
qed

text \<open>The owned routes of all groups, removed each once; then the same for the rules.\<close>

context netlink_fib
begin

lemma cleaned_routes:
  assumes inv: "invar w" and gps: "list_all2 (cleaned (NetlinkKernel nl) gl w) gs gps" and tables: "distinct (map table_of gs)"
  defines "rs \<equiv> concat (map gp_RoutesToRemove gps)"
  shows "\<forall>r \<in> set rs. route_plain r" "distinct (map route_fields rs)"
    "route_fields ` set rs = {x \<in> entries (fib w). x \<in> owned_entries (RouteProtocol gl) (map config_input gs)}"
proof -
  let ?es = "zip gs gps"
  note es = zip_cleaned [OF gps]
  have rs: "rs = concat (map (\<lambda>e. gp_RoutesToRemove (snd e)) ?es)"
    unfolding rs_def by (subst es(1) [symmetric]) (simp add: comp_def)
  have owned: "route_fields ` set (gp_RoutesToRemove (snd e)) =
      {x \<in> entries (fib w). family_owned (table_of (fst e)) (RouteProtocol gl) (tg_Family (g_Target (fst e))) x}"
    "distinct (map route_fields (gp_RoutesToRemove (snd e)))" "\<forall>r \<in> set (gp_RoutesToRemove (snd e)). route_plain r"
    if "e \<in> set ?es" for e
    using nlk.CurrentOwned_entries [OF inv] es(3) [OF that] unfolding cleaned_def by blast+
  show "\<forall>r \<in> set rs. route_plain r" unfolding rs using owned(3) by auto
  show "distinct (map route_fields rs)"
    unfolding rs
  proof (rule distinct_concat_by [where t = "\<lambda>e. table_of (fst e)" and c = fst])
    have "map (\<lambda>e. table_of (fst e)) ?es = map table_of gs" by (subst (2) es(2) [symmetric]) (simp add: comp_def)
    then show "distinct (map (\<lambda>e. table_of (fst e)) ?es)" using tables by simp
    show "fst (route_fields r) = table_of (fst e)" if "e \<in> set ?es" "r \<in> set (gp_RoutesToRemove (snd e))" for e r
      using owned(1) [OF that(1)] that(2) family_owned_table by (metis (mono_tags, lifting) imageI mem_Collect_eq)
  qed (rule owned(2))
  have "route_fields ` set rs = (\<Union>e \<in> set ?es. route_fields ` set (gp_RoutesToRemove (snd e)))"
    unfolding rs by auto
  also have "\<dots> = (\<Union>e \<in> set ?es. {x \<in> entries (fib w).
      family_owned (table_of (fst e)) (RouteProtocol gl) (tg_Family (g_Target (fst e))) x})"
    using owned(1) by auto
  also have "\<dots> = (\<Union>g \<in> fst ` set ?es. {x \<in> entries (fib w).
      family_owned (table_of g) (RouteProtocol gl) (tg_Family (g_Target g)) x})" by auto
  also have "fst ` set ?es = set gs" by (metis es(2) list.set_map)
  finally show "route_fields ` set rs = {x \<in> entries (fib w). x \<in> owned_entries (RouteProtocol gl) (map config_input gs)}"
    by (auto simp: owned_entries_def)
qed

end

context netlink_rules
begin

lemma cleaned_rules:
  assumes inv: "invar w" and gps: "list_all2 (cleaned (NetlinkKernel nl) gl w) gs gps" and tables: "distinct (map table_of gs)"
  defines "us \<equiv> concat (map gp_RulesToRemove gps)"
  shows "\<forall>r \<in> set us. rule_plain r" "distinct (map rule_fields us)"
    "rule_fields ` set us = {x \<in> entries (rules w). x \<in> owned_rules (RulePriorityBase gl) (RulePriorityStep gl) entry_fam
       (map config_input (filter (\<lambda>g. rc_Enabled (g_Rule g)) gs))}"
proof -
  let ?es = "zip gs gps"
  let ?own = "\<lambda>g x. rc_Enabled (g_Rule g) \<and>
    group_rule_owned (RulePriorityBase gl) (RulePriorityStep gl) entry_fam (config_input g) x"
  note es = zip_cleaned [OF gps]
  have us: "us = concat (map (\<lambda>e. gp_RulesToRemove (snd e)) ?es)"
    unfolding us_def by (subst es(1) [symmetric]) (simp add: comp_def)
  have owned: "rule_fields ` set (gp_RulesToRemove (snd e)) = {x \<in> entries (rules w). ?own (fst e) x}
      \<and> distinct (map rule_fields (gp_RulesToRemove (snd e))) \<and> (\<forall>r \<in> set (gp_RulesToRemove (snd e)). rule_plain r)"
    if "e \<in> set ?es" for e
  proof (cases "rc_Enabled (g_Rule (fst e))")
    case True
    then have "rules_CurrentOwned (NetlinkKernel nl) (group_table (config_input (fst e)))
        (rc_Priority (g_Rule (ig_Config (config_input (fst e))))) (RulePriorityBase gl) (RulePriorityStep gl)
        (group_family (config_input (fst e))) w = Inr (gp_RulesToRemove (snd e))"
      using es(3) [OF that] by (simp add: cleaned_def)
    from nlr.rules_entries [OF inv this] True show ?thesis by blast
  next
    case False
    then show ?thesis using es(3) [OF that] by (simp add: cleaned_def)
  qed
  show "\<forall>r \<in> set us. rule_plain r" unfolding us using owned by auto
  show "distinct (map rule_fields us)"
    unfolding us
  proof (rule distinct_concat_by [where t = "\<lambda>e. table_of (fst e)" and c = "\<lambda>x. fst (snd x)"])
    have "map (\<lambda>e. table_of (fst e)) ?es = map table_of gs" by (subst (2) es(2) [symmetric]) (simp add: comp_def)
    then show "distinct (map (\<lambda>e. table_of (fst e)) ?es)" using tables by simp
    show "fst (snd (rule_fields r)) = table_of (fst e)" if "e \<in> set ?es" "r \<in> set (gp_RulesToRemove (snd e))" for e r
    proof -
      have "rule_fields r \<in> {x \<in> entries (rules w). ?own (fst e) x}" using owned [OF that(1)] that(2) by blast
      then show ?thesis by (simp add: group_rule_owned_def)
    qed
  qed (use owned in blast)
  have "rule_fields ` set us = (\<Union>e \<in> set ?es. rule_fields ` set (gp_RulesToRemove (snd e)))"
    unfolding us by auto
  also have "\<dots> = (\<Union>e \<in> set ?es. {x \<in> entries (rules w). ?own (fst e) x})" using owned by auto
  also have "\<dots> = (\<Union>g \<in> fst ` set ?es. {x \<in> entries (rules w). ?own g x})" by auto
  also have "fst ` set ?es = set gs" by (metis es(2) list.set_map)
  finally show "rule_fields ` set us = {x \<in> entries (rules w). x \<in> owned_rules (RulePriorityBase gl) (RulePriorityStep gl)
      entry_fam (map config_input (filter (\<lambda>g. rc_Enabled (g_Rule g)) gs))}"
    by (auto simp: owned_rules_def)
qed

end

context quiet_host
begin

lemma cleanup_effect:
  assumes inv: "invar w" and tables: "distinct (map table_of (Groups cfg))"
    and run: "cleanupOwned (NetlinkKernel nl) cfg False reg w = (err, out, reg', w')"
  defines "gl \<equiv> c_Global cfg"
  defines "owned \<equiv> owned_entries (RouteProtocol gl) (map config_input (Groups cfg))"
    and "rowned \<equiv> owned_rules (RulePriorityBase gl) (RulePriorityStep gl) (rule_entry_family nl nfam)
      (map config_input (filter (\<lambda>g. rc_Enabled (g_Rule g)) (Groups cfg)))"
  shows "fib_entries (fib w) - owned \<subseteq> fib_entries (fib w')" "fib_entries (fib w') \<subseteq> fib_entries (fib w)"
    "rule_entries nl (rules w) - rowned \<subseteq> rule_entries nl (rules w')" "rule_entries nl (rules w') \<subseteq> rule_entries nl (rules w)"
    "err = None \<Longrightarrow> fib_entries (fib w') = fib_entries (fib w) - owned"
    "err = None \<Longrightarrow> rule_entries nl (rules w') = rule_entries nl (rules w) - rowned"
proof -
  have all: "(fib_entries (fib w) - owned \<subseteq> fib_entries (fib w') \<and> fib_entries (fib w') \<subseteq> fib_entries (fib w))
    \<and> (rule_entries nl (rules w) - rowned \<subseteq> rule_entries nl (rules w') \<and> rule_entries nl (rules w') \<subseteq> rule_entries nl (rules w))
    \<and> (err = None \<longrightarrow> fib_entries (fib w') = fib_entries (fib w) - owned
      \<and> rule_entries nl (rules w') = rule_entries nl (rules w) - rowned)"
  proof (cases "cleanup_groups (NetlinkKernel nl) gl (Groups cfg) w")
    case (Inl e)
    then show ?thesis using run by (auto simp: cleanupOwned_def BuildCleanupPlan_def gl_def)
  next
    case (Inr gps)
    note gps = cleanup_groups_cleaned [OF Inr]
    have none: "\<forall>gp \<in> set gps. gp_RoutesToAdd gp = [] \<and> gp_RulesToAdd gp = []"
      using gps by (auto simp: cleaned_def list_all2_conv_all_nth in_set_conv_nth)
    note ops = cleanup_ops [OF none]
    let ?us = "concat (map gp_RulesToRemove gps)" and ?rs = "concat (map gp_RoutesToRemove gps)"
    obtain e1 w1 where w1: "rules_Apply (NetlinkKernel nl) gps w = (e1, w1)" by fastforce
    note u = ruls.cleaned_rules [OF inv gps tables]
    have "rule_fields ` set ?us \<subseteq> ruls.entries (rules w)" using u(3) by blast
    note du = ruls.nlr.run_dels [OF inv u(1) this u(2) w1 [unfolded rules_Apply_ops ops(2)]]
    have rdiff: "ruls.entries (rules w) - rule_fields ` set ?us = rule_entries nl (rules w) - rowned"
      unfolding u(3) ruls.entries_rules rowned_def by blast
    have same: "same_routes nl fib w w1" by (rule rules_Apply_routes [OF w1])
    then have fib1: "fib w1 = fib w" by (simp add: same_routes_def)
    obtain e2 w2 where w2: "routes_Apply (NetlinkKernel nl) gps w1 = (e2, w2)" by fastforce
    note r = fibs.cleaned_routes [OF inv gps tables]
    have "route_fields ` set ?rs \<subseteq> fibs.entries (fib w1)" unfolding r(3) fib1 by blast
    note dr = fibs.nlk.run_dels [OF du(1) r(1) this r(2) w2 [unfolded routes_Apply_ops ops(1)]]
    have fdiff: "fibs.entries (fib w1) - route_fields ` set ?rs = fib_entries (fib w) - owned"
      unfolding r(3) fib1 fibs.entries_fib owned_def by blast
    have "rules w2 = rules w1" using routes_Apply_rules [OF w2] by (simp add: same_rules_def)
    note facts = this fib1 du(2-4) [unfolded rdiff, unfolded ruls.entries_rules] dr(2-4) [unfolded fdiff, unfolded fibs.entries_fib]
    consider e where "e1 = Some e" "err \<noteq> None" "w' = w1" | "e1 = None" "err = None \<longleftrightarrow> e2 = None" "w' = w2"
      using run w1 w2 Inr
      by (auto simp: cleanupOwned_def BuildCleanupPlan_def gl_def [symmetric] apply_plan_def split: option.splits)
    then show ?thesis
    proof cases
      case 1
      then show ?thesis using facts by auto
    next
      case 2
      then show ?thesis using facts by auto
    qed
  qed
  then show "fib_entries (fib w) - owned \<subseteq> fib_entries (fib w')" "fib_entries (fib w') \<subseteq> fib_entries (fib w)"
    "rule_entries nl (rules w) - rowned \<subseteq> rule_entries nl (rules w')" "rule_entries nl (rules w') \<subseteq> rule_entries nl (rules w)"
    "err = None \<Longrightarrow> fib_entries (fib w') = fib_entries (fib w) - owned"
    "err = None \<Longrightarrow> rule_entries nl (rules w') = rule_entries nl (rules w) - rowned" by blast+
qed

end

section \<open>The daemon in dry-run mode\<close>

context quiet_host
begin

lemma cleanup_dry: "cleanupOwned k cfg True reg w = (err, out, reg', w') \<Longrightarrow> w' = w"
  by (auto simp: cleanupOwned_def split: sum.splits)

fun world :: "'w daemon \<Rightarrow> 'w" where
  "world (Running active reg w) = w"
| "world (Stopped reg w) = w"
| "world (Panicked reg w) = w"

lemma run_dry: "DryRun opts \<Longrightarrow> quiet w (world (run (NetlinkKernel nl) env opts ords active reg w))"
  by (auto simp: run_def split: prod.splits dest: reconcile_dry)

lemma handle_dry:
  assumes "DryRun opts"
  shows "quiet w (world (handle (NetlinkKernel nl) env opts ev active reg w))"
  using assms run_dry [OF assms]
  by (auto simp: handle_def split: event.splits sum.splits prod.splits dest: cleanup_dry)

text \<open>If nobody else touches the tables between events, a daemon in dry-run mode never changes them.\<close>

lemma daemon_dry:
  assumes "daemon_reach quiet (NetlinkKernel nl) env opts cfg reg w s" "DryRun opts"
  shows "quiet w (world s)"
  using assms(1)
proof (induction rule: daemon_reach.induct)
  case (start ords)
  then show ?case using run_dry [OF assms(2)] by (simp add: daemon_start_def)
next
  case (step s ev s')
  from step.hyps(2) obtain active r v v1 where s: "s = Running active r v" "quiet v v1"
    "s' = handle (NetlinkKernel nl) env opts ev active r v1" by (auto elim: daemon_stepE)
  then show ?case
    using step.IH handle_dry [OF assms(2), of v1 ev active r] quiet_trans by (metis world.simps(1))
qed

end

end
