(* ===== verification/Unstable_Rules.thy ===== *)
theory Unstable_Rules
  imports Host_Runs
begin

text \<open>
  Policy rules that the kernel does not list as they were sent. \<open>Reconcile_Rules\<close> treats the rules the
  kernel stores as they are; here the desired rules are any, and the operations are followed on messages
  instead of entries.
\<close>

section \<open>Canonical rules\<close>

text \<open>
  What the kernel keeps of a rule: the source prefix masked, and mark and mask only together. A message
  does not tell a rule from its canonical form, the printed key of the planner does.
\<close>

definition canon_rule :: "Rule \<Rightarrow> Rule" where
  "canon_rule r = r\<lparr>ru_FWMark := (if ru_HasFWMark r then ru_FWMark r else 0),
     ru_Mask := (if ru_HasFWMark r then ru_Mask r else 0), ru_From := Masked (ru_From r)\<rparr>"

definition rule_from_ok :: "Rule \<Rightarrow> bool" where
  "rule_from_ok r \<longleftrightarrow> pfx_wf (ru_From r) \<and> (ru_From r = PrefixZero \<or> Prefix_IsValid (ru_From r))"

lemma Masked_Zero [simp]: "Masked PrefixZero = PrefixZero"
  by (simp add: Masked_def Prefix_Bits_def)

lemma canon_fields: "rule_fields r = rule_fields s \<Longrightarrow> rule_fields (canon_rule r) = rule_fields (canon_rule s)"
  by (simp add: rule_fields_def canon_rule_def)

lemma canon_plain: "rule_plain r \<Longrightarrow> rule_fields (canon_rule r) = rule_fields r"
  by (auto simp: rule_plain_def rule_fields_def canon_rule_def pfx_ok_def)

lemma prefixToIPNet_Masked:
  assumes "pfx_wf p" "Prefix_IsValid p"
  shows "prefixToIPNet (Masked p) = prefixToIPNet p"
proof -
  have "Is6 (Prefix_Addr (Masked p)) = Is6 (Prefix_Addr p)"
    using Masked_simps(2) [OF assms] by (cases "Prefix_Addr p"; cases "Prefix_Addr (Masked p)") auto
  then show ?thesis
    using Masked_simps(1) [OF assms] by (simp add: prefixToIPNet_def Masked_idem Prefix_Bits_def)
qed

lemma canon_msg:
  assumes "rule_from_ok r"
  shows "nl_rule_msg nl (canon_rule r) = nl_rule_msg nl r"
proof (cases "Prefix_IsValid (ru_From r)")
  case True
  then have "pfx_wf (ru_From r)" using assms by (simp add: rule_from_ok_def)
  note p = prefixToIPNet_Masked [OF this True] Masked_simps(1) [OF this True]
  then have "Prefix_IsValid (Masked (ru_From r))" using True by (simp add: Prefix_IsValid_def)
  then show ?thesis using True p(1) by (simp add: nl_rule_msg_def canon_rule_def Let_def)
next
  case False
  then have "ru_From r = PrefixZero" using assms by (simp add: rule_from_ok_def)
  then show ?thesis by (simp add: nl_rule_msg_def canon_rule_def Let_def Prefix_IsValid_def)
qed

lemma nl_rule_msg_table [simp]: "nr_Table (nl_rule_msg nl r) = ru_Table r"
  by (simp add: nl_rule_msg_def Let_def)

lemma desiredRules_single: "r \<in> set (desiredRules g) \<Longrightarrow> desiredRules g = [r]"
  by (auto simp: desiredRules_def Let_def split: if_splits)

lemma desiredRules_from_ok:
  assumes "validateGroup (ig_Config g) = []" "r \<in> set (desiredRules g)"
  shows "rule_from_ok r" "ru_Table r = group_table g"
proof -
  let ?r = "g_Rule (ig_Config g)"
  have en: "rc_Enabled ?r" and r: "ru_From r = (if rc_From ?r \<noteq> [] then parse_prefix_or_zero (rc_From ?r) else PrefixZero)"
    "ru_Table r = rc_Table ?r"
    using assms(2) by (auto simp: desiredRules_def Let_def split: if_splits)
  show "ru_Table r = group_table g" using validateGroup_fields(7) [OF assms(1) en] r(2) by (simp add: group_table_def)
  show "rule_from_ok r"
  proof (cases "rc_From ?r = []")
    case True
    then show ?thesis using r(1) by (simp add: rule_from_ok_def pfx_wf_def)
  next
    case False
    then obtain p where "ParsePrefix (rc_From ?r) = Some p" using validateGroup_fields(8) [OF assms(1) en] by blast
    then show ?thesis using False r(1) ParsePrefix_wf by (simp add: rule_from_ok_def parse_prefix_or_zero_def)
  qed
qed

section \<open>Operations on messages\<close>

fun msgs_after :: "'w Netlink \<Rightarrow> NlRule set \<Rightarrow> Rule op list \<Rightarrow> NlRule set" where
  "msgs_after nl S [] = S"
| "msgs_after nl S (Add r # ops) = msgs_after nl (insert (nl_rule_msg nl r) S) ops"
| "msgs_after nl S (Del r # ops) = msgs_after nl (S - {nl_rule_msg nl r}) ops"

lemma msgs_after_append: "msgs_after nl S (xs @ ys) = msgs_after nl (msgs_after nl S xs) ys"
  by (induction nl S xs rule: msgs_after.induct) simp_all

lemma msgs_after_other:
  "\<forall>r \<in> set (op_adds ops) \<union> set (op_dels ops). nl_rule_msg nl r \<noteq> m \<Longrightarrow> m \<in> msgs_after nl S ops \<longleftrightarrow> m \<in> S"
  by (induction nl S ops rule: msgs_after.induct) auto

lemma msgs_after_group:
  "msgs_after nl S (map Add as @ map Del ds) = (S \<union> nl_rule_msg nl ` set as) - nl_rule_msg nl ` set ds"
proof -
  have "msgs_after nl S (map Add as) = S \<union> nl_rule_msg nl ` set as" by (induction as arbitrary: S) auto
  moreover have "msgs_after nl T (map Del ds) = T - nl_rule_msg nl ` set ds" for T by (induction ds arbitrary: T) auto
  ultimately show ?thesis by (simp add: msgs_after_append)
qed

context netlink_rules
begin

lemma run_msgs:
  assumes "invar w" "\<forall>r \<in> set (op_adds ops). rule_from_ok r \<and> rule_plain (canon_rule r)"
    and "\<forall>r \<in> set (op_dels ops). rule_plain r" "distinct (map (nl_rule_msg nl) (op_dels ops))"
    and "nl_rule_msg nl ` set (op_dels ops) \<subseteq> rules w"
    and "run_each (exec_op (AddRule (NetlinkKernel nl)) (DeleteRule (NetlinkKernel nl))) ops w = (None, w')"
  shows "rules w' = msgs_after nl (rules w) ops"
  using assms
proof (induction ops arbitrary: w)
  case (Cons opn ops)
  obtain w1 where w1: "exec_op (AddRule (NetlinkKernel nl)) (DeleteRule (NetlinkKernel nl)) opn w = (None, w1)"
    "run_each (exec_op (AddRule (NetlinkKernel nl)) (DeleteRule (NetlinkKernel nl))) ops w1 = (None, w')"
    using Cons.prems(6) by (auto split: prod.splits option.splits)
  show ?case
  proof (cases opn)
    case (Add r)
    then have ok: "rule_from_ok r" and plain: "rule_plain (canon_rule r)" using Cons.prems(2) by simp_all
    note r = plain canon_msg [OF ok, of nl]
    obtain err where err: "nk_RuleAdd nl (nl_rule_msg nl (canon_rule r)) w = (err, w1)" "ignoreExists err = None"
      using w1(1) Add r(2) by (auto simp: NetlinkKernel_rules split: prod.splits)
    then have "err = None \<or> err = Some EEXIST" by (auto simp: ignoreExists_def split: if_splits)
    then have "invar w1" "rules w1 = insert (nl_rule_msg nl r) (rules w)"
      using radd_ok [OF Cons.prems(1) r(1) err(1)] radd_exists [OF Cons.prems(1) r(1)] err(1) r(2) by auto
    then show ?thesis using Cons.IH [of w1] Cons.prems(2-5) w1(2) Add by auto
  next
    case (Del r)
    then have r: "rule_plain r" "nl_rule_msg nl r \<in> rules w" using Cons.prems(3,5) by simp_all
    obtain err where err: "nk_RuleDel nl (nl_rule_msg nl r) w = (err, w1)" "ignoreNotFound err = None"
      using w1(1) Del by (auto simp: NetlinkKernel_rules split: prod.splits)
    have "err = None"
      using err rdel_missing [OF Cons.prems(1) r(1)] r(2) by (cases err) (auto simp: ignoreNotFound_def split: if_splits)
    then have "invar w1" "rules w1 = rules w - {nl_rule_msg nl r}"
      using rdel_ok [OF Cons.prems(1) r(1) err(1)] r(2) by auto
    moreover from this have "nl_rule_msg nl ` set (op_dels ops) \<subseteq> rules w1" using Cons.prems(4,5) Del by (simp add: subset_Diff_insert)
    ultimately show ?thesis using Cons.IH [of w1] Cons.prems(2-4) w1(2) Del by simp
  qed
qed simp


text \<open>The part of a plan for one group, by messages.\<close>

lemma group_rule_msgs:
  fixes proto :: int
  assumes inv: "invar w" and ords: "\<And>j. is_range_order (ords j)"
    and cur: "rules_CurrentOwned (NetlinkKernel nl) (group_table g) (rc_Priority (g_Rule (ig_Config g))) base step (group_family g) w
      = Inr (ig_CurrentRules g)"
  defines "gp \<equiv> build_group ords proto g"
  shows "set (gp_RulesToAdd gp) \<subseteq> set (desiredRules g)"
    "\<forall>s \<in> set (gp_RulesToRemove gp). rule_plain s \<and> ru_Table s = group_table g"
    "distinct (map (nl_rule_msg nl) (gp_RulesToRemove gp))" "nl_rule_msg nl ` set (gp_RulesToRemove gp) \<subseteq> rules w"
proof -
  note listed = nlr.rules_entries [OF inv cur]
  note diff = rule_diff.diff_keys [OF ords ords build_group_rules [of ords proto g, folded gp_def, symmetric]]
  show "set (gp_RulesToAdd gp) \<subseteq> set (desiredRules g)" by (rule diff(1))
  have fields: "rule_fields s \<in> entries (rules w) \<and> group_rule_owned base step entry_fam g (rule_fields s)"
    if "s \<in> set (gp_RulesToRemove gp)" for s using that diff(2) listed(1) by blast
  have plain: "rule_plain s" if "s \<in> set (gp_RulesToRemove gp)" for s using that diff(2) listed(3) by blast
  show "\<forall>s \<in> set (gp_RulesToRemove gp). rule_plain s \<and> ru_Table s = group_table g"
    using fields plain by (auto simp: group_rule_owned_def)
  show "nl_rule_msg nl ` set (gp_RulesToRemove gp) \<subseteq> rules w" using fields plain entries_iff by blast
  have "s = s'" if "s \<in> set (gp_RulesToRemove gp)" "s' \<in> set (gp_RulesToRemove gp)" "nl_rule_msg nl s = nl_rule_msg nl s'" for s s'
    using that plain msg_content nlr.rkept_key diff(6) by (metis distinct_map inj_onD)
  then show "distinct (map (nl_rule_msg nl) (gp_RulesToRemove gp))"
    using diff(6) by (simp add: distinct_map inj_on_def)
qed

text \<open>
  A desired rule that is not canonical never has the key of a listed one: it is always added, and the
  listed one is always removed.
\<close>

lemma unstable_rule_plan:
  fixes proto :: int
  assumes inv: "invar w" and ords: "\<And>j. is_range_order (ords j)"
    and cur: "rules_CurrentOwned (NetlinkKernel nl) (group_table g) (rc_Priority (g_Rule (ig_Config g))) base step (group_family g) w
      = Inr (ig_CurrentRules g)"
    and r: "r \<in> set (desiredRules g)" "rule_from_ok r" "rule_plain (canon_rule r)" "rule_fields r \<noteq> rule_fields (canon_rule r)"
    and own: "group_rule_owned base step entry_fam g (rule_fields (canon_rule r))"
  defines "gp \<equiv> build_group ords proto g"
  shows "r \<in> set (gp_RulesToAdd gp)"
    "nl_rule_msg nl r \<in> nl_rule_msg nl ` set (gp_RulesToRemove gp) \<longleftrightarrow> nl_rule_msg nl r \<in> rules w"
proof -
  note listed = nlr.rules_entries [OF inv cur]
  note diff = rule_diff.diff_keys [OF ords ords build_group_rules [of ords proto g, folded gp_def, symmetric]]
  note msg = canon_msg [OF r(2), of nl]
  have key: "ruleKey r \<noteq> ruleKey c" if c: "c \<in> set (ig_CurrentRules g)" for c
  proof
    assume eq: "ruleKey r = ruleKey c"
    have plain: "rule_plain c" using c listed(3) by blast
    have "rule_fields r = rule_fields c"
      using eq ruleKey_iff [of r c] r(2) nlr.rkept_from [OF plain] by (simp add: rule_from_ok_def)
    then show False using canon_fields [of r c] canon_plain [OF plain] r(4) by simp
  qed
  have des: "desiredRules g = [r]" by (rule desiredRules_single [OF r(1)])
  have "ruleKey r \<in> ruleKey ` set (gp_RulesToAdd gp)" using diff(3) key des by fastforce
  then show "r \<in> set (gp_RulesToAdd gp)" using diff(1) des by auto
  show "nl_rule_msg nl r \<in> nl_rule_msg nl ` set (gp_RulesToRemove gp) \<longleftrightarrow> nl_rule_msg nl r \<in> rules w"
  proof
    show "nl_rule_msg nl r \<in> rules w" if "nl_rule_msg nl r \<in> nl_rule_msg nl ` set (gp_RulesToRemove gp)"
      by (rule subsetD [OF group_rule_msgs(4) [where ords = ords and proto = proto, OF inv ords cur, folded gp_def] that])
    assume "nl_rule_msg nl r \<in> rules w"
    then have "rule_fields (canon_rule r) \<in> entries (rules w)" using entries_iff [OF r(3)] msg by simp
    then have "rule_fields (canon_rule r) \<in> rule_fields ` set (ig_CurrentRules g)" unfolding listed(1) using own by blast
    then obtain c where c: "c \<in> set (ig_CurrentRules g)" "rule_fields c = rule_fields (canon_rule r)"
      by auto
    have "ruleKey c \<in> ruleKey ` set (gp_RulesToRemove gp)" using diff(4) key [OF c(1)] c(1) des by auto
    then obtain c' where c': "c' \<in> set (gp_RulesToRemove gp)" "ruleKey c = ruleKey c'" by blast
    then have "rule_plain c" "rule_plain c'" using c(1) diff(2) listed(3) by blast+
    then have "rule_fields c' = rule_fields (canon_rule r)" using nlr.rkept_key [of c c'] c'(2) c(2) by simp
    then have "nl_rule_msg nl c' = nl_rule_msg nl r" using msg_content [OF \<open>rule_plain c'\<close> r(3)] msg by simp
    then show "nl_rule_msg nl r \<in> nl_rule_msg nl ` set (gp_RulesToRemove gp)" using c'(1) by (metis imageI)
  qed
qed

end

text \<open>The rule operations of one group of a plan, given with its position.\<close>

definition group_ops :: "plan_orders \<Rightarrow> int \<Rightarrow> nat \<times> InputGroup \<Rightarrow> Rule op list" where
  "group_ops ords proto e =
     map Add (gp_RulesToAdd (build_group (ords (fst e)) proto (snd e)))
     @ map Del (gp_RulesToRemove (build_group (ords (fst e)) proto (snd e)))"

lemma rule_ops_groups: "rule_ops (plan_Groups (Build ords proto gs)) = concat (map (group_ops ords proto) (enumerate 0 gs))"
  by (simp add: rule_ops_def Build_groups group_ops_def [abs_def] comp_def)

lemma group_ops_simps [simp]:
  "op_adds (group_ops ords proto e) = gp_RulesToAdd (build_group (ords (fst e)) proto (snd e))"
  "op_dels (group_ops ords proto e) = gp_RulesToRemove (build_group (ords (fst e)) proto (snd e))"
  by (simp_all add: group_ops_def)

lemma enumerate_tables: "distinct (map group_table gs) \<Longrightarrow> distinct (map (\<lambda>e. group_table (snd e)) (enumerate n gs))"
proof -
  have "map (\<lambda>e. group_table (snd e)) (enumerate n gs) = map group_table (map snd (enumerate n gs))" by (simp only: map_map comp_def)
  then show "distinct (map group_table gs) \<Longrightarrow> distinct (map (\<lambda>e. group_table (snd e)) (enumerate n gs))" by simp
qed

context netlink_rules
begin

text \<open>The groups list what the kernel holds, and their rules lie in their tables and are canonically plain.\<close>

definition rules_current :: "int \<Rightarrow> int \<Rightarrow> InputGroup list \<Rightarrow> 'w \<Rightarrow> bool" where
  "rules_current base step gs w \<longleftrightarrow> invar w \<and> distinct (map group_table gs)
     \<and> (\<forall>g \<in> set gs. rules_CurrentOwned (NetlinkKernel nl) (group_table g) (rc_Priority (g_Rule (ig_Config g))) base step
          (group_family g) w = Inr (ig_CurrentRules g)
        \<and> (\<forall>r \<in> set (desiredRules g). rule_from_ok r \<and> rule_plain (canon_rule r) \<and> ru_Table r = group_table g))"

lemma group_ops_tables:
  assumes "rules_current base step gs w" "\<And>i j. is_range_order (ords i j)" "e \<in> set (enumerate 0 gs)"
    and "r \<in> set (op_adds (group_ops ords proto e)) \<union> set (op_dels (group_ops ords proto e))"
  shows "ru_Table r = group_table (snd e)"
proof -
  have g: "snd e \<in> set gs" by (rule in_enumerate [OF assms(3)])
  then have cur: "rules_CurrentOwned (NetlinkKernel nl) (group_table (snd e)) (rc_Priority (g_Rule (ig_Config (snd e)))) base step
      (group_family (snd e)) w = Inr (ig_CurrentRules (snd e))" and inv: "invar w"
    using assms(1) unfolding rules_current_def by blast+
  note grp = group_rule_msgs [where ords = "ords (fst e)" and proto = proto, OF inv assms(2) cur]
  show ?thesis
    using assms(4) grp(1,2) assms(1) g unfolding rules_current_def group_ops_simps by blast
qed

text \<open>A plan carried out without error has done to the messages what its operations say.\<close>

lemma rules_Apply_msgs:
  assumes cur: "rules_current base step gs w" and ords: "\<And>i j. is_range_order (ords i j)"
    and run: "rules_Apply (NetlinkKernel nl) (plan_Groups (Build ords proto gs)) w = (None, w')"
  shows "rules w' = msgs_after nl (rules w) (concat (map (group_ops ords proto) (enumerate 0 gs)))"
proof -
  let ?es = "enumerate 0 gs" and ?m = "nl_rule_msg nl"
  have inv: "invar w" and tables: "distinct (map group_table gs)" using cur by (simp_all add: rules_current_def)
  have each: "rules_CurrentOwned (NetlinkKernel nl) (group_table g) (rc_Priority (g_Rule (ig_Config g))) base step
      (group_family g) w = Inr (ig_CurrentRules g)" if "g \<in> set gs" for g
    using cur that unfolding rules_current_def by blast
  note grp = group_rule_msgs [where ords = "ords (fst e)" and g = "snd e" and proto = proto for e, OF inv ords each [OF in_enumerate]]
  have adds: "rule_from_ok r \<and> rule_plain (canon_rule r)"
    if "e \<in> set ?es" "r \<in> set (op_adds (group_ops ords proto e))" for e r
    using grp(1) [OF that(1)] that(2) in_enumerate [OF that(1)] cur unfolding rules_current_def group_ops_simps by blast
  show ?thesis
  proof (rule run_msgs [OF inv _ _ _ _ run [unfolded rules_Apply_ops rule_ops_groups]])
    show "\<forall>r \<in> set (op_adds (concat (map (group_ops ords proto) ?es))). rule_from_ok r \<and> rule_plain (canon_rule r)"
      using adds by (auto simp: op_concat)
    show "\<forall>r \<in> set (op_dels (concat (map (group_ops ords proto) ?es))). rule_plain r"
      "?m ` set (op_dels (concat (map (group_ops ords proto) ?es))) \<subseteq> rules w"
      using grp(2,4) by (fastforce simp: op_concat)+
    show "distinct (map ?m (op_dels (concat (map (group_ops ords proto) ?es))))"
      unfolding op_concat map_map comp_def
      by (rule distinct_concat_by [where c = nr_Table, OF enumerate_tables [OF tables]]) (use grp(2,3) in auto)
  qed
qed

text \<open>
  A rule that is not canonical comes and goes: the other groups touch other tables only, and the
  addition comes before the removal.
\<close>

lemma rules_Apply_toggle:
  assumes cur: "rules_current base step gs w" and ords: "\<And>i j. is_range_order (ords i j)"
    and g: "g \<in> set gs" and r: "r \<in> set (desiredRules g)" "rule_fields r \<noteq> rule_fields (canon_rule r)"
    and own: "group_rule_owned base step entry_fam g (rule_fields (canon_rule r))"
    and run: "rules_Apply (NetlinkKernel nl) (plan_Groups (Build ords proto gs)) w = (None, w')"
  shows "nl_rule_msg nl r \<in> rules w' \<longleftrightarrow> nl_rule_msg nl r \<notin> rules w"
proof -
  let ?es = "enumerate 0 gs" and ?m = "nl_rule_msg nl" and ?ops = "group_ops ords proto"
  have inv: "invar w" and etables: "distinct (map (\<lambda>e. group_table (snd e)) ?es)"
    using cur enumerate_tables by (simp_all add: rules_current_def)
  have canon: "rule_from_ok r" "rule_plain (canon_rule r)" and table: "ru_Table r = group_table g"
    and listed: "rules_CurrentOwned (NetlinkKernel nl) (group_table g) (rc_Priority (g_Rule (ig_Config g))) base step
      (group_family g) w = Inr (ig_CurrentRules g)"
    using cur g r(1) unfolding rules_current_def by blast+
  obtain e P Q where e: "snd e = g" "?es = P @ e # Q"
    using g split_list [of _ ?es] unfolding snd_enumerate [of 0 gs, symmetric] by blast
  have other: "?m s \<noteq> ?m r" if d: "d \<in> set P \<union> set Q" and s: "s \<in> set (op_adds (?ops d)) \<union> set (op_dels (?ops d))" for d s
  proof -
    have "ru_Table s = group_table (snd d)" using group_ops_tables [OF cur ords _ s] d e(2) by auto
    moreover have "\<forall>d \<in> set P \<union> set Q. group_table g \<noteq> group_table (snd d)"
      using etables e(1) unfolding e(2) by (auto simp: image_iff)
    ultimately show ?thesis using d table nl_rule_msg_table by metis
  qed
  have out: "\<forall>s \<in> set (op_adds (concat (map ?ops X))) \<union> set (op_dels (concat (map ?ops X))). ?m s \<noteq> ?m r"
    if "set X \<subseteq> set P \<union> set Q" for X using other that by (fastforce simp: op_concat)
  note plan = unstable_rule_plan [where ords = "ords (fst e)" and proto = proto, OF inv ords listed r(1) canon r(2) own]
  let ?S = "msgs_after nl (rules w) (concat (map ?ops P))"
  have S: "?m r \<in> ?S \<longleftrightarrow> ?m r \<in> rules w" by (rule msgs_after_other [OF out]) simp
  have "?m r \<in> rules w' \<longleftrightarrow> ?m r \<in> msgs_after nl ?S (?ops e)"
    unfolding rules_Apply_msgs [OF cur ords run] e(2) map_append concat_append list.map concat.simps msgs_after_append
    by (rule msgs_after_other [OF out]) simp
  also have "\<dots> \<longleftrightarrow> ?m r \<notin> rules w" unfolding group_ops_def msgs_after_group e(1) using plan S by blast
  finally show ?thesis .
qed

end

context quiet_host
begin

lemma unstable_rule_run:
  assumes inv: "invar w" and ords: "\<forall>i j. is_range_order (ords i j)" and tables: "distinct (map table_of (Groups cfg))"
    and valid: "Validate cfg = []"
    and run: "reconcileOnce ords (NetlinkKernel nl) env cfg False reg w = (None, out, reg', w')"
    and build: "build_inputs (NetlinkKernel nl) env cfg (Groups cfg) reg w = (Inr igs, reg1, w1)"
    and plain: "\<forall>h \<in> set igs. \<forall>s \<in> set (desiredRules h). rule_plain (canon_rule s)"
    and g: "g \<in> set igs" and r: "r \<in> set (desiredRules g)" "rule_fields r \<noteq> rule_fields (canon_rule r)"
    and own: "rule_fields (canon_rule r) \<in> owned_rules (RulePriorityBase (c_Global cfg)) (RulePriorityStep (c_Global cfg))
      (rule_entry_family nl nfam) [g]"
  shows "rule_fields (canon_rule r) \<in> rule_entries nl (rules w') \<longleftrightarrow> rule_fields (canon_rule r) \<notin> rule_entries nl (rules w)"
proof -
  let ?gl = "c_Global cfg"
  let ?plans = "plan_Groups (Build ords (RouteProtocol ?gl) igs)"
  obtain w2 where w2: "rules_Apply (NetlinkKernel nl) ?plans w1 = (None, w2)"
    and w': "routes_Apply (NetlinkKernel nl) ?plans w2 = (None, w')"
    using run build by (auto simp: reconcileOnce_def BuildPlan_def apply_plan_def Let_def split: prod.splits option.splits)
  note q = quietD [OF build_inputs_quiet [OF build] inv]
  have dist: "distinct (map group_table igs)"
    unfolding group_table_of using build_inputs_groups(2) [OF build tables] .
  have same: "rules w1 = rules w" "rules w' = rules w2"
    using q(3) routes_Apply_rules [OF w'] by (simp_all add: same_rules_def)
  have groups: "validateGroup (ig_Config h) = []" if "h \<in> set igs" for h
    using Validate_groups [OF valid] build_inputs_groups(1) [OF build] that by auto
  have "nl_rule_msg nl r \<in> rules w2 \<longleftrightarrow> nl_rule_msg nl r \<notin> rules w1"
  proof (rule ruls.rules_Apply_toggle [OF _ _ g r _ w2])
    show "is_range_order (ords i j)" for i j using ords by blast
    show "ruls.rules_current (RulePriorityBase ?gl) (RulePriorityStep ?gl) igs w1"
      unfolding ruls.rules_current_def same_CurrentOwned(2) [OF q(3)]
      using q(1) dist build_inputs_current [OF build inv] desiredRules_from_ok [OF groups] plain by blast
    show "group_rule_owned (RulePriorityBase ?gl) (RulePriorityStep ?gl) ruls.entry_fam g (rule_fields (canon_rule r))"
      using own by (simp add: owned_rules_def ruls.entries_rules(2))
  qed
  moreover have "rule_fields (canon_rule r) \<in> rule_entries nl M \<longleftrightarrow> nl_rule_msg nl r \<in> M" for M
    using ruls.entries_iff [of "canon_rule r" M] plain g r(1) canon_msg [OF desiredRules_from_ok(1) [OF groups [OF g] r(1)], of nl]
    by (simp add: ruls.entries_rules(1))
  ultimately show ?thesis unfolding same by simp
qed

end

end
