(* ===== verification/Exclusions.thy ===== *)
theory Exclusions
  imports App
begin

text \<open>
  \<open>exclude_local_ips\<close> from the interface addresses of the host to the prefixes that are planned: what
  \<open>addrPrefix\<close> makes of an interface address, and which prefixes it keeps from the target.
\<close>

section \<open>What excluding local addresses excludes\<close>

text \<open>
  An interface address as the standard library lists it: address bytes (4, or 16 with IPv4 mapped) and
  a mask of \<open>b\<close> leading ones; the network it lies in; and the addresses that count as public.
\<close>

definition iface_of :: "IPNet \<Rightarrow> Addr \<Rightarrow> nat \<Rightarrow> bool" where
  "iface_of n a b \<longleftrightarrow> (\<exists>raw. AddrFromSlice (ipn_IP n) = Some raw \<and> Unmap raw = a) \<and> a \<noteq> AddrZero
     \<and> ipn_Mask n = CIDRMask (int b) (BitLen a) \<and> b \<le> BitLen a"

definition network :: "Addr \<Rightarrow> nat \<Rightarrow> Addr" where
  "network a b = Prefix_Addr (Masked (PrefixFrom a (int b)))"

definition public_addr :: "Addr \<Rightarrow> bool" where
  "public_addr a \<longleftrightarrow> \<not> IsPrivate a \<and> \<not> IsLoopback a \<and> \<not> IsLinkLocalUnicast a \<and> \<not> IsMulticast a \<and> IsGlobalUnicast a"

lemma addrPrefix_iface:
  assumes "iface_of n a b"
  shows "addrPrefix (NetIPNet n) = Some (Masked (PrefixFrom a (int b)))"
proof -
  have "BitLen a = 32 \<or> BitLen a = 128" using assms by (cases a) (auto simp: iface_of_def)
  then have "Mask_Size (ipn_Mask n) = (int b, int (BitLen a))"
    using assms Mask_Size_CIDRMask by (simp add: iface_of_def)
  then show ?thesis using assms by (auto simp: iface_of_def addrPrefix_def)
qed

lemma network_valid:
  assumes "a \<noteq> AddrZero" "b \<le> BitLen a"
  shows "network a b \<noteq> AddrZero" "BitLen (network a b) = BitLen a" "Zone (network a b) = []"
    "addr_val (network a b) = addr_val a div 2 ^ (BitLen a - b) * 2 ^ (BitLen a - b)"
proof -
  let ?p = "PrefixFrom a (int b)"
  have p: "pfx_wf ?p" "Prefix_IsValid ?p" "BitLen (Prefix_Addr ?p) = BitLen a" "addr_val (Prefix_Addr ?p) = addr_val a"
    "free_bits ?p = BitLen a - b"
    using assms by (cases a; simp add: PrefixFrom_def pfx_wf_def Prefix_IsValid_def free_bits_def)+
  note m = Masked_simps [OF p(1,2), folded network_def]
  show "BitLen (network a b) = BitLen a" "Zone (network a b) = []"
    "addr_val (network a b) = addr_val a div 2 ^ (BitLen a - b) * 2 ^ (BitLen a - b)"
    using m p(3-5) by simp_all
  then show "network a b \<noteq> AddrZero" using assms(1) by (cases a) auto
qed

lemma local_prefixes_ifaces:
  assumes "list_all2 (\<lambda>n (a, b). iface_of n a b) ns nets"
  shows "prefixAddrs (local_prefixes (map NetIPNet ns)) = filter public_addr (map (\<lambda>(a, b). network a b) nets)"
  using assms
proof (induction rule: list_all2_induct)
  case (Cons n ns net nets)
  obtain a b where ab: "net = (a, b)" by (cases net)
  then have n: "iface_of n a b" using Cons.hyps(1) by simp
  then have "a \<noteq> AddrZero" "b \<le> BitLen a" by (auto simp: iface_of_def)
  note v = network_valid [OF this]
  have wz: "withoutZone (network a b) = network a b" using v(3) by (cases "network a b") auto
  obtain q where q: "addrPrefix (NetIPNet n) = Some q" "Prefix_Addr q = network a b"
    using addrPrefix_iface [OF n] by (simp add: network_def)
  have "prefixAddrs (local_prefixes (NetIPNet n # as)) =
      (if public_addr (network a b) then [network a b] else []) @ prefixAddrs (local_prefixes as)" for as
    using v(1) wz by (auto simp: q prefixAddrs_def PrefixFrom_def Let_def Addr_IsValid_def public_addr_def)
  then show ?case using Cons.IH by (simp add: ab)
qed (simp add: prefixAddrs_def)

lemma exclusions_ifaces:
  assumes "exclusionInputs env t w = Inr (throws, local)" "tg_ExcludeLocalIPs t" "iface_addrs env w = Inr as"
  shows "local = prefixAddrs (FilterFamily (local_prefixes as) (tg_Family t))"
  using assms by (auto simp: exclusionInputs_def localNonPrivatePrefixes_def Let_def split: sum.splits)

lemma FilterFamily_same:
  assumes "family \<in> {'''', ''dual'', ''ipv4'', ''ipv6''}" "p \<in> set (FilterFamily ps family)" "q \<in> set qs"
    and "Is4 (Prefix_Addr q) = Is4 (Prefix_Addr p)" "Is6 (Prefix_Addr q) = Is6 (Prefix_Addr p)"
  shows "q \<in> set (FilterFamily qs family)"
  using assms pff.filt_4 [of ps] pff.filt_6 [of ps] pff.filt_4 [of qs] pff.filt_6 [of qs] pff.filt_dual [of family]
  by auto

lemma planned_beside_ifaces:
  assumes "validateGroup (ig_Config g) = []" "tg_ExcludeLocalIPs (g_Target (ig_Config g))"
    and "iface_addrs env w = Inr (map NetIPNet ns)" "list_all2 (\<lambda>n (a, b). iface_of n a b) ns nets"
    and "exclusionInputs env (g_Target (ig_Config g)) w = Inr (throws, ig_CoveredLocalAddrs g)"
  shows "p \<in> set (plan_prefixes g) \<longleftrightarrow>
    p \<in> set (FilterFamily (ig_Prefixes g) (tg_Family (g_Target (ig_Config g))))
    \<and> (\<forall>(a, b) \<in> set nets. public_addr (network a b) \<longrightarrow> \<not> Contains p (network a b))"
proof -
  let ?f = "tg_Family (g_Target (ig_Config g))" and ?ls = "local_prefixes (map NetIPNet ns)"
  have f: "?f \<in> {'''', ''dual'', ''ipv4'', ''ipv6''}" using validateGroup_fields(3) [OF assms(1)] by auto
  have covered: "ig_CoveredLocalAddrs g = prefixAddrs (FilterFamily ?ls ?f)"
    by (rule exclusions_ifaces [OF assms(5,2,3)])
  have all: "set (prefixAddrs ?ls) = {network a b |a b. (a, b) \<in> set nets \<and> public_addr (network a b)}"
    unfolding local_prefixes_ifaces [OF assms(4)] by auto
  have "(\<exists>x \<in> set (ig_CoveredLocalAddrs g). Contains p x) \<longleftrightarrow> (\<exists>x \<in> set (prefixAddrs ?ls). Contains p x)"
    if p: "p \<in> set (FilterFamily (ig_Prefixes g) ?f)"
  proof
    show "\<exists>x \<in> set (prefixAddrs ?ls). Contains p x" if "\<exists>x \<in> set (ig_CoveredLocalAddrs g). Contains p x"
      using that FilterFamily_subset unfolding covered prefixAddrs_def by fastforce
    assume "\<exists>x \<in> set (prefixAddrs ?ls). Contains p x"
    then obtain q where q: "q \<in> set ?ls" "Contains p (Prefix_Addr q)" by (auto simp: prefixAddrs_def)
    have "q \<in> set (FilterFamily ?ls ?f)"
      by (rule FilterFamily_same [OF f p q(1)]) (use Contains_family [OF q(2)] in simp_all)
    then show "\<exists>x \<in> set (ig_CoveredLocalAddrs g). Contains p x" using q(2) unfolding covered prefixAddrs_def by auto
  qed
  moreover have "(\<exists>x \<in> set (prefixAddrs ?ls). Contains p x) \<longleftrightarrow>
      \<not> (\<forall>(a, b) \<in> set nets. public_addr (network a b) \<longrightarrow> \<not> Contains p (network a b))"
    unfolding all by auto
  ultimately show ?thesis unfolding plan_prefixes_iff [OF f] by blast
qed

text \<open>The prefix of a single address contains that address only.\<close>

lemma Contains_single:
  assumes "a \<noteq> AddrZero" "Zone a = []" "Zone x = []"
  shows "Contains (PrefixFrom a (int (BitLen a))) x \<longleftrightarrow> x = a"
proof -
  let ?p = "PrefixFrom a (int (BitLen a))"
  have "Prefix_IsValid ?p" "Prefix_Addr ?p = a" "free_bits ?p = 0"
    using assms(1,2) by (cases a; simp add: PrefixFrom_def Prefix_IsValid_def free_bits_def)+
  then show ?thesis
    using assms Addr_key_eq [of x a] by (auto simp: Contains_iff)
qed

text \<open>The address of an interface, its own network, and the prefix of that address alone.\<close>

lemma iface_addr:
  assumes "iface_of n a b"
  shows "Zone a = []" "a \<noteq> AddrZero" "b \<le> BitLen a"
    "network a b = a \<longleftrightarrow> 2 ^ (BitLen a - b) dvd addr_val a"
proof -
  show a: "a \<noteq> AddrZero" "b \<le> BitLen a" using assms by (auto simp: iface_of_def)
  obtain raw where raw: "AddrFromSlice (ipn_IP n) = Some raw" "a = Unmap raw" using assms by (auto simp: iface_of_def)
  then have "Zone raw = []" by (auto simp: AddrFromSlice_def Let_def split: if_splits)
  then show z: "Zone a = []" using raw(2) by (cases raw) auto
  note v = network_valid [OF a]
  have "network a b = a \<longleftrightarrow> addr_val (network a b) = addr_val a"
    using Addr_key_eq [of "network a b" a] v(2,3) z by simp
  also have "\<dots> \<longleftrightarrow> 2 ^ (BitLen a - b) dvd addr_val a" unfolding v(4) by (metis dvd_div_mult_self dvd_triv_right)
  finally show "network a b = a \<longleftrightarrow> 2 ^ (BitLen a - b) dvd addr_val a" .
qed

lemma ifaces_networks:
  assumes "list_all2 (\<lambda>n (a, b). iface_of n a b) ns nets" "(a, b) \<in> set nets"
  shows "\<exists>n \<in> set ns. iface_of n a b"
  using assms by (induction rule: list_all2_induct) auto

lemma own_address_planned:
  assumes ifaces: "list_all2 (\<lambda>n (a, b). iface_of n a b) ns nets" and a: "(a, b) \<in> set nets"
  shows "(\<forall>(c, d) \<in> set nets. public_addr (network c d) \<longrightarrow> \<not> Contains (PrefixFrom a (int (BitLen a))) (network c d))
    \<longleftrightarrow> a \<notin> {network c d |c d. (c, d) \<in> set nets \<and> public_addr (network c d)}"
proof -
  obtain n where n: "iface_of n a b" using ifaces_networks [OF ifaces a] by blast
  have "Contains (PrefixFrom a (int (BitLen a))) (network c d) \<longleftrightarrow> network c d = a" if cd: "(c, d) \<in> set nets" for c d
  proof -
    obtain m where "iface_of m c d" using ifaces_networks [OF ifaces cd] by blast
    then have "Zone (network c d) = []" using network_valid(3) iface_addr(2,3) by blast
    then show ?thesis using Contains_single iface_addr(1,2) [OF n] by blast
  qed
  then show ?thesis by auto
qed

end
