(* ===== verification/Gateways.thy ===== *)
theory Gateways
  imports App
begin

text \<open>
  From the configuration to next hops: every gateway of a validated configuration becomes a candidate
  (the silent \<open>continue\<close> on an address that does not parse is never taken) and every candidate of a
  resolved family a hop; a resolved hop serves its own family; a healthy gateway is preferred to an
  unhealthy one for every prefix; the addresses of the gateways take no part in any of this.
\<close>

section \<open>Candidates of a validated configuration\<close>

lemma firstNonEmpty_coalesce: "firstNonEmpty vs = coalesce vs"
  by (induction vs) simp_all

lemma app_mergeHealthChecks_eq: "app_mergeHealthChecks parent child = mergeHealthChecks parent child"
  by (simp add: app_mergeHealthChecks_def mergeHealthChecks_def Let_def)

text \<open>The validator checks each gateway merged with its parent; the application builds its candidates from the same merge.\<close>

lemma validateNextHop_gateway:
  assumes "validateNextHop pth family h req = []" "gw \<in> set (nh_Gateways h)"
  shows "\<exists>p. validateNextHop p family (merge_gateway h gw) True = []"
    "gw_Via gw \<noteq> [] \<or> gw_Via4 gw \<noteq> [] \<or> gw_Via6 gw \<noteq> []"
proof -
  obtain i where i: "i < length (nh_Gateways h)" "nh_Gateways h ! i = gw" using assms(2) by (auto simp: in_set_conv_nth)
  then have "(i, gw) \<in> set (enumerate 0 (nh_Gateways h))" by (auto simp: in_set_enumerate_eq)
  moreover have "0 < length (nh_Gateways h)" using assms(2) by auto
  ultimately have "validateNextHop (gateways_path pth i) family (merge_gateway h gw) True = []
      \<and> \<not> (nh_Via (merge_gateway h gw) = [] \<and> nh_Via4 (merge_gateway h gw) = [] \<and> nh_Via6 (merge_gateway h gw) = [])"
    using assms(1) [unfolded validateNextHop.simps [of pth]] by (fastforce simp: Let_def split: if_splits)
  then show "\<exists>p. validateNextHop p family (merge_gateway h gw) True = []"
    "gw_Via gw \<noteq> [] \<or> gw_Via4 gw \<noteq> [] \<or> gw_Via6 gw \<noteq> []"
    by (auto simp: merge_gateway_def)
qed

section \<open>Resolved hops\<close>

lemma filterCandidates_eq:
  "filterCandidatesByFamily cs 4 = filter (\<lambda>c. Is4 (cd_Via c)) cs"
  "filterCandidatesByFamily cs 6 = filter (\<lambda>c. Is6 (cd_Via c)) cs"
  by (induction cs) (auto simp: Addr_IsValid_def Is4_Is6)

lemma Select_via:
  assumes "Select family scope cs link ping reg w = (Inr out, reg', w')" "h \<in> set out"
  shows "\<exists>c \<in> set cs. cd_Via c = h_Via h"
proof -
  have "hop_key h \<in> set (map cand_key cs)"
    unfolding mset_eq_setD [OF Select_keys [OF assms(1)], symmetric] using assms(2) by simp
  then show ?thesis by (auto simp: hop_key_def cand_key_def)
qed

text \<open>The hops of a group are those of its IPv4 selection followed by those of its IPv6 selection.\<close>

definition selected :: "string \<Rightarrow> Candidate list \<Rightarrow> (string \<Rightarrow> 'w \<Rightarrow> (kernel_error, int) result) \<Rightarrow> 'w Pinger \<Rightarrow> ResolvedHop list \<Rightarrow> bool" where
  "selected family cs link ping hops \<longleftrightarrow>
     hops = [] \<or> (\<exists>scope reg w reg' w'. Select family scope cs link ping reg w = (Inr hops, reg', w'))"

lemma selected_Nil [simp]: "selected family cs link ping []"
  by (simp add: selected_def)

lemma selectedI: "Select family scope cs link ping reg w = (Inr hops, reg', w') \<Longrightarrow> selected family cs link ping hops"
  by (auto simp: selected_def)

lemma selected_via: "selected family cs link ping hops \<Longrightarrow> h \<in> set hops \<Longrightarrow> \<exists>c \<in> set cs. cd_Via c = h_Via h"
  using Select_via by (fastforce simp: selected_def)

lemma selected_failover:
  "selected family cs link ping hops \<Longrightarrow> h \<in> set hops \<Longrightarrow> h' \<in> set hops \<Longrightarrow> h_Healthy h \<Longrightarrow> \<not> h_Healthy h'
     \<Longrightarrow> h_Metric h + 1000 < h_Metric h'"
  using Select_metrics(2) by (fastforce simp: selected_def)

lemma resolve_split:
  assumes "resolveCandidates k ping grp scope family cs reg w = (Inr hops, reg', w')"
  shows "\<exists>v4 v6. hops = v4 @ v6
    \<and> selected ''ipv4'' (filter (\<lambda>c. Is4 (cd_Via c)) cs) (LinkIndexByName k) ping v4
    \<and> selected ''ipv6'' (filter (\<lambda>c. Is6 (cd_Via c)) cs) (LinkIndexByName k) ping v6"
proof -
  let ?s4 = "if family = [] \<or> family = ''dual'' \<or> family = ''ipv4''
    then Select ''ipv4'' (grp @ ''.'' @ scope) (filterCandidatesByFamily cs 4) (LinkIndexByName k) ping reg w else (Inr [], reg, w)"
  obtain res4 reg1 w1 where s4: "?s4 = (res4, reg1, w1)" by (rule prod_cases3)
  let ?s6 = "if family = ''dual'' \<or> family = ''ipv6''
    then Select ''ipv6'' (grp @ ''.'' @ scope) (filterCandidatesByFamily cs 6) (LinkIndexByName k) ping reg1 w1 else (Inr [], reg1, w1)"
  obtain res6 reg2 w2 where s6: "?s6 = (res6, reg2, w2)" by (rule prod_cases3)
  show ?thesis
  proof (cases "cs = []")
    case False
    then obtain v4 v6 where v: "res4 = Inr v4" "res6 = Inr v6" "hops = v4 @ v6"
      using assms s6 unfolding resolveCandidates_def s4 by (cases res4; cases res6) auto
    have "selected ''ipv4'' (filter (\<lambda>c. Is4 (cd_Via c)) cs) (LinkIndexByName k) ping v4"
      using s4 v(1) by (auto simp: filterCandidates_eq split: if_splits intro: selectedI)
    moreover have "selected ''ipv6'' (filter (\<lambda>c. Is6 (cd_Via c)) cs) (LinkIndexByName k) ping v6"
      using s6 v(2) by (auto simp: filterCandidates_eq split: if_splits intro: selectedI)
    ultimately show ?thesis using v(3) by blast
  qed (use assms in \<open>simp add: resolveCandidates_def\<close>)
qed

lemma resolved_failover:
  assumes "resolveCandidates k ping grp scope family cs reg w = (Inr hops, reg', w')"
    and "h \<in> set (matchingHops hops p)" "h' \<in> set (matchingHops hops p)" "h_Healthy h" "\<not> h_Healthy h'"
  shows "h_Metric h + 1000 < h_Metric h'"
proof -
  obtain v4 v6 where v: "hops = v4 @ v6"
    "selected ''ipv4'' (filter (\<lambda>c. Is4 (cd_Via c)) cs) (LinkIndexByName k) ping v4"
    "selected ''ipv6'' (filter (\<lambda>c. Is6 (cd_Via c)) cs) (LinkIndexByName k) ping v6"
    using resolve_split [OF assms(1)] by blast
  have "\<forall>h \<in> set v4. Is4 (h_Via h)" "\<forall>h \<in> set v6. Is6 (h_Via h)"
    using selected_via [OF v(2)] selected_via [OF v(3)] by fastforce+
  moreover have "Is4 (h_Via h) = Is4 (h_Via h')" "h \<in> set hops" "h' \<in> set hops"
    using assms(2,3) by (simp_all add: matchingHops_set)
  ultimately have "h \<in> set v4 \<and> h' \<in> set v4 \<or> h \<in> set v6 \<and> h' \<in> set v6"
    using v(1) Is4_Is6(1) by auto
  then show ?thesis using selected_failover [OF v(2)] selected_failover [OF v(3)] assms(4,5) by blast
qed

text \<open>A target without a family counts as dual-stack when it is validated and listed, but only its IPv4 gateways are resolved.\<close>

lemma empty_family_ipv4_only:
  assumes "resolveCandidates k ping grp scope [] cs reg w = (Inr hops, reg', w')" "h \<in> set hops"
  shows "Is4 (h_Via h)"
proof -
  have "selected ''ipv4'' (filter (\<lambda>c. Is4 (cd_Via c)) cs) (LinkIndexByName k) ping hops"
    using assms(1) by (cases "Select ''ipv4'' (grp @ ''.'' @ scope) (filterCandidatesByFamily cs 4) (LinkIndexByName k) ping reg w")
      (auto simp: resolveCandidates_def filterCandidates_eq split: if_splits sum.splits intro: selectedI)
  then show ?thesis using selected_via assms(2) by fastforce
qed

section \<open>All configured gateways\<close>

text \<open>The gateways of a target: those of its list, or the target itself.\<close>

definition target_gateways :: "TargetConfig \<Rightarrow> GatewayConfig list" where
  "target_gateways t =
     (if tg_Gateways t = []
      then [\<lparr>gw_Name = ''primary'', gw_Dev = tg_Dev t, gw_Via = tg_Via t, gw_Via4 = tg_Via4 t, gw_Via6 = tg_Via6 t,
        gw_OnLink = tg_OnLink t, gw_HealthCheck = tg_HealthCheck t\<rparr>]
      else tg_Gateways t)"

definition gateway_dev :: "TargetConfig \<Rightarrow> GatewayConfig \<Rightarrow> string" where
  "gateway_dev t gw = (if gw_Dev gw \<noteq> [] then gw_Dev gw else tg_Dev t)"

text \<open>A family a target may have, and an address that is of it.\<close>

definition in_family :: "string \<Rightarrow> Addr \<Rightarrow> bool" where
  "in_family family a \<longleftrightarrow> Is4 a \<and> family \<in> {[], ''dual'', ''ipv4''} \<or> Is6 a \<and> family \<in> {''dual'', ''ipv6''}"

definition addrs_wf :: "GatewayConfig \<Rightarrow> bool" where
  "addrs_wf gw \<longleftrightarrow> (gw_Via4 gw \<noteq> [] \<longrightarrow> (\<exists>a. ParseAddr (gw_Via4 gw) = Some a \<and> Is4 a))
     \<and> (gw_Via6 gw \<noteq> [] \<longrightarrow> (\<exists>a. ParseAddr (gw_Via6 gw) = Some a \<and> Is6 a))
     \<and> (gw_Via gw \<noteq> [] \<longrightarrow> (\<exists>a. ParseAddr (gw_Via gw) = Some a))"

lemma ParseAddr_Nil [simp]: "ParseAddr [] = None"
  by (simp add: ParseAddr_def)

lemma hop_candidate_set:
  "set (hop_candidate name dev onLink hc raw) =
     {\<lparr>cd_Name = name, cd_Dev = dev, cd_OnLink = onLink, cd_Via = a, cd_HealthCheck = hc\<rparr> |a. ParseAddr raw = Some a}"
  by (auto simp: hop_candidate_def split: option.splits)

lemma hop_candidate_Nil: "hop_candidate name dev onLink hc [] = []"
  by (simp add: hop_candidate_def)

lemma candidatesFromHop_vias:
  assumes "v4 \<noteq> [] \<longrightarrow> (\<exists>a. ParseAddr v4 = Some a)" "v6 \<noteq> [] \<longrightarrow> (\<exists>a. ParseAddr v6 = Some a)"
  shows "(\<lambda>c. (cd_Via c, cd_Dev c)) ` set (candidatesFromHop name dev onLink hc any v4 v6) =
    {(a, dev) |a. ParseAddr v4 = Some a \<or> ParseAddr v6 = Some a \<or> v4 = [] \<and> v6 = [] \<and> ParseAddr any = Some a}"
proof -
  have "hop_candidate n dev onLink hc raw = [] \<longleftrightarrow> raw = []" if "raw \<noteq> [] \<longrightarrow> (\<exists>a. ParseAddr raw = Some a)" for n raw
    using that by (auto simp: hop_candidate_def)
  note empty = this [OF assms(1)] this [OF assms(2)]
  show ?thesis
    by (cases "v4 = [] \<and> v6 = []")
      (auto simp: candidatesFromHop_def Let_def empty hop_candidate_Nil hop_candidate_set image_iff)
qed

lemma validated_target_gateways:
  assumes "validateGroup g = []" "gw \<in> set (target_gateways (g_Target g))"
  shows "addrs_wf gw" "gateway_dev (g_Target g) gw \<noteq> []"
proof -
  let ?t = "g_Target g"
  obtain family where v: "validateNextHop ''target'' family (target_hop ?t) False = []"
    by (rule validateGroup_hops [OF assms(1)])
  have "addrs_wf gw \<and> gateway_dev ?t gw \<noteq> []"
  proof (cases "tg_Gateways ?t = []")
    case True
    then show ?thesis
      using assms(2) validateNextHop_leaf(1-3) [OF v] validateGroup_fields(5) [OF assms(1)]
      by (simp add: target_gateways_def addrs_wf_def gateway_dev_def target_hop_def)
  next
    case False
    then have gw: "gw \<in> set (nh_Gateways (target_hop ?t))" using assms(2) by (simp add: target_gateways_def target_hop_def)
    obtain p where p: "validateNextHop p family (merge_gateway (target_hop ?t) gw) True = []"
      using validateNextHop_gateway(1) [OF v gw] by blast
    show ?thesis
      using validateNextHop_leaf [OF p] by (auto simp: merge_gateway_def addrs_wf_def gateway_dev_def target_hop_def split: if_splits)
  qed
  then show "addrs_wf gw" "gateway_dev ?t gw \<noteq> []" by blast+
qed

text \<open>The candidates of a validated target, by address and device.\<close>

definition gateway_pairs :: "TargetConfig \<Rightarrow> GatewayConfig \<Rightarrow> (Addr \<times> string) set" where
  "gateway_pairs t gw = {(a, gateway_dev t gw) |a. ParseAddr (gw_Via4 gw) = Some a \<or> ParseAddr (gw_Via6 gw) = Some a
     \<or> gw_Via4 gw = [] \<and> gw_Via6 gw = [] \<and> ParseAddr (gw_Via gw) = Some a}"

lemma candidatesFromGateway_pairs:
  assumes "addrs_wf gw"
  shows "(\<lambda>c. (cd_Via c, cd_Dev c)) ` set (candidatesFromGateway gw (tg_Dev t) onLink hc i) = gateway_pairs t gw"
proof -
  have "gw_Via4 gw \<noteq> [] \<longrightarrow> (\<exists>a. ParseAddr (gw_Via4 gw) = Some a)" "gw_Via6 gw \<noteq> [] \<longrightarrow> (\<exists>a. ParseAddr (gw_Via6 gw) = Some a)"
    using assms unfolding addrs_wf_def by blast+
  note vias = candidatesFromHop_vias [OF this]
  have "firstNonEmpty [gw_Dev gw, tg_Dev t] = gateway_dev t gw" by (simp add: gateway_dev_def)
  then show ?thesis unfolding candidatesFromGateway_def Let_def gateway_pairs_def by (simp only: vias)
qed

lemma gatewaysFromTarget_pairs:
  assumes "\<forall>gw \<in> set (target_gateways t). addrs_wf gw"
  shows "(\<lambda>c. (cd_Via c, cd_Dev c)) ` set (gatewaysFromTarget t) = (\<Union>gw \<in> set (target_gateways t). gateway_pairs t gw)"
proof (cases "tg_Gateways t = []")
  case True
  then have "tg_Via4 t \<noteq> [] \<longrightarrow> (\<exists>a. ParseAddr (tg_Via4 t) = Some a)" "tg_Via6 t \<noteq> [] \<longrightarrow> (\<exists>a. ParseAddr (tg_Via6 t) = Some a)"
    using assms by (auto simp: target_gateways_def addrs_wf_def)
  note vias = candidatesFromHop_vias [OF this]
  show ?thesis
    using True by (simp add: gatewaysFromTarget_def gatewaysFromNextHop_def target_gateways_def gateway_pairs_def gateway_dev_def vias)
next
  case False
  then have "(\<lambda>c. (cd_Via c, cd_Dev c)) ` set (gatewaysFromTarget t) =
      (\<Union>e \<in> set (enumerate 0 (tg_Gateways t)). (\<lambda>c. (cd_Via c, cd_Dev c)) `
        set (candidatesFromGateway (snd e) (tg_Dev t) (tg_OnLink t) (tg_HealthCheck t) (fst e)))"
    by (simp add: gatewaysFromTarget_def image_UN case_prod_beta)
  also have "\<dots> = (\<Union>e \<in> set (enumerate 0 (tg_Gateways t)). gateway_pairs t (snd e))"
  proof (intro SUP_cong refl)
    fix e assume "e \<in> set (enumerate 0 (tg_Gateways t))"
    then have "snd e \<in> set (target_gateways t)" using False in_enumerate by (fastforce simp: target_gateways_def)
    then show "(\<lambda>c. (cd_Via c, cd_Dev c)) ` set (candidatesFromGateway (snd e) (tg_Dev t) (tg_OnLink t) (tg_HealthCheck t) (fst e))
        = gateway_pairs t (snd e)" using candidatesFromGateway_pairs assms by blast
  qed
  also have "\<dots> = (\<Union>gw \<in> snd ` set (enumerate 0 (tg_Gateways t)). gateway_pairs t gw)" by simp
  finally show ?thesis using False by (simp add: target_gateways_def snd_enumerate)
qed

text \<open>A selection keeps them, family by family.\<close>

lemma Select_pairs:
  assumes "Select family scope cs link ping reg w = (Inr out, reg', w')"
  shows "(\<lambda>h. (h_Via h, h_Dev h)) ` set out = (\<lambda>c. (cd_Via c, cd_Dev c)) ` set cs"
proof -
  have "hop_key ` set out = cand_key ` set cs"
    using mset_eq_setD [OF Select_keys [OF assms]] by simp
  then have "(\<lambda>(d, l, v). (v, d)) ` hop_key ` set out = (\<lambda>(d, l, v). (v, d)) ` cand_key ` set cs" by simp
  then show ?thesis by (simp add: image_image hop_key_def cand_key_def)
qed

lemma resolve_pairs:
  assumes "resolveCandidates k ping grp scope family cs reg w = (Inr hops, reg', w')"
  shows "(\<lambda>h. (h_Via h, h_Dev h)) ` set hops = {x \<in> (\<lambda>c. (cd_Via c, cd_Dev c)) ` set cs. in_family family (fst x)}"
proof (cases "cs = []")
  case True
  then show ?thesis using assms by (simp add: resolveCandidates_def)
next
  case False
  let ?pairs = "\<lambda>P. (\<lambda>c. (cd_Via c, cd_Dev c)) ` {c \<in> set cs. P (cd_Via c)}"
  obtain r4 reg1 w1 where s4: "(if family = [] \<or> family = ''dual'' \<or> family = ''ipv4''
    then Select ''ipv4'' (grp @ ''.'' @ scope) (filterCandidatesByFamily cs 4) (LinkIndexByName k) ping reg w else (Inr [], reg, w))
      = (r4, reg1, w1)" by (rule prod_cases3)
  obtain r6 reg2 w2 where s6: "(if family = ''dual'' \<or> family = ''ipv6''
    then Select ''ipv6'' (grp @ ''.'' @ scope) (filterCandidatesByFamily cs 6) (LinkIndexByName k) ping reg1 w1 else (Inr [], reg1, w1))
      = (r6, reg2, w2)" by (rule prod_cases3)
  obtain v4 v6 where v: "r4 = Inr v4" "r6 = Inr v6" "hops = v4 @ v6"
    using assms False s6 unfolding resolveCandidates_def s4 by (cases r4; cases r6) auto
  have "(\<lambda>h. (h_Via h, h_Dev h)) ` set v4 = (if family = [] \<or> family = ''dual'' \<or> family = ''ipv4'' then ?pairs Is4 else {})"
    using s4 v(1) Select_pairs by (fastforce simp: filterCandidates_eq split: if_splits)
  moreover have "(\<lambda>h. (h_Via h, h_Dev h)) ` set v6 = (if family = ''dual'' \<or> family = ''ipv6'' then ?pairs Is6 else {})"
    using s6 v(2) Select_pairs by (fastforce simp: filterCandidates_eq split: if_splits)
  ultimately show ?thesis unfolding v(3) set_append image_Un by (auto simp: in_family_def)
qed

section \<open>Readdressed gateways\<close>

lemma filterCandidates_readdress:
  assumes "\<forall>a. Is4 (f a) = Is4 a \<and> Is6 (f a) = Is6 a"
  shows "filterCandidatesByFamily (map (readdress f) cs) n = map (readdress f) (filterCandidatesByFamily cs n)"
proof -
  have "Addr_IsValid (f a) = Addr_IsValid a" for a using assms Is4_Is6 by (metis Addr_IsValid_def)
  then show ?thesis using assms by (induction cs) auto
qed

lemma matchingHops_readdress:
  assumes "\<forall>a. Is4 (f a) = Is4 a \<and> Is6 (f a) = Is6 a"
  shows "matchingHops (map (readdress_hop f) hops) p = map (readdress_hop f) (matchingHops hops p)"
proof -
  have "Addr_IsValid (f a) = Addr_IsValid a" for a using assms Is4_Is6 by (metis Addr_IsValid_def)
  then show ?thesis using assms by (simp add: matchingHops_def filter_map comp_def)
qed

lemma resolve_readdress:
  assumes "\<forall>a. Is4 (f a) = Is4 a \<and> Is6 (f a) = Is6 a"
  shows "resolveCandidates k ping grp scope family (map (readdress f) cs) reg w =
     map_prod (map_sum id (map (readdress_hop f))) id (resolveCandidates k ping grp scope family cs reg w)"
  by (simp add: resolveCandidates_def filterCandidates_readdress [OF assms] Select_readdress split: prod.splits sum.splits)

end
