(* ===== verification/App_Errors.thy ===== *)
theory App_Errors
  imports Gateways Daemon
begin

text \<open>
  How the application fails: with a validated configuration only the kernel or the list of interface
  addresses can stop the building of a plan, a source that fails never does, an unsupported platform is
  always reported, and an error on the command line or in the configuration is reported before
  anything is touched.
\<close>

section \<open>Errors of a plan\<close>

fun plan_error :: "app_error \<Rightarrow> bool" where
  "plan_error (ResolveTargetDev grp dev e) \<longleftrightarrow> True"
| "plan_error (ResolveDefaultDev grp dev e) \<longleftrightarrow> True"
| "plan_error (ResolveTargetGateways grp e) \<longleftrightarrow> True"
| "plan_error (ResolveDefaultGateways grp e) \<longleftrightarrow> True"
| "plan_error (ListOwnedRoutes grp e) \<longleftrightarrow> True"
| "plan_error (ListOwnedRules grp e) \<longleftrightarrow> True"
| "plan_error (BuildExclusions grp (InterfaceAddrs e)) \<longleftrightarrow> True"
| "plan_error _ \<longleftrightarrow> False"

lemma parse_excludes_ok: "\<forall>raw \<in> set raws. \<exists>p. ParsePrefix raw = Some p \<Longrightarrow> \<exists>ps. parse_excludes raws = Inr ps"
  by (induction raws) auto

lemma exclusion_errors:
  assumes "validateGroup g = []" "exclusionInputs env (g_Target g) w = Inl e"
  shows "\<exists>m. e = InterfaceAddrs m"
  using assms(2) parse_excludes_ok [OF validateGroup_fields(6) [OF assms(1)]]
  by (auto simp: exclusionInputs_def Let_def split: sum.splits if_splits)

lemma group_input_errors:
  assumes "validateGroup g = []" "group_input k env cfg g src ps fb reg w = (Inl e, reg', w')"
  shows "plan_error e"
  using assms(2) exclusion_errors [OF assms(1)]
  by (fastforce simp: group_input_def Let_def split: sum.splits prod.splits)

lemma validated_provider:
  assumes "validateGroup g = []"
  obtains provider where "providerFor env g cfg = Inr provider"
  using validateGroup_fields(4) [OF assms] by (auto simp: providerFor_def)

lemma build_inputs_errors:
  assumes "\<forall>g \<in> set gs. validateGroup g = []" "build_inputs k env cfg gs reg w = (Inl e, reg', w')"
  shows "plan_error e"
  using assms
proof (induction gs arbitrary: reg w)
  case (Cons g gs)
  obtain provider where p: "providerFor env g cfg = Inr provider" using Cons.prems(1) validated_provider by (metis list.set_intros(1))
  obtain res reg1 w1 where o: "obtain_prefixes env cfg g provider reg w = (res, reg1, w1)" by (metis prod_cases3)
  show ?case
  proof (cases res)
    case None
    then show ?thesis using Cons p o by simp
  next
    case (Some a)
    obtain ps fb where a: "a = (ps, fb)" by (cases a)
    obtain ri reg2 w2 where i: "group_input k env cfg g (Provider_Type provider) ps fb reg1 w1 = (ri, reg2, w2)" by (metis prod_cases3)
    show ?thesis
    proof (cases ri)
      case (Inl e')
      then show ?thesis using Cons.prems p o i Some a group_input_errors by auto
    next
      case (Inr ig)
      then have "build_inputs k env cfg gs reg2 w2 = (Inl e, reg', w')"
        using Cons.prems(2) p o i Some a by (auto split: sum.splits prod.splits)
      then show ?thesis using Cons.IH Cons.prems(1) by simp
    qed
  qed
qed simp

lemma BuildPlan_errors:
  assumes "Validate cfg = []" "BuildPlan ords k env cfg reg w = (Inl e, reg', w')"
  shows "plan_error e"
proof -
  have "\<forall>g \<in> set (Groups cfg). validateGroup g = []" using Validate_groups [OF assms(1)] by blast
  from build_inputs_errors [OF this] assms(2) show ?thesis
    by (auto simp: BuildPlan_def Let_def split: sum.splits prod.splits)
qed

section \<open>Platforms without netlink\<close>

lemma unsupported_listing:
  assumes "validateGroup g = []"
  shows "routes_CurrentOwned UnsupportedKernel table proto (tg_Family (g_Target g)) w = Inl ErrUnsupported"
  using validateGroup_fields(3) [OF assms]
  by (auto simp: routes_CurrentOwned_def list_families_def wants4_def wants6_def UnsupportedKernel_def)

lemma unsupported_group_input:
  assumes "validateGroup g = []"
  shows "\<exists>e reg' w'. group_input UnsupportedKernel env cfg g src ps fb reg w = (Inl e, reg', w')"
proof (cases "group_input UnsupportedKernel env cfg g src ps fb reg w" rule: prod_cases3)
  case (fields res reg' w')
  then show ?thesis
    using group_input_fields(5) [of UnsupportedKernel env cfg g src ps fb reg w] unsupported_listing [OF assms, of _ _ w']
    by (cases res) auto
qed

lemma unsupported_build:
  assumes "\<forall>g \<in> set gs. validateGroup g = []" "build_inputs UnsupportedKernel env cfg gs reg w = (Inr igs, reg', w')"
  shows "igs = []"
  using assms
proof (induction gs arbitrary: reg w)
  case (Cons g gs)
  then have g: "validateGroup g = []" by simp
  obtain provider where p: "providerFor env g cfg = Inr provider" by (rule validated_provider [OF g])
  obtain res reg1 w1 where o: "obtain_prefixes env cfg g provider reg w = (res, reg1, w1)" by (metis prod_cases3)
  show ?case
  proof (cases res)
    case None
    then show ?thesis using Cons p o by simp
  next
    case (Some a)
    obtain ps fb where a: "a = (ps, fb)" by (cases a)
    from unsupported_group_input [OF g, of env cfg "Provider_Type provider" ps fb reg1 w1]
    show ?thesis using Cons.prems(2) p o Some a by auto
  qed
qed simp

section \<open>Errors of the command line\<close>

text \<open>What \<open>Run\<close> reports before it looks at the kernel.\<close>

fun startup_error :: "app_error \<Rightarrow> bool" where
  "startup_error Usage \<longleftrightarrow> True"
| "startup_error (FlagError e) \<longleftrightarrow> True"
| "startup_error ConfigRequired \<longleftrightarrow> True"
| "startup_error (ConfigError e) \<longleftrightarrow> True"
| "startup_error _ \<longleftrightarrow> False"

lemma plan_error_startup: "plan_error e \<Longrightarrow> \<not> startup_error e"
  by (cases e) simp_all

lemma reconcileOnce_errors:
  assumes "Validate cfg = []" "reconcileOnce ords k env cfg dry reg w = (Some e, out, reg', w')"
  shows "\<not> startup_error e"
  using assms(2)
  by (auto simp: reconcileOnce_def apply_plan_def split: prod.splits sum.splits if_splits option.splits
      dest: BuildPlan_errors [OF assms(1), THEN plan_error_startup])

lemma cleanup_groups_errors: "cleanup_groups k gl gs w = Inl e \<Longrightarrow> \<not> startup_error e"
  by (induction gs arbitrary: e) (auto simp: Let_def bind_result_Inl split: sum.splits if_splits)

lemma cleanupOwned_errors:
  assumes "cleanupOwned k cfg dry reg w = (Some e, out, reg', w')"
  shows "\<not> startup_error e"
  using assms
  by (auto simp: cleanupOwned_def BuildCleanupPlan_def apply_plan_def bind_result_Inl
      split: prod.splits sum.splits if_splits option.splits dest: cleanup_groups_errors)

lemma run_command_startup:
  assumes "Validate cfg = []" "run_command nl env ords evs cmd opts cfg w = Exited (Some e) out w'" "startup_error e"
  shows "e = Usage \<and> out = [] \<and> w' = w \<and> cmd \<notin> {''check'', ''apply'', ''cleanup'', ''daemon''}"
  using assms(2,3)
  by (auto simp: run_command_def Let_def split: prod.splits sum.splits if_splits
      dest: BuildPlan_errors [OF assms(1), THEN plan_error_startup] reconcileOnce_errors [OF assms(1)] cleanupOwned_errors)

lemma Run_startup_error:
  assumes "Run frac nl env ords evs version args w = Exited (Some e) out w'" "startup_error e"
  shows "out = [] \<and> w' = w"
  using assms
  by (auto simp: Run_def split: list.splits if_splits sum.splits dest: run_command_startup [OF loadConfig_valid])

end
