(* ===== verification/Signals.thy ===== *)
theory Signals
  imports Daemon
begin

text \<open>
  \<open>internal/signals\<close> and its use in \<open>runDaemon\<close>: SIGINT and SIGTERM cancel the context, which stays
  cancelled; SIGHUP goes into a channel with room for one, and what does not fit is dropped. The system
  is the daemon together with the channels it waits for; signals arrive at any time.
\<close>

section \<open>The channels\<close>

datatype os_signal = SIGINT | SIGTERM | SIGHUP

record SignalSet =
  ctx_done :: bool
  reload_pending :: bool

definition Notify :: SignalSet where
  "Notify = \<lparr>ctx_done = False, reload_pending = False\<rparr>"

definition deliver :: "os_signal \<Rightarrow> SignalSet \<Rightarrow> SignalSet" where
  "deliver sig s = (case sig of SIGHUP \<Rightarrow> s\<lparr>reload_pending := True\<rparr> | _ \<Rightarrow> s\<lparr>ctx_done := True\<rparr>)"

text \<open>A case of the \<open>select\<close> statement: whether it is ready, and the channels after the receive.\<close>

fun receive :: "event \<Rightarrow> SignalSet \<Rightarrow> SignalSet option" where
  "receive Done s = (if ctx_done s then Some s else None)"
| "receive (Reload ords) s = (if reload_pending s then Some (s\<lparr>reload_pending := False\<rparr>) else None)"
| "receive ev s = Some s"

section \<open>The system\<close>

datatype label = Signal os_signal | Event event

inductive system_step ::
  "('w \<Rightarrow> 'w \<Rightarrow> bool) \<Rightarrow> 'w Kernel \<Rightarrow> 'w Env \<Rightarrow> Options \<Rightarrow> label \<Rightarrow> 'w daemon \<times> SignalSet \<Rightarrow> 'w daemon \<times> SignalSet \<Rightarrow> bool"
  for rely k env opts where
  signal: "system_step rely k env opts (Signal sig) (d, s) (d, deliver sig s)"
| event: "receive ev s = Some s' \<Longrightarrow> daemon_step rely k env opts ev d d' \<Longrightarrow>
    system_step rely k env opts (Event ev) (d, s) (d', s')"

inductive_cases system_signalE: "system_step rely k env opts (Signal sig) c c'"
inductive_cases system_eventE: "system_step rely k env opts (Event ev) c c'"

inductive system_run ::
  "('w \<Rightarrow> 'w \<Rightarrow> bool) \<Rightarrow> 'w Kernel \<Rightarrow> 'w Env \<Rightarrow> Options \<Rightarrow> Config \<Rightarrow> Registry \<Rightarrow> 'w \<Rightarrow> label list \<Rightarrow> 'w daemon \<times> SignalSet \<Rightarrow> bool"
  for rely k env opts cfg reg w where
  start: "system_run rely k env opts cfg reg w [] (daemon_start k env opts ords cfg reg w, Notify)"
| step: "system_run rely k env opts cfg reg w tr c \<Longrightarrow> system_step rely k env opts l c c'
    \<Longrightarrow> system_run rely k env opts cfg reg w (tr @ [l]) c'"

section \<open>What a run of the system keeps\<close>

fun is_reload :: "label \<Rightarrow> bool" where
  "is_reload (Event (Reload ords)) \<longleftrightarrow> True"
| "is_reload _ \<longleftrightarrow> False"

definition terminated :: "label list \<Rightarrow> bool" where
  "terminated tr \<longleftrightarrow> Signal SIGINT \<in> set tr \<or> Signal SIGTERM \<in> set tr"

text \<open>The last of hang-up signals and reloads was a signal.\<close>

definition hangup_open :: "label list \<Rightarrow> bool" where
  "hangup_open tr \<longleftrightarrow> (\<exists>xs ys. tr = xs @ Signal SIGHUP # ys \<and> \<not> list_ex is_reload ys)"

lemma hangup_open_snoc [simp]:
  "hangup_open (tr @ [l]) \<longleftrightarrow> l = Signal SIGHUP \<or> \<not> is_reload l \<and> hangup_open tr"
proof
  assume "hangup_open (tr @ [l])"
  then obtain xs ys where x: "tr @ [l] = xs @ Signal SIGHUP # ys" "\<not> list_ex is_reload ys" by (auto simp: hangup_open_def)
  then show "l = Signal SIGHUP \<or> \<not> is_reload l \<and> hangup_open tr"
    by (cases ys rule: rev_cases) (auto simp: hangup_open_def)
next
  assume "l = Signal SIGHUP \<or> \<not> is_reload l \<and> hangup_open tr"
  then show "hangup_open (tr @ [l])"
  proof
    assume "l = Signal SIGHUP"
    then show ?thesis unfolding hangup_open_def by (intro exI [of _ tr] exI [of _ "[]"]) simp
  next
    assume "\<not> is_reload l \<and> hangup_open tr"
    then obtain xs ys where "tr = xs @ Signal SIGHUP # ys" "\<not> list_ex is_reload ys" "\<not> is_reload l"
      by (auto simp: hangup_open_def)
    then show ?thesis unfolding hangup_open_def by (intro exI [of _ xs] exI [of _ "ys @ [l]"]) simp
  qed
qed

lemma terminated_snoc [simp]: "terminated (tr @ [l]) \<longleftrightarrow> terminated tr \<or> l = Signal SIGINT \<or> l = Signal SIGTERM"
  by (auto simp: terminated_def)

text \<open>The state of the channels is a function of the trace.\<close>

lemma system_run_channels:
  assumes "system_run rely k env opts cfg reg w tr c"
  shows "ctx_done (snd c) \<longleftrightarrow> terminated tr" "reload_pending (snd c) \<longleftrightarrow> hangup_open tr"
proof -
  have "(ctx_done (snd c) \<longleftrightarrow> terminated tr) \<and> (reload_pending (snd c) \<longleftrightarrow> hangup_open tr)"
    using assms
  proof (induction rule: system_run.induct)
    case (start ords)
    then show ?case by (simp add: Notify_def terminated_def hangup_open_def)
  next
    case (step tr c l c')
    show ?case
    proof (cases l)
      case (Signal sig)
      with step show ?thesis by (cases sig) (auto simp: deliver_def elim!: system_signalE)
    next
      case (Event ev)
      with step show ?thesis by (cases ev) (auto elim!: system_eventE split: if_splits)
    qed
  qed
  then show "ctx_done (snd c) \<longleftrightarrow> terminated tr" "reload_pending (snd c) \<longleftrightarrow> hangup_open tr" by blast+
qed

text \<open>Seen without the channels a run of the system is a run of the daemon.\<close>

lemma system_run_daemon:
  assumes "system_run rely k env opts cfg reg w tr c"
  shows "daemon_reach rely k env opts cfg reg w (fst c)"
  using assms
proof (induction rule: system_run.induct)
  case (start ords)
  show ?case by (simp add: daemon_reach.start)
next
  case (step tr c l c')
  from step.hyps(2) step.IH show ?case
    by cases (auto intro: daemon_reach.step)
qed

text \<open>A reload uses up a signal, and several signals before it count as one.\<close>

lemma system_run_reloads:
  assumes "system_run rely k env opts cfg reg w tr c"
  shows "length (filter is_reload tr) + of_bool (hangup_open tr) \<le> count_list tr (Signal SIGHUP)"
  using assms
proof (induction rule: system_run.induct)
  case (start ords)
  show ?case by (simp add: hangup_open_def)
next
  case (step tr c l c')
  show ?case
  proof (cases l)
    case (Signal sig)
    with step.IH show ?thesis by (cases "hangup_open tr") auto
  next
    case (Event ev)
    with step.hyps(2) system_run_channels(2) [OF step.hyps(1)] step.IH show ?thesis
      by (cases ev) (auto elim!: system_eventE split: if_splits)
  qed
qed

lemma run_not_Stopped: "run k env opts ords active reg w \<noteq> Stopped reg' w'"
  by (simp add: run_def split: prod.splits)

lemma handle_Stopped: "handle k env opts ev active reg w = Stopped reg' w' \<Longrightarrow> ev = Done"
  by (cases ev) (auto simp: handle_def run_not_Stopped split: sum.splits if_splits)

lemma system_run_stopped:
  assumes "system_run rely k env opts cfg reg w tr c" "fst c = Stopped reg' w'"
  shows "terminated tr"
  using assms
proof (induction arbitrary: reg' w' rule: system_run.induct)
  case (start ords)
  then show ?case using run_Running [of k env opts ords cfg reg w] by (auto simp: daemon_start_def split: if_splits)
next
  case (step tr c l c')
  from step.hyps(2) show ?case
  proof cases
    case (signal sig d s)
    then show ?thesis using step.IH step.prems by simp
  next
    case (event ev s s' d d')
    then obtain active r v v1 where "d = Running active r v" "d' = handle k env opts ev active r v1"
      by (auto elim: daemon_stepE)
    then have "ev = Done" using step.prems event(3) handle_Stopped by simp
    then show ?thesis using event system_run_channels(1) [OF step.hyps(1)] by (auto split: if_splits)
  qed
qed

end
