(* ===== verification/Exposition.thy ===== *)
theory Exposition
  imports Daemon
begin

text \<open>
  What a metrics client sees. \<open>registry_invariant\<close> is the contract of a property of the registry that
  each of the program's updates keeps; under it the property holds along every run of the daemon. The
  instance proved here says that the registry is well formed, and for a well formed registry the text
  of \<open>Registry.Handler\<close> is read back line by line.
\<close>

section \<open>The registry along a run\<close>

definition counter_names :: "string list" where
  "counter_names = [''source_fetch_failure_total'', ''source_fetch_success_total'', ''failed_reconcile_total'',
     ''successful_reconcile_total'', ''failed_cleanup_total'', ''successful_cleanup_total'']"

definition group_gauges :: "string list" where
  "group_gauges = [''managed_prefixes'', ''managed_routes'', ''managed_rules'']"

definition gateway_gauges :: "string list" where
  "gateway_gauges = [''gateway_health'', ''gateway_metric'']"

fun registry_of :: "'w daemon \<Rightarrow> Registry" where
  "registry_of (Running active reg w) = reg"
| "registry_of (Stopped reg w) = reg"
| "registry_of (Panicked reg w) = reg"

locale registry_invariant =
  fixes P :: "Registry \<Rightarrow> bool"
  assumes P_New: "P New_Registry"
    and P_Inc: "name \<in> set counter_names \<Longrightarrow> P r \<Longrightarrow> P (Inc name r)"
    and P_stamp: "P r \<Longrightarrow> P (Set_Gauge ''last_success_timestamp'' v r)"
    and P_group: "name \<in> set group_gauges \<Longrightarrow> P r \<Longrightarrow> P (SetGroupGauge name grp v r)"
    and P_gateway: "name \<in> set gateway_gauges \<Longrightarrow> P r \<Longrightarrow> P (Set_Gauge (gateway_gauge name scope gw) v r)"
begin

lemmas P_names = P_Inc [unfolded counter_names_def] P_group [unfolded group_gauges_def] P_gateway [unfolded gateway_gauges_def]

lemma select_items_P: "select_items family scope i cs link ping items reg w = (res, reg', w') \<Longrightarrow> P reg \<Longrightarrow> P reg'"
proof (induction cs arbitrary: i items reg w)
  case (Cons c cs)
  then show ?case by (auto simp: Let_def P_names split: sum.splits prod.splits dest!: Cons.IH)
qed simp

lemma assign_metrics_P: "assign_metrics scope hh i its reg = (out, reg') \<Longrightarrow> P reg \<Longrightarrow> P reg'"
proof (induction its arbitrary: i reg out)
  case (Cons it its)
  then show ?case by (auto simp: Let_def P_names split: prod.splits dest!: Cons.IH)
qed simp

lemma Select_P: "Select family scope cs link ping reg w = (res, reg', w') \<Longrightarrow> P reg \<Longrightarrow> P reg'"
  by (auto simp: Select_def split: if_splits prod.splits sum.splits dest: select_items_P assign_metrics_P)

lemma resolveCandidates_P: "resolveCandidates k ping grp scope family cs reg w = (res, reg', w') \<Longrightarrow> P reg \<Longrightarrow> P reg'"
  by (auto simp: resolveCandidates_def split: if_splits prod.splits sum.splits dest!: Select_P)

lemma group_input_P: "group_input k env cfg g src ps fb reg w = (res, reg', w') \<Longrightarrow> P reg \<Longrightarrow> P reg'"
  by (auto simp: group_input_def Let_def resolveTargetHops_def resolveDefaultHops_def
      split: sum.splits prod.splits option.splits dest!: resolveCandidates_P)

lemma obtain_prefixes_P: "obtain_prefixes env cfg g provider reg w = (res, reg', w') \<Longrightarrow> P reg \<Longrightarrow> P reg'"
  by (auto simp: obtain_prefixes_def Let_def P_names split: sum.splits prod.splits)

lemma build_inputs_P: "build_inputs k env cfg gs reg w = (res, reg', w') \<Longrightarrow> P reg \<Longrightarrow> P reg'"
proof (induction gs arbitrary: res reg w)
  case (Cons g gs)
  then show ?case
    by (auto split: sum.splits prod.splits option.splits dest!: obtain_prefixes_P group_input_P Cons.IH)
qed simp

lemma plan_gauges_P: "P reg \<Longrightarrow> P (fold plan_gauges gps reg)"
  by (induction gps arbitrary: reg) (simp_all add: plan_gauges_def P_names)

lemma BuildPlan_P: "BuildPlan ords k env cfg reg w = (res, reg', w') \<Longrightarrow> P reg \<Longrightarrow> P reg'"
  by (auto simp: BuildPlan_def Let_def split: sum.splits prod.splits dest!: build_inputs_P intro: plan_gauges_P)

lemma apply_plan_P:
  assumes "apply_plan failure k plan reg w success = (err, out, reg', w')" "P reg" "failure \<in> set counter_names"
    and "\<And>r w. P r \<Longrightarrow> P (success r w)"
  shows "P reg'"
  using assms by (auto simp: apply_plan_def P_Inc split: prod.splits option.splits)

lemma reconcileOnce_P:
  assumes "reconcileOnce ords k env cfg dry reg w = (err, out, reg', w')" "P reg"
  shows "P reg'"
proof (cases "BuildPlan ords k env cfg reg w")
  case (fields res reg1 w1)
  note P1 = BuildPlan_P [OF fields assms(2)]
  show ?thesis
  proof (cases res)
    case (Inr plan)
    show ?thesis
    proof (cases dry)
      case False
      then have "apply_plan ''failed_reconcile_total'' k plan reg1 w1
          (\<lambda>r w2. Set_Gauge ''last_success_timestamp'' (unix env w2) (Inc ''successful_reconcile_total'' r)) = (err, out, reg', w')"
        using assms(1) fields Inr by (simp add: reconcileOnce_def)
      from apply_plan_P [OF this P1] show ?thesis by (simp add: counter_names_def P_stamp P_names)
    qed (use assms(1) fields Inr P1 in \<open>simp add: reconcileOnce_def\<close>)
  qed (use assms(1) fields P1 in \<open>auto simp: reconcileOnce_def P_names\<close>)
qed

lemma cleanupOwned_P:
  assumes "cleanupOwned k cfg dry reg w = (err, out, reg', w')" "P reg"
  shows "P reg'"
proof (cases "BuildCleanupPlan cfg k w")
  case (Inr plan)
  show ?thesis
  proof (cases dry)
    case False
    then have "apply_plan ''failed_cleanup_total'' k plan reg w (\<lambda>r w2. Inc ''successful_cleanup_total'' r) = (err, out, reg', w')"
      using assms(1) Inr by (simp add: cleanupOwned_def)
    from apply_plan_P [OF this assms(2)] show ?thesis by (simp add: counter_names_def P_names)
  qed (use assms Inr in \<open>simp add: cleanupOwned_def\<close>)
qed (use assms in \<open>auto simp: cleanupOwned_def P_names\<close>)

lemma run_P: "P reg \<Longrightarrow> P (registry_of (run k env opts ords active reg w))"
  by (auto simp: run_def split: prod.splits dest: reconcileOnce_P)

lemma handle_P: "P reg \<Longrightarrow> P (registry_of (handle k env opts ev active reg w))"
  by (auto simp: handle_def run_P split: event.splits sum.splits prod.splits dest: cleanupOwned_P)

text \<open>It holds of the registry of a daemon at any time.\<close>

lemma daemon_P: "daemon_reach rely k env opts cfg New_Registry w s \<Longrightarrow> P (registry_of s)"
proof (induction rule: daemon_reach.induct)
  case (start ords)
  show ?case by (simp add: daemon_start_def P_New run_P)
next
  case (step s ev s')
  then show ?case by (auto elim!: daemon_stepE intro: handle_P)
qed

end

section \<open>Well-formed registries\<close>

text \<open>
  Each name once, the counters positive and among the program's, and no gauge with a line break or
  with the name of a counter: the labels of a gauge start with a brace.
\<close>

definition reg_good :: "Registry \<Rightarrow> bool" where
  "reg_good r \<longleftrightarrow> reg_inv r \<and> fst ` set (counters r) \<subseteq> set counter_names
     \<and> (\<forall>n \<in> fst ` set (gauges r). CHR 0x0A \<notin> set n \<and> (n = ''last_success_timestamp'' \<or> CHR ''{'' \<in> set n))"

lemma Inc_names: "fst ` set (counters (Inc name r)) = insert name (fst ` set (counters r))" "gauges (Inc name r) = gauges r"
  by (simp_all add: Inc_counter fst_go_map_set)

lemma Set_names: "fst ` set (gauges (Set_Gauge name v r)) = insert name (fst ` set (gauges r))" "counters (Set_Gauge name v r) = counters r"
  by (simp_all add: Set_Gauge_def fst_go_map_set)

lemma gauge_name_lines: "CHR 0x0A \<notin> set n \<Longrightarrow> CHR 0x0A \<notin> set (group_gauge_name n grp) \<and> CHR ''{'' \<in> set (group_gauge_name n grp)"
  "CHR 0x0A \<notin> set n \<Longrightarrow> CHR 0x0A \<notin> set (gateway_gauge n scope gw) \<and> CHR ''{'' \<in> set (gateway_gauge n scope gw)"
  using metrics_label.esc_no_newline health_label.esc_no_newline by (auto simp: group_gauge_name_def gateway_gauge_def)

interpretation good_registry: registry_invariant reg_good
proof
  show "reg_good New_Registry" by (simp add: reg_good_def reg_inv_New) (simp add: New_Registry_def)
next
  fix name r assume "name \<in> set counter_names" "reg_good r"
  then show "reg_good (Inc name r)" by (simp add: reg_good_def Inc_names reg_inv_Inc)
next
  fix r v assume "reg_good r"
  then show "reg_good (Set_Gauge ''last_success_timestamp'' v r)" by (simp add: reg_good_def Set_names reg_inv_Set)
next
  fix name r grp v assume "name \<in> set group_gauges" "reg_good r"
  moreover from this have "CHR 0x0A \<notin> set name" by (auto simp: group_gauges_def)
  ultimately show "reg_good (SetGroupGauge name grp v r)"
    using gauge_name_lines(1) [of name grp] by (simp add: reg_good_def SetGroupGauge_def Set_names reg_inv_Set)
next
  fix name r scope gw v assume "name \<in> set gateway_gauges" "reg_good r"
  moreover from this have "CHR 0x0A \<notin> set name" by (auto simp: gateway_gauges_def)
  ultimately show "reg_good (Set_Gauge (gateway_gauge name scope gw) v r)"
    using gauge_name_lines(2) [of name scope gw] by (simp add: reg_good_def Set_names reg_inv_Set)
qed

section \<open>Reading the text\<close>

text \<open>A client: lines, each a name behind the prefix and a value behind the last space.\<close>

definition read_sample :: "string \<Rightarrow> (string \<times> string) option" where
  "read_sample l = (if take 11 l = ''route_sync_'' then cut_last (CHR '' '') (drop 11 l) else None)"

definition scrape :: "string \<Rightarrow> (string \<times> string) option list" where
  "scrape txt = map read_sample (butlast (split_on (CHR 0x0A) txt))"

definition exposed :: "range_order \<Rightarrow> range_order \<Rightarrow> Registry \<Rightarrow> (string \<times> string) list" where
  "exposed oc og r = map (\<lambda>(k, v). (k, Itoa v)) (go_map_range oc (counters r))
     @ map (\<lambda>(k, v). (k, Itoa v @ ''.000000'')) (go_map_range og (gauges r))"

lemma split_on_lines: "\<forall>l \<in> set ls. c \<notin> set l \<Longrightarrow> split_on c (concat (map (\<lambda>l. l @ [c]) ls)) = ls @ [[]]"
  by (induction ls) (simp_all add: split_on_append)

lemma Itoa_chars: "CHR 0x0A \<notin> set (Itoa i)" "CHR '' '' \<notin> set (Itoa i)"
  by (simp_all add: in_Itoa digit_value_def)

lemma read_sample_line: "CHR '' '' \<notin> set v \<Longrightarrow> read_sample (''route_sync_'' @ k @ CHR '' '' # v) = Some (k, v)"
  by (simp add: read_sample_def cut_last_append)

lemma Handler_lines:
  "Handler oc og r = concat (map (\<lambda>(k, v). (''route_sync_'' @ k @ CHR '' '' # v) @ [CHR 0x0A]) (exposed oc og r))"
  by (simp add: Handler_def exposed_def comp_def case_prod_unfold)

lemma fst_exposed:
  "map fst (exposed oc og r) = oc (map fst (counters r)) @ og (map fst (gauges r))"
  by (simp add: exposed_def go_map_range_def comp_def case_prod_unfold)

lemma counter_names_plain:
  "\<forall>n \<in> set counter_names. CHR 0x0A \<notin> set n" "\<forall>n \<in> set counter_names. CHR ''{'' \<notin> set n"
  "''last_success_timestamp'' \<notin> set counter_names"
  by (simp_all add: counter_names_def)

lemma scrape_Handler:
  assumes "reg_good r" "is_range_order oc" "is_range_order og"
  shows "scrape (Handler oc og r) = map Some (exposed oc og r)" "distinct (map fst (exposed oc og r))"
proof -
  have names: "set (map fst (exposed oc og r)) = fst ` set (counters r) \<union> fst ` set (gauges r)"
    unfolding fst_exposed using assms(2,3) by (simp add: is_range_orderD)
  have nl: "CHR 0x0A \<notin> set k" if "k \<in> fst ` set (exposed oc og r)" for k
  proof -
    have "k \<in> fst ` set (counters r) \<or> k \<in> fst ` set (gauges r)" using that names by simp
    then show ?thesis using assms(1) counter_names_plain(1) unfolding reg_good_def by blast
  qed
  have vals: "CHR 0x0A \<notin> set v \<and> CHR '' '' \<notin> set v" if "(k, v) \<in> set (exposed oc og r)" for k v
    using that by (auto simp: exposed_def Itoa_chars)
  let ?line = "\<lambda>(k, v). ''route_sync_'' @ k @ CHR '' '' # v"
  have "Handler oc og r = concat (map (\<lambda>l. l @ [CHR 0x0A]) (map ?line (exposed oc og r)))"
    by (simp add: Handler_lines comp_def case_prod_unfold)
  moreover have "\<forall>l \<in> set (map ?line (exposed oc og r)). CHR 0x0A \<notin> set l"
  proof
    fix l assume "l \<in> set (map ?line (exposed oc og r))"
    then obtain k v where e: "(k, v) \<in> set (exposed oc og r)" "l = ''route_sync_'' @ k @ CHR '' '' # v" by auto
    then have "k \<in> fst ` set (exposed oc og r)" by force
    with nl vals e show "CHR 0x0A \<notin> set l" by simp
  qed
  ultimately have "scrape (Handler oc og r) = map read_sample (map ?line (exposed oc og r))"
    by (simp only: scrape_def split_on_lines butlast_snoc)
  also have "\<dots> = map Some (exposed oc og r)"
    unfolding map_map
  proof (rule map_cong [OF refl], clarify)
    fix k v assume "(k, v) \<in> set (exposed oc og r)"
    with vals have v: "CHR '' '' \<notin> set v" by blast
    show "(read_sample \<circ> ?line) (k, v) = Some (k, v)"
      unfolding comp_def prod.case by (rule read_sample_line [OF v])
  qed
  finally show "scrape (Handler oc og r) = map Some (exposed oc og r)" .
  have "fst ` set (counters r) \<inter> fst ` set (gauges r) = {}"
  proof (rule equals0I)
    fix n assume "n \<in> fst ` set (counters r) \<inter> fst ` set (gauges r)"
    then have n: "n \<in> set counter_names" "n = ''last_success_timestamp'' \<or> CHR ''{'' \<in> set n"
      using assms(1) by (auto simp: reg_good_def)
    with counter_names_plain(2,3) show False by metis
  qed
  then show "distinct (map fst (exposed oc og r))"
    unfolding fst_exposed using assms by (simp add: is_range_orderD reg_good_def reg_inv_def)
qed

end
