(* ===== verification/Samples_Run.thy ===== *)
theory Samples_Run
  imports Samples Unstable_Rules Exclusions App_Errors Signals Exposition
begin

text \<open>
  A configuration and a host on which the whole program runs: one text source, one group, one stale
  route in the kernel. The runs are evaluated step by step for the witnesses of the root theory.
\<close>

section \<open>Samples for the whole program\<close>

definition sample_store :: Store where
  "sample_store = state_New ''/var/lib/route-sync''"

lemma linux_now: "rfc3339 (now linux_env w)"
proof -
  have "now linux_env w = ''2024-05-01T12:00:00.5Z''" by (simp add: linux_env_def)
  moreover have "rfc3339 ''2024-05-01T12:00:00.5Z''" by code_simp
  ultimately show ?thesis by simp
qed

lemma linux_SaveGroup:
  "\<exists>b. SaveGroup linux_env s grp src ps w = (None, w\<lparr>ls_files := (path s grp, b) # ls_files w\<rparr>)"
proof -
  have "mkdir_all linux_env d w = (None, w)" "write_file linux_env p b w = (None, w\<lparr>ls_files := (p, b) # ls_files w\<rparr>)" for d p b
    by (simp_all add: linux_env_def linux_write_def)
  moreover obtain b where "MarshalIndent (zero_GroupState\<lparr>Group := grp, SourceType := src, FetchedAt := now linux_env w,
      Prefixes := map Prefix_String ps\<rparr>) = Some b"
    using linux_now by (simp add: MarshalIndent_def)
  ultimately show ?thesis by (intro exI [of _ b]) (simp add: SaveGroup_def)
qed
lemma linux_rules_Apply_routes:
  assumes "rules_Apply (NetlinkKernel linux_nl) plans w = (e, w')"
  shows "ls_routes w' = ls_routes w"
proof -
  have step: "ls_routes u' = ls_routes u" if "exec_op (AddRule (NetlinkKernel linux_nl)) (DeleteRule (NetlinkKernel linux_nl)) x u = (e, u')" for x u e u'
    using that by (cases x) (auto simp: NetlinkKernel_rules linux_nl_def linux_RuleAdd_def linux_RuleDel_def split: prod.splits if_splits)
  show ?thesis
    by (rule run_each_rel [where R = "\<lambda>u u'. ls_routes u' = ls_routes u", OF step _ _ assms [unfolded rules_Apply_ops]]) simp_all
qed

definition sample_global :: GlobalConfig where
  "sample_global = \<lparr>RefreshInterval = 3600 * Second, HealthCheckInterval = 5 * Second, HTTPTimeout = 30 * Second,
     StateDir = ''/var/lib/route-sync'', LogFormat = ''text'', MetricsListen = ''127.0.0.1:9108'', RouteProtocol = 99,
     RulePriorityBase = 1000, RulePriorityStep = 10, EnablePrefixAggregation = False, CleanupOnShutdown = True\<rparr>"

definition sample_cfg :: Config where
  "sample_cfg = \<lparr>c_Global = sample_global, c_Defaults = \<lparr>EnableRUBuiltinSource = Some False\<rparr>,
     c_Routing = \<lparr>RUDefault = sample_cfg_group\<lparr>g_Enabled := False\<rparr>\<rparr>, SpecialZones = [sample_cfg_group]\<rparr>"

lemma sample_cfg_simps [simp]:
  "c_Global sample_cfg = sample_global" "Groups sample_cfg = [sample_cfg_group]" "StateDir sample_global = ''/var/lib/route-sync''"
  "RouteProtocol sample_global = 99" "RulePriorityBase sample_global = 1000" "RulePriorityStep sample_global = 10"
  "EnablePrefixAggregation sample_global = False" "g_Name sample_cfg_group = ''g''" "g_Target sample_cfg_group = sample_target"
  "sc_Type (g_Source sample_cfg_group) = ''txt''"
  by (simp_all add: sample_cfg_def sample_global_def Groups_def ru_active_def sample_cfg_group_def)

lemma sample_cfg_valid: "Validate sample_cfg = []" "tickers_ok sample_cfg"
  using sample_valid by (simp_all add: Validate_def ru_active_def sample_cfg_def sample_global_def Groups_def tickers_ok_def)

abbreviation sample_provider :: "LinuxState Provider" where
  "sample_provider \<equiv> txt_provider linux_env (txt_New ''/etc/nets.txt'' 30000000000)"

lemma sample_providerFor: "providerFor linux_env sample_cfg_group sample_cfg = Inr sample_provider"
  by (simp add: providerFor_def) (simp add: sample_cfg_group_def sample_global_def)

lemma sample_url: "URL_Parse ''/etc/nets.txt'' = Some \<lparr>u_Scheme = [], u_Path = ''/etc/nets.txt''\<rparr>"
  using URL_Parse_abs_path [of "''etc/nets.txt''"] by (simp add: is_ctl_def)

lemma sample_txt: "txt_Parse (''10.0.0.0/25'' @ [CHR 0x0A]) = [net_a]"
  using txt_Parse_list [of "[(net_a, 0, [])]"] by (simp add: list_line_ok_def list_line_def net_strings)

lemma sample_fetch: "Fetch sample_provider sample_world = (Inr [net_a], sample_world)"
proof -
  have "open_file linux_env ''/etc/nets.txt'' sample_world = Inr \<lparr>st_Data = ''10.0.0.0/25'' @ [CHR 0x0A], st_Err = None\<rparr>"
    by (simp add: linux_env_def linux_read_def sample_world_def)
  then show ?thesis using sample_txt by (simp add: txt_provider_def txt_Fetch_def txt_open_def txt_New_def sample_url)
qed

lemma sample_Normalize: "Normalize [net_a] False = [net_a]"
  using nets_ok(1) by (simp add: Normalize_def sortPrefixes_def pfx_ok_def)

definition sample_saved :: LinuxState where
  "sample_saved = snd (SaveGroup linux_env sample_store ''g'' ''txt'' [net_a] sample_world)"

lemma sample_saved:
  "SaveGroup linux_env sample_store ''g'' ''txt'' [net_a] sample_world = (None, sample_saved)"
  "ls_routes sample_saved = ls_routes sample_world" "ls_rules sample_saved = ls_rules sample_world"
  "ls_links sample_saved = ls_links sample_world"
  using linux_SaveGroup [of sample_store "''g''" "''txt''" "[net_a]" sample_world] by (auto simp: sample_saved_def)

abbreviation sample_reg :: Registry where
  "sample_reg \<equiv> Inc ''source_fetch_success_total'' New_Registry"

lemma sample_obtain:
  "obtain_prefixes linux_env sample_cfg sample_cfg_group sample_provider New_Registry sample_world =
     (Some ([net_a], False), sample_reg, sample_saved)"
  using sample_saved(1) by (simp add: obtain_prefixes_def sample_fetch sample_Normalize sample_store_def)

lemma sample_target_simps [simp]:
  "tg_Dev sample_target = ''eth0''" "tg_Table sample_target = 100" "tg_Family sample_target = ''ipv4''"
  "tg_Default sample_target = None" "gatewaysFromTarget sample_target = []"
  "exclusionInputs env sample_target w = Inr ([], [])"
  by (simp_all add: sample_target_def gatewaysFromTarget_def gatewaysFromNextHop_def candidatesFromHop_def hop_candidate_def
      exclusionInputs_def Normalize_def sortPrefixes_def FilterFamily_def)

lemma sample_build:
  "build_inputs (NetlinkKernel linux_nl) linux_env sample_cfg (Groups sample_cfg) New_Registry sample_world =
     (Inr [sample_input [stale_route] []], sample_reg, sample_saved)"
proof -
  note same = linux_same(2,3) [OF sample_saved(2,3)]
  have "rules_CurrentOwned (NetlinkKernel linux_nl) 100 1000 1000 10 ''ipv4'' sample_world = Inr []"
    by (simp add: rules_CurrentOwned_def list_families_def wants4_def wants6_def NetlinkKernel_def nl_ListRules_def
        linux_nl_def sample_world_def Let_def)
  then have owned: "routes_CurrentOwned (NetlinkKernel linux_nl) 100 99 ''ipv4'' sample_saved = Inr [stale_route]"
    "rules_CurrentOwned (NetlinkKernel linux_nl) 100 1000 1000 10 ''ipv4'' sample_saved = Inr []"
    using same_CurrentOwned(1) [OF same(1)] same_CurrentOwned(2) [OF same(2)] sample_owned by simp_all
  have dev: "dev_index (NetlinkKernel linux_nl) ''eth0'' sample_saved = Inr 2"
    by (simp add: dev_index_def NetlinkKernel_def nl_LinkIndexByName_def linux_nl_def sample_saved(4)) (simp add: sample_world_def)
  have "rc_Priority (g_Rule sample_cfg_group) = 1000" by (simp add: sample_cfg_group_def)
  then have "group_input (NetlinkKernel linux_nl) linux_env sample_cfg sample_cfg_group ''txt'' [net_a] False sample_reg sample_saved =
      (Inr (sample_input [stale_route] []), sample_reg, sample_saved)"
    using owned dev by (simp add: group_input_def dev_index_def [of _ "[]"] default_dev_def resolveTargetHops_def
        resolveDefaultHops_def resolveCandidates_def sample_input_def)
  moreover have "Provider_Type sample_provider = ''txt''" by (simp add: txt_provider_def)
  ultimately show ?thesis by (simp add: sample_providerFor sample_obtain)
qed

text \<open>The whole run on the sample host succeeds.\<close>

definition sample_end :: LinuxState where
  "sample_end = snd (snd (snd (reconcileOnce (\<lambda>i j ks. ks) (NetlinkKernel linux_nl) linux_env sample_cfg False
     New_Registry sample_world)))"

lemma sample_run:
  "\<exists>out reg. reconcileOnce (\<lambda>i j ks. ks) (NetlinkKernel linux_nl) linux_env sample_cfg False New_Registry sample_world =
     (None, out, reg, sample_end)"
proof -
  let ?plans = "plan_Groups (Build (\<lambda>i j ks. ks) 99 [sample_input [stale_route] []])"
  have w: "ls_rules sample_saved = []" "ls_routes sample_saved = [nl_route_msg stale_route]"
    using sample_saved(2,3) by (simp_all add: sample_world_def)
  obtain w1 where w1: "rules_Apply (NetlinkKernel linux_nl) ?plans sample_saved = (None, w1)"
    using sample_rules_apply_at [OF w(1)] by (metis prod.collapse)
  have "ls_routes w1 = ls_routes sample_saved" by (rule linux_rules_Apply_routes [OF w1])
  then obtain w2 where w2: "routes_Apply (NetlinkKernel linux_nl) ?plans w1 = (None, w2)"
    using sample_apply_at w(2) by (metis prod.collapse)
  show ?thesis
    unfolding sample_end_def reconcileOnce_def BuildPlan_def sample_build using w1 w2 by (simp add: apply_plan_def Let_def)
qed

text \<open>The same host after the list has disappeared: the next fetch fails and the saved state is used.\<close>

definition sample_lost :: LinuxState where
  "sample_lost = sample_saved\<lparr>ls_files := filter (\<lambda>e. fst e \<noteq> ''/etc/nets.txt'') (ls_files sample_saved)\<rparr>"

lemma sample_path: "path sample_store ''g'' = ''/var/lib/route-sync/g.json''"
  by code_simp

lemma sample_lost:
  "Fetch sample_provider sample_lost = (Inl (SourceOpen ''no such file or directory''), sample_lost)"
  "read_file linux_env (path sample_store ''g'') sample_lost = read_file linux_env (path sample_store ''g'') sample_saved"
proof -
  obtain b where "sample_saved = sample_world\<lparr>ls_files := (''/var/lib/route-sync/g.json'', b) # ls_files sample_world\<rparr>"
    using linux_SaveGroup [of sample_store "''g''" "''txt''" "[net_a]" sample_world] sample_saved(1)
    by (auto simp: sample_path)
  from arg_cong [OF this, of ls_files]
  have saved: "ls_files sample_saved = (''/var/lib/route-sync/g.json'', b) # ls_files sample_world" by simp
  then have lost: "ls_files sample_lost = [(''/var/lib/route-sync/g.json'', b)]"
    by (simp add: sample_lost_def sample_world_def)
  show "Fetch sample_provider sample_lost = (Inl (SourceOpen ''no such file or directory''), sample_lost)"
    by (simp add: txt_provider_def txt_Fetch_def txt_open_def txt_New_def sample_url linux_env_def linux_read_def lost)
  show "read_file linux_env (path sample_store ''g'') sample_lost = read_file linux_env (path sample_store ''g'') sample_saved"
    by (simp add: linux_env_def linux_read_def lost saved sample_path)
qed

lemma sample_cleanup:
  "\<exists>out reg w'. cleanupOwned (NetlinkKernel linux_nl) sample_cfg False New_Registry sample_world = (None, out, reg, w')"
proof -
  have "rules_CurrentOwned (NetlinkKernel linux_nl) 100 1000 1000 10 ''ipv4'' sample_world = Inr []"
    by (simp add: rules_CurrentOwned_def list_families_def wants4_def wants6_def NetlinkKernel_def nl_ListRules_def
        linux_nl_def sample_world_def Let_def)
  moreover have "rc_Enabled (g_Rule sample_cfg_group)" "rc_Priority (g_Rule sample_cfg_group) = 1000"
    by (simp_all add: sample_cfg_group_def)
  ultimately have "BuildCleanupPlan sample_cfg (NetlinkKernel linux_nl) sample_world =
      Inr \<lparr>plan_Groups = [cleanup_group sample_cfg_group [stale_route] []]\<rparr>"
    by (simp add: BuildCleanupPlan_def sample_owned)
  moreover have "DeleteRoute (NetlinkKernel linux_nl) stale_route sample_world = (None, sample_world\<lparr>ls_routes := []\<rparr>)"
    by (simp add: NetlinkKernel_routes linux_nl_def linux_RouteDel_def sample_world_def ignoreNotFound_def)
  ultimately show ?thesis
    by (simp add: cleanupOwned_def apply_plan_def rules_Apply_def routes_Apply_def and_then_def cleanup_group_def
        conflictingRouteRemovals_def routeIdentitySet_def)
qed

text \<open>A daemon on the sample host: the YAML decoder finds the sample configuration in the file named on the command line.\<close>

definition sample_conf_env :: "LinuxState Env" where
  "sample_conf_env = linux_env\<lparr>yaml := (\<lambda>b. Inr sample_cfg)\<rparr>"

definition sample_opts :: Options where
  "sample_opts = zero_Options\<lparr>ConfigPath := ''/etc/nets.txt''\<rparr>"

lemma sample_defaults: "ApplyDefaults sample_cfg = sample_cfg"
  by (simp add: ApplyDefaults_def Let_def default_if_def sample_cfg_def sample_global_def sample_cfg_group_def)

lemma sample_read: "\<exists>b. read_file sample_conf_env ''/etc/nets.txt'' sample_world = Inr b"
  by (simp add: sample_conf_env_def linux_env_def linux_read_def sample_world_def)

lemma sample_loads: "loadConfig sample_conf_env sample_opts sample_world = Inr sample_cfg"
  using sample_read sample_cfg_valid(1)
  by (auto simp: loadConfig_def Load_def sample_opts_def zero_Options_def validated_def sample_defaults sample_conf_env_def Let_def)

lemma sample_reload:
  assumes "loadConfig sample_conf_env sample_opts w = Inr c"
  shows "c = sample_cfg"
  using assms by (auto simp: loadConfig_def Load_def sample_opts_def zero_Options_def validated_def sample_defaults
      sample_conf_env_def Let_def split: sum.splits if_splits)

lemma sample_daemon:
  "\<exists>active reg w. runDaemon k sample_conf_env sample_opts ords [HealthTick ords', Reload ords''] sample_cfg reg0 w0
     = Running active reg w"
proof -
  obtain reg1 w1 where 1: "run k sample_conf_env sample_opts ords sample_cfg reg0 w0 = Running sample_cfg reg1 w1"
    using run_Running by metis
  obtain reg2 w2 where 2: "run k sample_conf_env sample_opts ords' sample_cfg reg1 w1 = Running sample_cfg reg2 w2"
    using run_Running by metis
  obtain reg3 w3 where 3: "run k sample_conf_env sample_opts ords'' sample_cfg reg2 w2 = Running sample_cfg reg3 w3"
    using run_Running by metis
  have "daemon_start k sample_conf_env sample_opts ords sample_cfg reg0 w0 = Running sample_cfg reg1 w1"
    using 1 sample_cfg_valid(2) by (simp add: daemon_start_def)
  then show ?thesis
    using 2 3 sample_cfg_valid(2) by (auto simp: runDaemon_def handle_def dest: sample_reload split: sum.splits)
qed

section \<open>Gateways\<close>

text \<open>A target with two gateways on different links, of which one answers.\<close>

definition two_gateways :: TargetConfig where
  "two_gateways = sample_target\<lparr>tg_Gateways :=
     [\<lparr>gw_Name = ''a'', gw_Dev = ''eth0'', gw_Via = [], gw_Via4 = ''10.0.0.1'', gw_Via6 = [], gw_OnLink = False, gw_HealthCheck = zero_HealthCheck\<rparr>,
      \<lparr>gw_Name = ''b'', gw_Dev = ''eth1'', gw_Via = [], gw_Via4 = ''10.0.0.2'', gw_Via6 = [], gw_OnLink = False, gw_HealthCheck = zero_HealthCheck\<rparr>]\<rparr>"

definition eth1_only :: "unit Pinger" where
  "eth1_only dev target timeout w = (if dev = ''eth1'' then None else Some ''unreachable'', w)"

definition two_links :: "unit Kernel" where
  "two_links = UnsupportedKernel\<lparr>LinkIndexByName := (\<lambda>dev w. Inr (if dev = ''eth0'' then 2 else 3))\<rparr>"

definition two_hops :: "ResolvedHop list" where
  "two_hops = (case resolveTargetHops two_links eth1_only ''g'' ''target'' ''ipv4'' two_gateways New_Registry () of
     (Inr hops, _) \<Rightarrow> hops | _ \<Rightarrow> [])"

lemma two_hops: "\<exists>reg. resolveTargetHops two_links eth1_only ''g'' ''target'' ''ipv4'' two_gateways New_Registry () = (Inr two_hops, reg, ())"
proof -
  have "case fst (resolveTargetHops two_links eth1_only ''g'' ''target'' ''ipv4'' two_gateways New_Registry ()) of Inr _ \<Rightarrow> True | _ \<Rightarrow> False"
    by code_simp
  then show ?thesis by (auto simp: two_hops_def split: sum.splits prod.splits)
qed

lemma two_hops_matching: "map (\<lambda>h. (h_Name h, h_Dev h, h_Healthy h, h_Metric h)) (matchingHops two_hops net_a) =
  [(''b-ipv4'', ''eth1'', True, 100), (''a-ipv4'', ''eth0'', False, 1110)]"
  by code_simp

abbreviation two_gateways_group :: RouteGroup where
  "two_gateways_group \<equiv> sample_cfg_group\<lparr>g_Target := two_gateways\<rparr>"

lemma two_gateways_valid: "validateGroup two_gateways_group = []"
  by code_simp

lemma two_select:
  "\<exists>out reg. Select ''ipv4'' ''g.target'' (gatewaysFromTarget two_gateways) (LinkIndexByName two_links) eth1_only New_Registry ()
     = (Inr out, reg, ()) \<and> length out = 2"
proof -
  have "case fst (Select ''ipv4'' ''g.target'' (gatewaysFromTarget two_gateways) (LinkIndexByName two_links) eth1_only New_Registry ()) of
      Inr out \<Rightarrow> length out = 2 | _ \<Rightarrow> False" by code_simp
  then show ?thesis
    by (cases "Select ''ipv4'' ''g.target'' (gatewaysFromTarget two_gateways) (LinkIndexByName two_links) eth1_only New_Registry ()")
      (auto split: sum.splits)
qed

text \<open>A group whose target has an IPv4 gateway of its own.\<close>

definition via_input :: InputGroup where
  "via_input = (sample_input [] [])\<lparr>ig_Config := sample_cfg_group\<lparr>g_Target := sample_target\<lparr>tg_Via4 := ''10.0.0.1''\<rparr>\<rparr>\<rparr>"

definition via_route :: Route where
  "via_route = wanted_route\<lparr>rt_Via := Addr4 167772161\<rparr>"

lemma via_input:
  "validateGroup (ig_Config via_input) = []" "desiredRoutes 99 via_input [net_a] = [via_route]"
  "tg_Gateways (g_Target (ig_Config via_input)) = []" "tg_Default (g_Target (ig_Config via_input)) = None"
  by code_simp+

text \<open>Runs that end in an error or in an empty plan.\<close>

lemma sample_unsupported:
  "\<exists>e reg w'. BuildPlan (\<lambda>i j ks. ks) UnsupportedKernel linux_env sample_cfg New_Registry sample_world = (Inl e, reg, w')"
proof -
  have "case fst (BuildPlan (\<lambda>i j ks. ks) UnsupportedKernel linux_env sample_cfg New_Registry sample_world) of Inl e \<Rightarrow> True | Inr p \<Rightarrow> False"
    by code_simp
  then show ?thesis
    by (cases "BuildPlan (\<lambda>i j ks. ks) UnsupportedKernel linux_env sample_cfg New_Registry sample_world") (auto split: sum.splits)
qed

lemma sample_no_groups:
  "\<exists>plan reg w'. BuildPlan (\<lambda>i j ks. ks) UnsupportedKernel linux_env sample_cfg New_Registry (sample_world\<lparr>ls_files := []\<rparr>) = (Inr plan, reg, w')"
proof -
  have "case fst (BuildPlan (\<lambda>i j ks. ks) UnsupportedKernel linux_env sample_cfg New_Registry (sample_world\<lparr>ls_files := []\<rparr>)) of Inl e \<Rightarrow> False | Inr p \<Rightarrow> True"
    by code_simp
  then show ?thesis
    by (cases "BuildPlan (\<lambda>i j ks. ks) UnsupportedKernel linux_env sample_cfg New_Registry (sample_world\<lparr>ls_files := []\<rparr>)") (auto split: sum.splits)
qed

lemma sample_usage: "Run (\<lambda>_ _ _. 0) linux_nl linux_env (\<lambda>i j ks. ks) [] ''dev'' [''apply''] sample_world = Exited (Some ConfigRequired) [] sample_world"
  by (simp add: Run_def parseFlags_def zero_Options_def)
text \<open>A special zone in front of the default zone.\<close>

definition zones_cfg :: Config where
  "zones_cfg = sample_cfg\<lparr>c_Defaults := \<lparr>EnableRUBuiltinSource = Some True\<rparr>,
     c_Routing := \<lparr>RUDefault = sample_cfg_group\<lparr>g_Name := ''ru'', g_Rule := (g_Rule sample_cfg_group)\<lparr>rc_Priority := 2000\<rparr>\<rparr>\<rparr>\<rparr>"

lemma zones_cfg:
  "Validate zones_cfg = []" "ru_active zones_cfg" "rc_Enabled (g_Rule (RUDefault (c_Routing zones_cfg)))"
  "SpecialZones zones_cfg = [sample_cfg_group]" "g_Enabled sample_cfg_group" "rc_Enabled (g_Rule sample_cfg_group)"
  "rc_Priority (g_Rule (RUDefault (c_Routing zones_cfg))) = 2000"
  by code_simp+

text \<open>An interface address with host bits, as the standard library lists it, and a source that offers it.\<close>

definition own_net :: IPNet where
  "own_net = \<lparr>ipn_IP = [0, 0, 0, 0, 0, 0, 0, 0, 0, 0, 255, 255, 8, 8, 4, 4], ipn_Mask = CIDRMask 24 32\<rparr>"

lemma own_parts:
  "Unmap (Addr6 281470816486404 []) = Addr4 134743044"
  "AddrFromSlice [0, 0, 0, 0, 0, 0, 0, 0, 0, 0, 255, 255, 8, 8, 4, 4] = Some (Addr6 281470816486404 [])"
  "network (Addr4 134743044) 24 = Addr4 134743040" "public_addr (Addr4 134743040)"
  by code_simp+

lemma own_iface: "iface_of own_net (Addr4 134743044) 24"
  by (simp add: iface_of_def own_net_def own_parts del: Unmap.simps)

abbreviation own_env :: "LinuxState Env" where
  "own_env \<equiv> linux_env\<lparr>iface_addrs := (\<lambda>w. Inr [NetIPNet own_net])\<rparr>"

definition own_input :: InputGroup where
  "own_input = (sample_input [] [])\<lparr>ig_Config := sample_cfg_group\<lparr>g_Target := sample_target\<lparr>tg_ExcludeLocalIPs := True\<rparr>\<rparr>,
     ig_Prefixes := [MkPrefix (Addr4 134743044) 33], ig_CoveredLocalAddrs := [Addr4 134743040]\<rparr>"

lemma own_input:
  "validateGroup (ig_Config own_input) = []" "tg_ExcludeLocalIPs (g_Target (ig_Config own_input))"
  "ig_Prefixes own_input = [MkPrefix (Addr4 134743044) 33]" "tg_Family (g_Target (ig_Config own_input)) = ''ipv4''"
  by code_simp+

lemma own_exclusions:
  "exclusionInputs own_env (g_Target (ig_Config own_input)) w = Inr ([], ig_CoveredLocalAddrs own_input)"
proof -
  have "prefixAddrs (local_prefixes (map NetIPNet [own_net])) = filter public_addr (map (\<lambda>(a, b). network a b) [(Addr4 134743044, 24)])"
    by (rule local_prefixes_ifaces) (simp add: own_iface)
  then have "map Prefix_Addr (local_prefixes [NetIPNet own_net]) = [Addr4 134743040]"
    by (simp add: own_parts prefixAddrs_def)
  then obtain q where q: "local_prefixes [NetIPNet own_net] = [q]" "Prefix_Addr q = Addr4 134743040" by auto
  have "tg_ExcludePrefixes (g_Target (ig_Config own_input)) = []" "ig_CoveredLocalAddrs own_input = [Addr4 134743040]"
    by (simp_all add: own_input_def sample_target_def)
  then show ?thesis
    using q own_input(2,4) by (simp add: exclusionInputs_def localNonPrivatePrefixes_def FilterFamily_def prefixAddrs_def
        Normalize_def sortPrefixes_def Let_def del: local_prefixes.simps)
qed

text \<open>A daemon that has got two hang-up signals and a request to stop while its first run was going on.\<close>

lemma sample_system:
  "\<exists>r v. system_run (=) (NetlinkKernel linux_nl) linux_env zero_Options sample_cfg New_Registry sample_world
     [Signal SIGHUP, Signal SIGHUP, Signal SIGTERM] (Running sample_cfg r v, \<lparr>ctx_done = True, reload_pending = True\<rparr>)"
proof -
  let ?run = "system_run (=) (NetlinkKernel linux_nl) linux_env zero_Options sample_cfg New_Registry sample_world"
  obtain r v where r: "daemon_start (NetlinkKernel linux_nl) linux_env zero_Options (\<lambda>i j ks. ks) sample_cfg New_Registry sample_world
      = Running sample_cfg r v"
    using run_Running sample_cfg_valid(2) by (metis daemon_start_def)
  have 0: "?run [] (Running sample_cfg r v, Notify)" unfolding r [symmetric] by (rule system_run.start)
  have snoc: "?run (tr @ [Signal sig]) (d, deliver sig s)" if "?run tr (d, s)" for tr sig d s
    using system_run.step [OF that system_step.signal] .
  from snoc [OF snoc [OF snoc [OF 0, of SIGHUP], of SIGHUP], of SIGTERM] show ?thesis
    by (auto simp: deliver_def Notify_def)
qed

text \<open>The two gateways with their addresses exchanged.\<close>

definition swap_addrs :: "Addr \<Rightarrow> Addr" where
  "swap_addrs a = (if a = Addr4 167772161 then Addr4 167772162 else if a = Addr4 167772162 then Addr4 167772161 else a)"

definition swapped_gateways :: TargetConfig where
  "swapped_gateways = two_gateways\<lparr>tg_Gateways := map (\<lambda>gw. gw\<lparr>gw_Via4 :=
     (if gw_Via4 gw = ''10.0.0.1'' then ''10.0.0.2'' else ''10.0.0.1'')\<rparr>) (tg_Gateways two_gateways)\<rparr>"

lemma swap_addrs: "Is4 (swap_addrs a) = Is4 a \<and> Is6 (swap_addrs a) = Is6 a"
  by (simp add: swap_addrs_def)

lemma swapped_gateways: "gatewaysFromTarget swapped_gateways = map (readdress swap_addrs) (gatewaysFromTarget two_gateways)"
  by code_simp

section \<open>A rule with host bits\<close>

text \<open>The sample configuration with a rule from 10.0.0.1/24, and its run on the sample host.\<close>

definition flap_group :: RouteGroup where
  "flap_group = sample_cfg_group\<lparr>g_Rule := (g_Rule sample_cfg_group)\<lparr>rc_From := ''10.0.0.1/24''\<rparr>\<rparr>"

definition flap_cfg :: Config where
  "flap_cfg = sample_cfg\<lparr>SpecialZones := [flap_group]\<rparr>"

definition flap_rule :: Rule where
  "flap_rule = wanted_rule\<lparr>ru_From := MkPrefix (Addr4 167772161) 25\<rparr>"

lemma flap_cfg: "Validate flap_cfg = []" "Groups flap_cfg = [flap_group]" "c_Global flap_cfg = sample_global"
  by code_simp+

lemma flap_run:
  "\<exists>out reg w'. reconcileOnce (\<lambda>i j ks. ks) (NetlinkKernel linux_nl) linux_env flap_cfg False New_Registry sample_world =
     (None, out, reg, w')"
proof -
  have "case reconcileOnce (\<lambda>i j ks. ks) (NetlinkKernel linux_nl) linux_env flap_cfg False New_Registry sample_world of
     (None, _) \<Rightarrow> True | _ \<Rightarrow> False" by code_simp
  then show ?thesis by (auto split: prod.splits option.splits)
qed

lemma flap_build:
  "\<exists>ig reg w'. build_inputs (NetlinkKernel linux_nl) linux_env flap_cfg (Groups flap_cfg) New_Registry sample_world = (Inr [ig], reg, w')
     \<and> ig_Config ig = flap_group"
proof -
  have "case fst (build_inputs (NetlinkKernel linux_nl) linux_env flap_cfg (Groups flap_cfg) New_Registry sample_world) of
     Inr [ig] \<Rightarrow> True | _ \<Rightarrow> False" by code_simp
  then obtain ig reg w' where b: "build_inputs (NetlinkKernel linux_nl) linux_env flap_cfg (Groups flap_cfg) New_Registry sample_world
      = (Inr [ig], reg, w')"
    by (cases "build_inputs (NetlinkKernel linux_nl) linux_env flap_cfg (Groups flap_cfg) New_Registry sample_world")
      (auto split: sum.splits list.splits)
  from build_inputs_groups(1) [OF b] have "ig_Config ig = flap_group" by (simp add: flap_cfg)
  with b show ?thesis by blast
qed

lemma flap_desired: "ig_Config ig = flap_group \<Longrightarrow> desiredRules ig = [flap_rule]"
proof -
  have "ParsePrefix ''10.0.0.1/24'' = Some (MkPrefix (Addr4 167772161) 25)" by code_simp
  then show "ig_Config ig = flap_group \<Longrightarrow> desiredRules ig = [flap_rule]"
    by (simp add: desiredRules_def flap_group_def flap_rule_def wanted_rule_def zero_Rule_def sample_cfg_group_def
        parse_prefix_or_zero_def)
qed

lemma flap_canon: "canon_rule flap_rule = wanted_rule\<lparr>ru_From := MkPrefix (Addr4 167772160) 25\<rparr>" "linux_rule_family (nl_rule_msg linux_nl (canon_rule flap_rule)) = FAMILY_V4"
  by code_simp+

lemma flap_rule_facts:
  "rule_plain (canon_rule flap_rule)" "rule_fields flap_rule \<noteq> rule_fields (canon_rule flap_rule)"
  "ig_Config ig = flap_group \<Longrightarrow>
     rule_fields (canon_rule flap_rule) \<in> owned_rules 1000 10 (rule_entry_family linux_nl linux_rule_family) [ig]"
proof -
  show plain: "rule_plain (canon_rule flap_rule)"
    by (simp add: flap_canon(1) rule_plain_def wanted_rule_def zero_Rule_def pfx_ok_iff pfx_wf_def Prefix_IsValid_def free_bits_def)
  show "rule_fields flap_rule \<noteq> rule_fields (canon_rule flap_rule)"
    unfolding flap_canon(1) by (simp add: rule_fields_def flap_rule_def)
  have "rule_entry_family linux_nl linux_rule_family 4 (rule_fields (canon_rule flap_rule))"
    using plain flap_canon(2) by (auto simp: rule_entry_family_def family_of_def)
  then show "rule_fields (canon_rule flap_rule) \<in> owned_rules 1000 10 (rule_entry_family linux_nl linux_rule_family) [ig]"
    if "ig_Config ig = flap_group"
    using that by (simp add: owned_rules_def group_rule_owned_def flap_canon(1) wanted_rule_def zero_Rule_def group_table_def
      group_family_def flap_group_def sample_cfg_group_def sample_target_def wants4_def int64_def)
qed

end
