(* ===== verification/Spec2Isabelle.thy ===== *)
theory Spec2Isabelle
  imports Samples_Run
begin

text \<open>
  A model of route-sync, a controller that keeps routes and policy rules of a Linux host in line with
  lists of prefixes, and the theorems about it.

  The program (\<open>src/internal\<close>). A configuration (\<open>config\<close>) names groups: a source of prefixes
  (\<open>source/txt\<close>, \<open>source/ripe\<close>), a target (table, device or gateways, exclusions) and a policy rule.
  For every group \<open>app.BuildPlan\<close> fetches the prefixes, or falls back to those saved by \<open>state\<close>,
  normalises them (\<open>source\<close>), probes and orders the gateways (\<open>health\<close>), lists what the program owns
  (\<open>reconcile/routes\<close>, \<open>reconcile/rules\<close> over the kernel interface \<open>rtnl\<close>) and has \<open>planner\<close> compute
  the routes and rules to add and to remove. \<open>app.reconcileOnce\<close> applies the plan, \<open>app.cleanupOwned\<close>
  removes everything owned, \<open>app.runDaemon\<close> repeats the run on timers and on signals (\<open>signals\<close>), and
  \<open>metrics\<close> holds the counters and gauges.

  Theories and what they model. \<open>Go_Prelude\<close>: strings as byte lists, maps whose range order is a
  parameter, formatting, results. \<open>Netip\<close>, \<open>Netip_Text\<close>: \<open>net/netip\<close>, words for addresses, parsing and
  printing. \<open>Json\<close>, \<open>Go_Url\<close>: the parts of \<open>encoding/json\<close> and \<open>net/url\<close> the program uses. \<open>Source\<close>:
  \<open>source.go\<close> and \<open>aggregate.go\<close>. \<open>Config\<close>: \<open>config.go\<close>. \<open>Rtnl\<close>: \<open>types.go\<close>, \<open>netlink_linux.go\<close>,
  \<open>netlink_unsupported.go\<close>. \<open>Metrics\<close>, \<open>Health\<close>, \<open>Planner\<close>, \<open>State_Store\<close>: the packages of these names.
  \<open>Providers\<close>: \<open>txt.go\<close> and \<open>ripe.go\<close>. \<open>Reconcile\<close>: both reconcilers. \<open>Flags\<close>, \<open>App\<close>: options,
  durations and the runs of \<open>app.go\<close>; \<open>Daemon\<close>: its event loop and commands, and \<open>main.go\<close>;
  \<open>Signals\<close>: \<open>signals.go\<close> and the channels of the loop. Structs are records with the fields of the
  source, errors are values of a sum type with one constructor per message, the kernel, the file system,
  the network and the clock are one state \<open>'w\<close> passed through, and a Go map range is a list in an
  order given from outside, so that what is proved holds for every order.

  What the lemmas show. \<open>Aggregate_Correct\<close>: aggregation and normalisation against the set of addresses
  covered. \<open>Reconcile\<close> (locale \<open>kernel_table\<close>), \<open>Reconcile_Routes\<close>, \<open>Reconcile_Rules\<close>: the reconcilers
  refine a change of a set of entries: old ones less the owned plus the desired, also when an operation
  fails half-way. \<open>Netlink_Table\<close>: what is relied on of the netlink package, as the locales
  \<open>netlink_fib\<close> and \<open>netlink_rules\<close>, that \<open>NetlinkKernel\<close> over it is such a table, and a model of the
  Linux tables that fulfils it. \<open>Host\<close>, \<open>Host_Runs\<close>: the same for the files, commands and network
  calls (locale \<open>quiet_host\<close>), and whole runs over both. \<open>Unstable_Rules\<close>: runs over rules the kernel
  does not list as they were sent. \<open>Gateways\<close>: from configured gateways to the hops and metrics of
  routes, and that gateway addresses take no part in health checks. \<open>Exclusions\<close>: from interface addresses
  to the prefixes kept from the target. \<open>Exposition\<close>: an invariant of the registry along every run (locale
  \<open>registry_invariant\<close>) and the reading of the metrics text. \<open>App_Errors\<close>: which errors can end a run. \<open>Samples\<close>, \<open>Samples_Run\<close>: a host and a
  configuration on which the hypotheses hold, evaluated for the witnesses. This theory states the
  properties, each with a witness where it has hypotheses.

  Bounds. Recursion is structural or has a measure: no fuel is used. The passes of the aggregation loop
  are bounded by the length of its input (\<open>aggregation_ends\<close>). The window of rule priorities is
  computed in 64 bits as in the source, addresses are words of 32 and 128 bits, marks are words of 32
  bits; counts and metrics stay small and are \<open>int\<close> and \<open>nat\<close>.

  Parameters. The netlink package (record \<open>Netlink\<close>), the YAML decoder, the HTTP client, files,
  commands, interface addresses and the clock (record \<open>Env\<close>), and the floating-point product in
  \<open>time.ParseDuration\<close>. Between two events of the daemon the world may change as it likes (\<open>rely\<close>).

  Not modelled. Log lines and what only they use (\<open>routeType\<close>), the log handlers themselves, the HTTP
  server under \<open>metrics.Serve\<close> but for its states and the request it routes, its start in \<open>runDaemon\<close>, the texts of error messages, contexts that
  cancel a call under way, and what \<open>main\<close> prints. Gauges and counters are integers, the only values the program
  sets. A route the kernel does not store as it was sent (metric 0 and throw routes for IPv6, mapped
  IPv4 destinations) is outside the hypotheses of the convergence theorems, and so is a host with other
  programs' routes of that kind. The rule contract asks that a deletion removes the rule of exactly its
  message; Linux takes a selector that a deletion leaves out as a wildcard, so it describes hosts on which
  no other rule of the same table and priority has a selector that the deleted one lacks. The rounding of
  \<open>Duration.Seconds\<close> to \<open>float64\<close> is left out; it matters for ping timeouts above \<open>2^24\<close> seconds.
\<close>

section \<open>Prefix normalisation and aggregation\<close>

text \<open>
  C7. \<open>Normalize\<close> neither loses nor adds an address: whatever prefixes a source delivers, and with
  aggregation on or off, the result covers exactly the addresses of the input, and it is a sorted
  list without duplicates of valid prefixes in masked form.
\<close>

theorem normalize_keeps_addresses:
  assumes "\<forall>p \<in> set ps. pfx_wf p"
  shows "addrs (Normalize ps aggregate) = addrs ps \<and> (\<forall>p \<in> set (Normalize ps aggregate). pfx_ok p)
    \<and> sorted (Normalize ps aggregate) \<and> distinct (Normalize ps aggregate)"
  using Normalize_spec [OF assms] by blast

theorem normalize_keeps_addresses_witness:
  "addrs (Normalize [net_b, net_a, net_b] True) = addrs [net_b, net_a, net_b]
   \<and> sorted (Normalize [net_b, net_a, net_b] True)"
  using normalize_keeps_addresses [of "[net_b, net_a, net_b]" True] by simp

text \<open>
  C8. The aggregated list depends only on the set of addresses: two sources that cover the same
  addresses, however they cut them into prefixes, give the same list, so a refresh that only
  reshuffles a source changes no route.
\<close>

theorem aggregation_canonical:
  assumes "\<forall>p \<in> set ps. pfx_wf p" "\<forall>q \<in> set qs. pfx_wf q" "addrs ps = addrs qs"
  shows "Normalize ps True = Normalize qs True"
  using canonical_unique [OF Normalize_True_canonical(1) [OF assms(1)] Normalize_True_canonical(1) [OF assms(2)]]
    Normalize_True_canonical(2) [OF assms(1)] Normalize_True_canonical(2) [OF assms(2)] assms(3)
  by simp

theorem aggregation_canonical_witness:
  "Normalize [net_a, net_b] True = Normalize [net_b, net_a, net_b] True"
  using aggregation_canonical [of "[net_a, net_b]" "[net_b, net_a, net_b]"] by (simp add: Un_commute Un_left_commute)

text \<open>
  C9. Aggregation is optimal: no list of masked prefixes that covers the same addresses is shorter.
\<close>

theorem aggregation_minimal:
  assumes "\<forall>p \<in> set ps. pfx_wf p" "\<forall>z \<in> set zs. pfx_ok z" "addrs zs = addrs ps"
  shows "length (Normalize ps True) \<le> length zs"
  using canonical_minimal [OF Normalize_True_canonical(1) [OF assms(1)] assms(2)]
    Normalize_True_canonical(2) [OF assms(1)] assms(3) by simp

theorem aggregation_minimal_witness: "length (Normalize [net_b, net_a, net_b] True) \<le> 2"
  using aggregation_minimal [of "[net_b, net_a, net_b]" "[net_a, net_b]"] by (simp add: Un_commute Un_left_commute)

text \<open>
  Filtering by family loses nothing: the prefixes of a list of valid prefixes are those that
  the filters for IPv4 and for IPv6 keep, each once, and the filter for both families keeps all.
\<close>

theorem filter_families:
  assumes "\<forall>p \<in> set ps. Prefix_Addr p \<noteq> AddrZero"
  shows "mset (FilterFamily ps ''ipv4'') + mset (FilterFamily ps ''ipv6'') = mset ps
    \<and> FilterFamily ps ''dual'' = ps \<and> FilterFamily ps '''' = ps"
  using pff.filt_split_families [of ps] assms Is4_Is6(2) by (simp add: pff.filt_dual)

theorem filter_families_witness:
  "mset (FilterFamily [net_a, default6] ''ipv4'') + mset (FilterFamily [net_a, default6] ''ipv6'')
   = {#net_a, default6#}"
  using filter_families [of "[net_a, default6]"] by (simp add: net_a_def default6_def)

section \<open>Text forms\<close>

text \<open>
  A valid prefix printed by \<open>Prefix.String\<close> and read by \<open>netip.ParsePrefix\<close> is the same prefix:
  what the state files and the diff keys hold identifies the prefix.
\<close>

theorem prefix_text_roundtrip:
  assumes "pfx_wf p" "Prefix_IsValid p"
  shows "ParsePrefix (Prefix_String p) = Some p"
  using prefix_codec.parse_print assms by blast

theorem prefix_text_roundtrip_witness: "ParsePrefix (Prefix_String net_b) = Some net_b"
  using prefix_text_roundtrip [of net_b] by simp

text \<open>
  C17. The printed route key identifies the route up to its group and device name: two routes with
  valid destinations have the same key exactly when table, protocol, type, link, gateway, on-link
  flag, metric and destination agree. No two different routes are confused by the separator, even
  with a gateway whose zone holds one.
\<close>

theorem route_key_identifies:
  assumes "pfx_wf (rt_Dst r)" "Prefix_IsValid (rt_Dst r)" "pfx_wf (rt_Dst s)" "Prefix_IsValid (rt_Dst s)"
  shows "routeKey r = routeKey s \<longleftrightarrow>
    rt_Table r = rt_Table s \<and> rt_Protocol r = rt_Protocol s \<and> rt_Type r = rt_Type s
    \<and> rt_LinkIndex r = rt_LinkIndex s \<and> rt_Via r = rt_Via s \<and> rt_OnLink r = rt_OnLink s
    \<and> rt_Metric r = rt_Metric s \<and> rt_Dst r = rt_Dst s"
  using routeKey_iff [OF assms] by (simp add: route_fields_def)

theorem route_key_identifies_witness:
  "routeKey (sample_route net_a) \<noteq> routeKey (sample_route net_b)"
  using route_key_identifies [of "sample_route net_a" "sample_route net_b"]
  by (simp add: sample_route_def net_a_def net_b_def pfx_wf_def Prefix_IsValid_def)

section \<open>Planning\<close>

text \<open>
  C16. A plan is exactly the difference: what is added is desired, what is removed is present, each
  key occurs once, and removing the one and adding the other to the current keys gives the desired
  keys, in whatever order Go ranges over the maps.
\<close>

theorem diff_routes_exact:
  assumes "is_range_order od" "is_range_order oc" "diffRoutes od oc desired current = (add, remove)"
  shows "set add \<subseteq> set desired \<and> set remove \<subseteq> set current
    \<and> distinct (map routeKey add) \<and> distinct (map routeKey remove)
    \<and> (routeKey ` set current - routeKey ` set remove) \<union> routeKey ` set add = routeKey ` set desired
    \<and> routeKey ` set add \<inter> routeKey ` set current = {}
    \<and> routeKey ` set remove \<inter> routeKey ` set desired = {}"
  using route_diff.diff_keys [OF assms] route_diff.diff_applied [OF assms] by auto

theorem diff_routes_exact_witness:
  "set (fst (diffRoutes rev (\<lambda>ks. ks) [sample_route net_a] [sample_route net_b])) \<subseteq> {sample_route net_a}"
  using diff_routes_exact [of rev "\<lambda>ks. ks" "[sample_route net_a]" "[sample_route net_b]"]
  by (cases "diffRoutes rev (\<lambda>ks. ks) [sample_route net_a] [sample_route net_b]") simp

text \<open>
  C24. The order in which Go ranges over the maps changes only the order of a plan's routes, never
  which routes it holds.
\<close>

theorem diff_routes_order:
  assumes "is_range_order od" "is_range_order oc" "is_range_order od'" "is_range_order oc'"
    and "diffRoutes od oc desired current = (add, remove)"
    and "diffRoutes od' oc' desired current = (add', remove')"
  shows "mset add = mset add' \<and> mset remove = mset remove'"
  using route_diff.diff_mset [OF assms] by blast

theorem diff_routes_order_witness:
  "mset (fst (diffRoutes rev rev [sample_route net_a, sample_route net_b] []))
   = mset (fst (diffRoutes (\<lambda>ks. ks) rev [sample_route net_a, sample_route net_b] []))"
  using diff_routes_order [of rev rev "\<lambda>ks. ks" rev "[sample_route net_a, sample_route net_b]" "[]"]
  by (cases "diffRoutes rev rev [sample_route net_a, sample_route net_b] []";
      cases "diffRoutes (\<lambda>ks. ks) rev [sample_route net_a, sample_route net_b] []") simp

section \<open>Reconciliation\<close>

text \<open>
  C2. Reconciliation converges: a plan built from the routes the kernel lists and carried out
  without error leaves the kernel with exactly the routes it had before, less those the groups own
  (their table, the daemon's protocol, their family), plus the desired ones. The netlink package is
  any that keeps the contract \<open>netlink_fib\<close>.
\<close>

theorem routes_converge:
  assumes "netlink_fib nl fib invar" "invar w" "routes_ready nl (fib w) proto gs w"
    and "\<forall>i j. is_range_order (ords i j)"
    and "routes_Apply (NetlinkKernel nl) (plan_Groups (Build ords proto gs)) w = (None, w')"
  shows "fib_entries (fib w') = (fib_entries (fib w) - owned_entries proto gs) \<union> desired_entries proto gs"
  using netlink_fib.fib_after_apply(2) [OF assms] .

theorem routes_converge_witness:
  "fib_entries (linux_fib sample_after) =
     (fib_entries (linux_fib sample_world) - owned_entries 99 [sample_input [stale_route] []])
     \<union> desired_entries 99 [sample_input [stale_route] []]"
  using routes_converge [OF linux_routes.netlink_fib_axioms sample_invar sample_ready _ sample_apply_after] by simp

text \<open>
  C4. An interrupted reconciliation stays within its bounds: even when a kernel operation fails
  half-way, no route outside the owned ones has disappeared and no route but the desired ones has
  appeared.
\<close>

theorem routes_frame:
  assumes "netlink_fib nl fib invar" "invar w" "routes_ready nl (fib w) proto gs w"
    and "\<forall>i j. is_range_order (ords i j)"
    and "routes_Apply (NetlinkKernel nl) (plan_Groups (Build ords proto gs)) w = (e, w')"
  shows "fib_entries (fib w) - owned_entries proto gs \<subseteq> fib_entries (fib w')
    \<and> fib_entries (fib w') \<subseteq> fib_entries (fib w) \<union> desired_entries proto gs"
  using netlink_fib.fib_frame [OF assms] by blast

theorem routes_frame_witness:
  "fib_entries (linux_fib sample_world) - owned_entries 99 [sample_input [stale_route] []]
   \<subseteq> fib_entries (linux_fib sample_after)"
  using routes_frame [OF linux_routes.netlink_fib_axioms sample_invar sample_ready _ sample_apply_after] by simp

text \<open>
  C10. After a successful reconciliation the next plan for the same desired state is empty, so a
  daemon whose sources do not change sends no further route operation.
\<close>

theorem reconcile_idempotent:
  assumes "netlink_fib nl fib invar" "invar w" "routes_ready nl (fib w) proto gs w"
    and "\<forall>i j. is_range_order (ords i j)"
    and "routes_Apply (NetlinkKernel nl) (plan_Groups (Build ords proto gs)) w = (None, w')"
    and "g \<in> set gs" "validateGroup (ig_Config g) = []"
    and "routes_CurrentOwned (NetlinkKernel nl) (group_table g) proto (group_family g) w' = Inr rs"
    and "is_range_order od" "is_range_order oc"
  shows "diffRoutes od oc (desiredRoutes proto g (plan_prefixes g)) rs = ([], [])"
proof -
  have "family_known (group_family g)"
    using validateGroup_fields(3) [OF assms(7)] by (simp add: family_known_def group_family_def)
  from netlink_fib.fib_idempotent [OF assms(1-6) this assms(8-10)] show ?thesis by (simp add: group_desired_def)
qed

theorem reconcile_idempotent_witness:
  "diffRoutes rev rev (desiredRoutes 99 (sample_input [stale_route] []) (plan_prefixes (sample_input [stale_route] [])))
     sample_listed = ([], [])"
  using reconcile_idempotent [OF linux_routes.netlink_fib_axioms sample_invar sample_ready _ sample_apply_after,
      of "sample_input [stale_route] []" sample_listed rev rev]
  by (simp add: sample_group sample_after_owned sample_valid sample_input_config)

text \<open>
  C3. The same for policy rules: a plan carried out without error replaces the owned rules (the
  group's table and priority, inside the configured range) by the desired ones.
\<close>

theorem rules_converge:
  assumes "netlink_rules nl rules invar nfam" "invar w" "rules_ready nl nfam (rules w) base step gs w"
    and "\<forall>i j. is_range_order (ords i j)"
    and "rules_Apply (NetlinkKernel nl) (plan_Groups (Build ords proto gs)) w = (None, w')"
  shows "rule_entries nl (rules w') =
    (rule_entries nl (rules w) - owned_rules base step (rule_entry_family nl nfam) gs) \<union> wanted_rules gs"
  using netlink_rules.rules_after_apply(2) [OF assms] .

theorem rules_converge_witness:
  "\<exists>w'. rule_entries linux_nl (linux_rules w') =
    (rule_entries linux_nl (linux_rules sample_world)
       - owned_rules 1000 10 (rule_entry_family linux_nl linux_rule_family) [sample_input [] []])
    \<union> wanted_rules [sample_input [] []]"
  using rules_converge [OF linux_rules.netlink_rules_axioms sample_invar sample_rules_ready, of "\<lambda>i j ks. ks" 99 "[]"]
    sample_rules_apply [of "[]"] by (metis is_range_order_id(1) prod.collapse)

section \<open>Sources\<close>

text \<open>
  C23. Whatever a server or a file delivers, the prefixes a plan starts from are sound: every group
  that \<open>BuildPlan\<close> takes into a plan is a configured one, and its prefixes are valid, in masked form,
  sorted and without duplicates, whether they were fetched or read back from the state directory.
\<close>

theorem source_prefixes_valid:
  assumes "build_inputs k env cfg (Groups cfg) reg w = (Inr igs, reg', w')" "ig \<in> set igs"
  shows "ig_Config ig \<in> set (Groups cfg) \<and> (\<forall>p \<in> set (ig_Prefixes ig). pfx_ok p)
    \<and> sorted (ig_Prefixes ig) \<and> distinct (ig_Prefixes ig)"
  using build_inputs_groups(1,3) [OF assms(1)] assms(2) by auto

theorem source_prefixes_valid_witness:
  "sample_cfg_group \<in> set (Groups sample_cfg) \<and> sorted (ig_Prefixes (sample_input [stale_route] []))"
  using source_prefixes_valid [OF sample_build, of "sample_input [stale_route] []"] by (simp add: sample_input_config)

text \<open>
  C28. A text list is read back whole: a file with one printed prefix per line, blanks and a comment
  after it or not, gives exactly these prefixes in this order.
\<close>

theorem txt_list_roundtrip:
  assumes "\<forall>e \<in> set es. list_line_ok e"
  shows "txt_Parse (concat (map (\<lambda>(p, k, c). list_line p k c @ [CHR 0x0A]) es)) = map fst es"
  using assms by (rule txt_Parse_list)

theorem txt_list_roundtrip_witness:
  "txt_Parse (list_line net_a 1 ''# office'' @ [CHR 0x0A] @ list_line net_b 0 [] @ [CHR 0x0A]) = [net_a, net_b]"
proof -
  have "\<forall>e \<in> set [(net_a, 1, ''# office''), (net_b, 0, [])]. list_line_ok e"
    by (simp add: list_line_ok_def list_line_def is_comment_char_def net_strings)
  from txt_list_roundtrip [OF this] show ?thesis by simp
qed

section \<open>State\<close>

text \<open>
  C18. What \<open>SaveGroup\<close> has written, \<open>LoadGroup\<close> reads: after a save without error the prefixes come
  back unchanged, through the JSON text of the file, on any file system that returns what was written.
\<close>

theorem state_roundtrip:
  assumes "file_system env" "SaveGroup env s grp sourceType ps w = (None, w')" "\<forall>p \<in> set ps. pfx_ok p"
  shows "\<exists>st. LoadGroup env s grp w' = Inr (ps, st) \<and> Prefixes st = map Prefix_String ps \<and> \<not> FromFallback st"
  using file_system.load_saved [OF assms] .

theorem state_roundtrip_witness:
  "\<exists>w' st. LoadGroup linux_env sample_store ''g'' w' = Inr ([net_a, net_b], st) \<and> Prefixes st = map Prefix_String [net_a, net_b]"
proof -
  obtain w' where "SaveGroup linux_env sample_store ''g'' ''txt'' [net_a, net_b] sample_world = (None, w')"
    using linux_SaveGroup by metis
  from state_roundtrip [OF linux_files.file_system_axioms this] show ?thesis by auto
qed

text \<open>
  C29. Groups do not disturb each other's state: with names that hold no slash, saving one group,
  successfully or not, leaves what another group loads as it was.
\<close>

theorem state_files_separate:
  assumes "file_system env" "CHR ''/'' \<notin> set g" "CHR ''/'' \<notin> set h" "g \<noteq> h"
    and "SaveGroup env s g sourceType ps w = (e, w')" "LoadGroup env s h w = Inr r"
  shows "LoadGroup env s h w' = Inr r"
  using file_system.save_other [OF assms(1,5) _ assms(6)] path_inj [OF assms(3,2)] assms(4) by blast

theorem state_files_separate_witness:
  "\<exists>w r e w'. LoadGroup linux_env sample_store ''b'' w = Inr r
     \<and> SaveGroup linux_env sample_store ''a'' ''txt'' [net_a] w = (e, w') \<and> LoadGroup linux_env sample_store ''b'' w' = Inr r"
proof -
  obtain w where "SaveGroup linux_env sample_store ''b'' ''txt'' [net_b] sample_world = (None, w)"
    using linux_SaveGroup by metis
  then obtain r where r: "LoadGroup linux_env sample_store ''b'' w = Inr r"
    using linux_files.load_saved by (metis empty_set list.set(2) nets_ok(2) singletonD)
  obtain e w' where s: "SaveGroup linux_env sample_store ''a'' ''txt'' [net_a] w = (e, w')" by fastforce
  have "LoadGroup linux_env sample_store ''b'' w' = Inr r"
    by (rule state_files_separate [OF linux_files.file_system_axioms _ _ _ s r]) simp_all
  with r s show ?thesis by blast
qed

text \<open>
  C12. The fallback is the last good answer: when a fetch fails and the group's file is still the one that
  the last successful fetch saved, the plan uses exactly the prefixes of that fetch, marked as fallback.
\<close>

theorem last_known_good:
  assumes "file_system env" "providerFor env g cfg = Inr provider" "Fetch provider w = (Inr raw, w1)"
    and "SaveGroup env (state_New (StateDir (c_Global cfg))) (g_Name g) (sc_Type (g_Source g))
        (Normalize raw (EnablePrefixAggregation (c_Global cfg))) w1 = (None, w2)"
    and "Fetch provider w3 = (Inl e, w4)"
    and "read_file env (path (state_New (StateDir (c_Global cfg))) (g_Name g)) w4 =
        read_file env (path (state_New (StateDir (c_Global cfg))) (g_Name g)) w2"
  shows "obtain_prefixes env cfg g provider reg w = (Some (Normalize raw (EnablePrefixAggregation (c_Global cfg)), False),
      Inc ''source_fetch_success_total'' reg, w2)
    \<and> obtain_prefixes env cfg g provider reg' w3 = (Some (Normalize raw (EnablePrefixAggregation (c_Global cfg)), True),
      Inc ''source_fetch_failure_total'' reg', w4)"
proof (rule conjI)
  let ?ps = "Normalize raw (EnablePrefixAggregation (c_Global cfg))" and ?s = "state_New (StateDir (c_Global cfg))"
  have raw: "\<forall>p \<in> set raw. pfx_wf p" using providerFor_ok [OF assms(2,3)] by (auto simp: pfx_ok_def)
  show "obtain_prefixes env cfg g provider reg w = (Some (?ps, False), Inc ''source_fetch_success_total'' reg, w2)"
    using assms(3,4) by (simp add: obtain_prefixes_def)
  obtain st where "LoadGroup env ?s (g_Name g) w2 = Inr (?ps, st)"
    using file_system.load_saved [OF assms(1,4)] Normalize_spec(1) [OF raw] by blast
  then have "LoadGroup env ?s (g_Name g) w4 = Inr (?ps, st)" using assms(6) by (simp add: LoadGroup_def)
  then show "obtain_prefixes env cfg g provider reg' w3 = (Some (?ps, True), Inc ''source_fetch_failure_total'' reg', w4)"
    using assms(5) Normalize_idem [OF raw] by (simp add: obtain_prefixes_def)
qed

theorem last_known_good_witness:
  "fst (obtain_prefixes linux_env sample_cfg sample_cfg_group sample_provider New_Registry sample_lost) = Some ([net_a], True)"
proof -
  have store: "state_New (StateDir (c_Global sample_cfg)) = sample_store" by (simp add: sample_store_def)
  have "SaveGroup linux_env (state_New (StateDir (c_Global sample_cfg))) (g_Name sample_cfg_group)
      (sc_Type (g_Source sample_cfg_group)) (Normalize [net_a] (EnablePrefixAggregation (c_Global sample_cfg))) sample_world
      = (None, sample_saved)"
    unfolding store using sample_saved(1) by (simp add: sample_Normalize)
  from last_known_good [OF linux_files.file_system_axioms sample_providerFor sample_fetch this sample_lost(1), of New_Registry New_Registry]
  show ?thesis using sample_lost(2) unfolding store by (simp add: sample_Normalize)
qed

section \<open>Runs of the application\<close>

text \<open>
  C1. A whole run of \<open>reconcileOnce\<close> that reports success has brought the kernel to the wanted state:
  fetching, falling back, probing gateways, planning and applying rules and then routes, the routes
  and the policy rules are afterwards those from before, less what the planned groups owned, plus
  what they want. The groups use different tables and their wanted routes are of a kind the kernel
  stores as it is; the host keeps the contract \<open>quiet_host\<close>.
\<close>

theorem reconcile_run_converges:
  assumes "quiet_host nl fib rules invar nfam env" "invar w" "\<forall>i j. is_range_order (ords i j)"
    and "distinct (map table_of (Groups cfg))"
    and "reconcileOnce ords (NetlinkKernel nl) env cfg False reg w = (None, out, reg', w')"
    and "build_inputs (NetlinkKernel nl) env cfg (Groups cfg) reg w = (Inr igs, reg1, w1)"
    and "routes_storable (RouteProtocol (c_Global cfg)) (fib w) igs"
    and "rules_storable nl nfam (rules w) (RulePriorityBase (c_Global cfg)) (RulePriorityStep (c_Global cfg)) igs"
  shows "fib_entries (fib w') = (fib_entries (fib w) - owned_entries (RouteProtocol (c_Global cfg)) igs)
      \<union> desired_entries (RouteProtocol (c_Global cfg)) igs
    \<and> rule_entries nl (rules w') = (rule_entries nl (rules w) - owned_rules (RulePriorityBase (c_Global cfg))
      (RulePriorityStep (c_Global cfg)) (rule_entry_family nl nfam) igs) \<union> wanted_rules igs"
  using quiet_host.reconcile_effect(2,3) [OF assms] by blast

theorem reconcile_run_converges_witness:
  "fib_entries (linux_fib sample_end) = (fib_entries (linux_fib sample_world) - owned_entries 99 [sample_input [stale_route] []])
     \<union> desired_entries 99 [sample_input [stale_route] []]"
proof -
  obtain out reg where run: "reconcileOnce (\<lambda>i j ks. ks) (NetlinkKernel linux_nl) linux_env sample_cfg False New_Registry sample_world =
     (None, out, reg, sample_end)" using sample_run by blast
  have st: "routes_storable (RouteProtocol (c_Global sample_cfg)) (linux_fib sample_world) [sample_input [stale_route] []]"
    "rules_storable linux_nl linux_rule_family (linux_rules sample_world) (RulePriorityBase (c_Global sample_cfg))
       (RulePriorityStep (c_Global sample_cfg)) [sample_input [stale_route] []]"
    using sample_ready sample_rules_ready by (simp_all add: routes_ready_iff rules_ready_iff)
  from reconcile_run_converges [OF linux_host.quiet_host_axioms sample_invar _ _ run sample_build st] show ?thesis by simp
qed

text \<open>
  C5. \<open>cleanup\<close> that reports success has removed exactly what the program owns: every route of a
  group's table with the program's protocol and the group's family, every rule of an enabled group, and
  nothing else.
\<close>

theorem cleanup_removes_owned:
  assumes "quiet_host nl fib rules invar nfam env" "invar w" "distinct (map table_of (Groups cfg))"
    and "cleanupOwned (NetlinkKernel nl) cfg False reg w = (None, out, reg', w')"
  shows "fib_entries (fib w') = fib_entries (fib w) - owned_entries (RouteProtocol (c_Global cfg)) (map config_input (Groups cfg))
    \<and> rule_entries nl (rules w') = rule_entries nl (rules w)
        - owned_rules (RulePriorityBase (c_Global cfg)) (RulePriorityStep (c_Global cfg)) (rule_entry_family nl nfam)
            (map config_input (filter (\<lambda>g. rc_Enabled (g_Rule g)) (Groups cfg)))"
  using quiet_host.cleanup_effect(5,6) [OF assms] by blast

theorem cleanup_removes_owned_witness:
  "\<exists>w'. fib_entries (linux_fib w') = fib_entries (linux_fib sample_world) - owned_entries 99 [config_input sample_cfg_group]"
proof -
  obtain out reg w' where run: "cleanupOwned (NetlinkKernel linux_nl) sample_cfg False New_Registry sample_world = (None, out, reg, w')"
    using sample_cleanup by blast
  from cleanup_removes_owned [OF linux_host.quiet_host_axioms sample_invar _ run] show ?thesis by auto
qed

text \<open>
  C6. A cleanup that fails half-way, at whatever kernel operation, has added nothing and removed
  nothing that the program does not own: every route and every rule that is not owned is still there.
\<close>

theorem cleanup_stays_in_bounds:
  assumes "quiet_host nl fib rules invar nfam env" "invar w" "distinct (map table_of (Groups cfg))"
    and "cleanupOwned (NetlinkKernel nl) cfg False reg w = (err, out, reg', w')"
  shows "fib_entries (fib w) - owned_entries (RouteProtocol (c_Global cfg)) (map config_input (Groups cfg)) \<subseteq> fib_entries (fib w')
    \<and> fib_entries (fib w') \<subseteq> fib_entries (fib w)
    \<and> rule_entries nl (rules w) - owned_rules (RulePriorityBase (c_Global cfg)) (RulePriorityStep (c_Global cfg)) (rule_entry_family nl nfam)
        (map config_input (filter (\<lambda>g. rc_Enabled (g_Rule g)) (Groups cfg))) \<subseteq> rule_entries nl (rules w')
    \<and> rule_entries nl (rules w') \<subseteq> rule_entries nl (rules w)"
  using quiet_host.cleanup_effect(1-4) [OF assms] by blast

theorem cleanup_stays_in_bounds_witness:
  "\<exists>out reg w'. cleanupOwned (NetlinkKernel linux_nl) sample_cfg False New_Registry sample_world = (None, out, reg, w')
     \<and> fib_entries (linux_fib w') \<subseteq> fib_entries (linux_fib sample_world)"
proof -
  obtain out reg w' where run: "cleanupOwned (NetlinkKernel linux_nl) sample_cfg False New_Registry sample_world = (None, out, reg, w')"
    using sample_cleanup by blast
  from cleanup_stays_in_bounds [OF linux_host.quiet_host_axioms sample_invar _ run] run show ?thesis by auto
qed

text \<open>
  C15. A dry run touches neither routes nor rules, whatever happens in it, error or not.
\<close>

theorem dry_run_changes_nothing:
  assumes "quiet_host nl fib rules invar nfam env" "invar w"
    and "reconcileOnce ords (NetlinkKernel nl) env cfg True reg w = (err, out, reg', w')"
  shows "fib w' = fib w \<and> rules w' = rules w"
  using quiet_host.reconcile_dry [OF assms(1,3)] assms(2)
  by (simp add: quiet_host.quiet_def [OF assms(1)] same_routes_def same_rules_def)

theorem dry_run_changes_nothing_witness:
  "linux_fib (snd (snd (snd (reconcileOnce (\<lambda>i j ks. ks) (NetlinkKernel linux_nl) linux_env sample_cfg True New_Registry sample_world))))
   = linux_fib sample_world"
  using dry_run_changes_nothing [OF linux_host.quiet_host_axioms sample_invar]
  by (metis (no_types, lifting) prod.collapse)

section \<open>The daemon\<close>

text \<open>
  C11. The daemon never runs with a bad configuration: started with a configuration that loaded, and after
  any sequence of ticks and reloads, with the world changing in between as it likes, the configuration
  in force passes validation and its intervals are positive.
\<close>

theorem daemon_config_valid:
  assumes "loadConfig env opts w0 = Inr cfg" "daemon_reach rely k env opts cfg reg w (Running active reg' w')"
  shows "Validate active = [] \<and> 0 < RefreshInterval (c_Global active) \<and> 0 < HealthCheckInterval (c_Global active)"
  using daemon_reach_inv [OF assms(2) loadConfig_valid [OF assms(1)]] by (simp add: tickers_ok_def)

theorem daemon_config_valid_witness:
  "\<exists>active reg w. runDaemon (NetlinkKernel linux_nl) sample_conf_env sample_opts (\<lambda>i j ks. ks) [HealthTick (\<lambda>i j ks. ks), Reload (\<lambda>i j ks. ks)]
       sample_cfg New_Registry sample_world = Running active reg w \<and> Validate active = []"
proof -
  let ?evs = "[HealthTick (\<lambda>i j ks. ks), Reload (\<lambda>i j ks. ks)]"
  obtain active reg w where run: "runDaemon (NetlinkKernel linux_nl) sample_conf_env sample_opts (\<lambda>i j ks. ks) ?evs
      sample_cfg New_Registry sample_world = Running active reg w" using sample_daemon by blast
  have "daemon_reach (=) (NetlinkKernel linux_nl) sample_conf_env sample_opts sample_cfg New_Registry sample_world (Running active reg w)"
    using runDaemon_reach [of "(=)"] run by metis
  from daemon_config_valid [OF sample_loads this] run show ?thesis by blast
qed

text \<open>
  A reload that fails, because the file cannot be read, does not decode or does not validate, leaves
  everything as it is: the daemon goes on with the same configuration, registry and world.
\<close>

theorem reload_keeps_valid:
  assumes "loadConfig env opts w = Inl e"
  shows "handle k env opts (Reload ords) active reg w = Running active reg w
    \<and> ValidateReload env active opts w = (active, Some e)"
  using assms by (simp add: handle_def ValidateReload_def)

theorem reload_keeps_valid_witness:
  "handle (NetlinkKernel linux_nl) linux_env zero_Options (Reload (\<lambda>i j ks. ks)) sample_cfg New_Registry sample_world =
     Running sample_cfg New_Registry sample_world"
proof -
  have "loadConfig linux_env zero_Options sample_world = Inl (ReadError ''no such file or directory'')"
    by (simp add: loadConfig_def Load_def zero_Options_def linux_env_def linux_read_def sample_world_def)
  from reload_keeps_valid [OF this] show ?thesis by blast
qed

text \<open>
  The daemon stops when it is told to: from every state in which it runs, the shutdown event leads to
  the end of the loop and nowhere else, after the cleanup when the configuration in force asks for it,
  also when that cleanup fails.
\<close>

theorem daemon_shutdown:
  assumes "daemon_step rely k env opts Done (Running active reg w) s"
  shows "\<exists>w1 reg' w'. rely w w1 \<and> s = Stopped reg' w' \<and>
    (if CleanupOnShutdown (c_Global active)
     then \<exists>err out. cleanupOwned k active (DryRun opts) reg w1 = (err, out, reg', w')
     else reg' = reg \<and> w' = w1)"
proof -
  from assms obtain w1 where w1: "rely w w1" "s = handle k env opts Done active reg w1"
    by (auto simp: daemon_step_simps)
  then show ?thesis
    by (cases "cleanupOwned k active (DryRun opts) reg w1") (auto simp: handle_def)
qed

theorem daemon_shutdown_witness:
  "\<exists>s reg' w'. daemon_step (=) (NetlinkKernel linux_nl) linux_env zero_Options Done (Running sample_cfg New_Registry sample_world) s
     \<and> s = Stopped reg' w'"
proof -
  have "daemon_step (=) (NetlinkKernel linux_nl) linux_env zero_Options Done (Running sample_cfg New_Registry sample_world)
      (handle (NetlinkKernel linux_nl) linux_env zero_Options Done sample_cfg New_Registry sample_world)"
    by (rule daemon_step.intros) simp
  from daemon_shutdown [OF this] this show ?thesis by metis
qed

text \<open>
  C34. A daemon in dry-run mode never changes the kernel: along every sequence of events, reloads and the
  shutdown cleanup included, routes and rules stay what they were, as long as nobody else changes them.
\<close>

theorem daemon_dry_run:
  assumes "quiet_host nl fib rules invar nfam env" "invar w" "DryRun opts"
    and "daemon_reach (\<lambda>v v'. invar v \<longrightarrow> invar v' \<and> same_routes nl fib v v' \<and> same_rules nl rules v v') (NetlinkKernel nl) env opts cfg reg w s"
  shows "case s of Running active r v \<Rightarrow> fib v = fib w \<and> rules v = rules w
    | Stopped r v \<Rightarrow> fib v = fib w \<and> rules v = rules w | Panicked r v \<Rightarrow> fib v = fib w \<and> rules v = rules w"
proof -
  have "daemon_reach (quiet_host.quiet nl fib rules invar) (NetlinkKernel nl) env opts cfg reg w s"
    by (rule daemon_reach_mono [OF _ assms(4)]) (simp add: quiet_host.quiet_def [OF assms(1)])
  from quiet_host.daemon_dry [OF assms(1) this assms(3)] assms(2) show ?thesis
    by (cases s) (simp_all add: quiet_host.quiet_def [OF assms(1)] quiet_host.world.simps [OF assms(1)] same_routes_def same_rules_def)
qed

theorem daemon_dry_run_witness:
  "case runDaemon (NetlinkKernel linux_nl) linux_env (zero_Options\<lparr>DryRun := True\<rparr>) (\<lambda>i j ks. ks) [Done] sample_cfg New_Registry sample_world of
     Running active r v \<Rightarrow> linux_fib v = linux_fib sample_world \<and> linux_rules v = linux_rules sample_world
   | Stopped r v \<Rightarrow> linux_fib v = linux_fib sample_world \<and> linux_rules v = linux_rules sample_world
   | Panicked r v \<Rightarrow> linux_fib v = linux_fib sample_world \<and> linux_rules v = linux_rules sample_world"
proof (rule daemon_dry_run [OF linux_host.quiet_host_axioms sample_invar])
  show "daemon_reach (\<lambda>v v'. linux_invar v \<longrightarrow> linux_invar v' \<and> same_routes linux_nl linux_fib v v' \<and> same_rules linux_nl linux_rules v v')
     (NetlinkKernel linux_nl) linux_env (zero_Options\<lparr>DryRun := True\<rparr>) sample_cfg New_Registry sample_world
     (runDaemon (NetlinkKernel linux_nl) linux_env (zero_Options\<lparr>DryRun := True\<rparr>) (\<lambda>i j ks. ks) [Done] sample_cfg New_Registry sample_world)"
    by (rule runDaemon_reach) (simp add: same_routes_def same_rules_def)
qed simp

section \<open>Gateways\<close>

text \<open>
  C13. Failover works for every prefix: among the routes planned to one destination, one through a gateway
  that answered has a metric more than 1000 below that of any route through a gateway that did not, so
  the kernel uses a dead gateway only when no other is left. Gateways are parsed from the target,
  probed and ordered per family.
\<close>

theorem failover_prefers_healthy:
  assumes "resolveTargetHops k ping grp scope family t reg w = (Inr hops, reg', w')"
    and "h \<in> set (matchingHops hops p)" "h' \<in> set (matchingHops hops p)" "h_Healthy h" "\<not> h_Healthy h'"
  shows "rt_Metric (hop_route proto g p h) + 1000 < rt_Metric (hop_route proto g p h')"
  using resolved_failover [OF assms(1) [unfolded resolveTargetHops_def] assms(2-5)] by (simp add: hop_route_def)

theorem failover_prefers_healthy_witness:
  "\<exists>h \<in> set two_hops. \<exists>h' \<in> set two_hops. h_Dev h = ''eth1'' \<and> h_Dev h' = ''eth0''
     \<and> rt_Metric (hop_route 99 (sample_input [] []) net_a h) + 1000 < rt_Metric (hop_route 99 (sample_input [] []) net_a h')"
proof -
  obtain reg where run: "resolveTargetHops two_links eth1_only ''g'' ''target'' ''ipv4'' two_gateways New_Registry () = (Inr two_hops, reg, ())"
    using two_hops by blast
  obtain h h' where h: "matchingHops two_hops net_a = [h, h']" "h_Healthy h" "\<not> h_Healthy h'" "h_Dev h = ''eth1''" "h_Dev h' = ''eth0''"
    using two_hops_matching by (auto simp: map_eq_Cons_conv)
  then have "set (matchingHops two_hops net_a) = {h, h'}" by simp
  moreover from this have "h \<in> set two_hops" "h' \<in> set two_hops" by (auto simp: matchingHops_set)
  ultimately show ?thesis using failover_prefers_healthy [OF run, of h net_a h' 99 "sample_input [] []"] h by blast
qed

text \<open>
  C14. A health check judges a device, never the gateway. Give the gateways of a target any other addresses of
  the same families, for instance exchange those of two gateways: for every pinger and every world the
  same pings are sent, and the resolved hops have the same order, verdicts, metrics and gauges; only the
  addresses in the hops, and with them in the routes for any prefix, are the new ones. So of two gateways
  on one device it cannot be the one that answers that is preferred.
\<close>

theorem health_ignores_gateway:
  assumes "\<forall>a. Is4 (f a) = Is4 a \<and> Is6 (f a) = Is6 a"
    and "gatewaysFromTarget t' = map (readdress f) (gatewaysFromTarget t)"
  shows "resolveTargetHops k ping grp scope family t' reg w =
      map_prod (map_sum id (map (readdress_hop f))) id (resolveTargetHops k ping grp scope family t reg w)
    \<and> map (hop_route proto g p) (matchingHops (map (readdress_hop f) hops) p) =
        map (\<lambda>r. r\<lparr>rt_Via := f (rt_Via r)\<rparr>) (map (hop_route proto g p) (matchingHops hops p))"
  using resolve_readdress [OF assms(1), of k ping grp scope family "gatewaysFromTarget t" reg w] assms(2)
  by (simp add: resolveTargetHops_def matchingHops_readdress [OF assms(1)] hop_route_def readdress_hop_def base_route_def)

theorem health_ignores_gateway_witness:
  "\<exists>reg. resolveTargetHops two_links eth1_only ''g'' ''target'' ''ipv4'' swapped_gateways New_Registry () =
     (Inr (map (readdress_hop swap_addrs) two_hops), reg, ())"
proof -
  have "\<forall>a. Is4 (swap_addrs a) = Is4 a \<and> Is6 (swap_addrs a) = Is6 a" using swap_addrs by blast
  note same = health_ignores_gateway [OF this swapped_gateways, THEN conjunct1]
  show ?thesis unfolding same using two_hops by auto
qed

text \<open>
  C27. \<open>Select\<close> neither loses nor invents a gateway: the hops are the candidates, each once, in order of
  strictly increasing metrics that stay between 100 and 1100 plus ten per position.
\<close>

theorem select_orders_gateways:
  assumes "Select family scope cs link ping reg w = (Inr out, reg', w')"
  shows "mset (map hop_key out) = mset (map cand_key cs)
    \<and> sorted_wrt (\<lambda>x y. h_Metric x < h_Metric y) out
    \<and> (\<forall>j < length out. 100 + 10 * int j \<le> h_Metric (out ! j) \<and> h_Metric (out ! j) \<le> 1100 + 10 * int j)"
  using Select_keys [OF assms] Select_metrics(1,3) [OF assms] by blast

theorem select_orders_gateways_witness:
  "\<exists>out. length out = 2 \<and> mset (map hop_key out) = mset (map cand_key (gatewaysFromTarget two_gateways))
     \<and> sorted_wrt (\<lambda>x y. h_Metric x < h_Metric y) out"
proof -
  obtain out reg where out: "Select ''ipv4'' ''g.target'' (gatewaysFromTarget two_gateways) (LinkIndexByName two_links) eth1_only New_Registry ()
      = (Inr out, reg, ())" "length out = 2" using two_select by blast
  from select_orders_gateways [OF out(1)] out(2) show ?thesis by blast
qed

text \<open>
  C26. No configured gateway is lost on the way to the routes: for a target that passed validation, with a list
  of gateways or without, the hops are exactly the \<open>via4\<close> and \<open>via6\<close> addresses of its gateways, and the
  \<open>via\<close> of a gateway that has neither, as far as they are of a resolved family, each through the device of
  its gateway or of the target; no address fails to parse, none has the wrong family for its field, and
  no device is missing. A \<open>via\<close> beside \<open>via4\<close> or \<open>via6\<close> is not among them, and a target without a family
  resolves IPv4 only (\<open>in_family\<close>).
\<close>

theorem gateways_all_used:
  assumes "validateGroup g = []"
    and "resolveTargetHops k ping grp scope (tg_Family (g_Target g)) (g_Target g) reg w = (Inr hops, reg', w')"
  shows "(\<lambda>h. (h_Via h, h_Dev h)) ` set hops =
      {(a, gateway_dev (g_Target g) gw) |a gw. gw \<in> set (target_gateways (g_Target g)) \<and> in_family (tg_Family (g_Target g)) a
        \<and> (ParseAddr (gw_Via4 gw) = Some a \<or> ParseAddr (gw_Via6 gw) = Some a
           \<or> gw_Via4 gw = [] \<and> gw_Via6 gw = [] \<and> ParseAddr (gw_Via gw) = Some a)}
    \<and> (\<forall>gw \<in> set (target_gateways (g_Target g)). gateway_dev (g_Target g) gw \<noteq> []
        \<and> (gw_Via4 gw \<noteq> [] \<longrightarrow> (\<exists>a. ParseAddr (gw_Via4 gw) = Some a \<and> Is4 a))
        \<and> (gw_Via6 gw \<noteq> [] \<longrightarrow> (\<exists>a. ParseAddr (gw_Via6 gw) = Some a \<and> Is6 a))
        \<and> (gw_Via gw \<noteq> [] \<longrightarrow> (\<exists>a. ParseAddr (gw_Via gw) = Some a)))"
proof
  let ?t = "g_Target g"
  note wf = validated_target_gateways [OF assms(1)]
  have "(\<lambda>c. (cd_Via c, cd_Dev c)) ` set (gatewaysFromTarget ?t) = (\<Union>gw \<in> set (target_gateways ?t). gateway_pairs ?t gw)"
    using gatewaysFromTarget_pairs wf(1) by blast
  then show "(\<lambda>h. (h_Via h, h_Dev h)) ` set hops =
      {(a, gateway_dev ?t gw) |a gw. gw \<in> set (target_gateways ?t) \<and> in_family (tg_Family ?t) a
        \<and> (ParseAddr (gw_Via4 gw) = Some a \<or> ParseAddr (gw_Via6 gw) = Some a
           \<or> gw_Via4 gw = [] \<and> gw_Via6 gw = [] \<and> ParseAddr (gw_Via gw) = Some a)}"
    unfolding resolve_pairs [OF assms(2) [unfolded resolveTargetHops_def]] by (auto simp: gateway_pairs_def)
  show "\<forall>gw \<in> set (target_gateways ?t). gateway_dev ?t gw \<noteq> []
        \<and> (gw_Via4 gw \<noteq> [] \<longrightarrow> (\<exists>a. ParseAddr (gw_Via4 gw) = Some a \<and> Is4 a))
        \<and> (gw_Via6 gw \<noteq> [] \<longrightarrow> (\<exists>a. ParseAddr (gw_Via6 gw) = Some a \<and> Is6 a))
        \<and> (gw_Via gw \<noteq> [] \<longrightarrow> (\<exists>a. ParseAddr (gw_Via gw) = Some a))"
    using wf by (simp add: addrs_wf_def)
qed

theorem gateways_all_used_witness:
  "\<exists>h \<in> set two_hops. ParseAddr ''10.0.0.2'' = Some (h_Via h) \<and> h_Dev h = ''eth1''"
proof -
  have fam: "tg_Family two_gateways = ''ipv4''" "g_Target two_gateways_group = two_gateways"
    by (simp_all add: two_gateways_def)
  obtain reg where run: "resolveTargetHops two_links eth1_only ''g'' ''target'' (tg_Family (g_Target two_gateways_group))
      (g_Target two_gateways_group) New_Registry () = (Inr two_hops, reg, ())"
    using two_hops by (auto simp: fam)
  have addr: "ParseAddr ''10.0.0.2'' = Some (Addr4 167772162)" by code_simp
  define gw where "gw = tg_Gateways two_gateways ! 1"
  have gw: "gw \<in> set (target_gateways two_gateways)" "gateway_dev two_gateways gw = ''eth1''" "gw_Via4 gw = ''10.0.0.2''"
    by (simp_all add: gw_def target_gateways_def gateway_dev_def two_gateways_def)
  have "in_family (tg_Family two_gateways) (Addr4 167772162)" "ParseAddr (gw_Via4 gw) = Some (Addr4 167772162)"
    using addr by (simp_all add: in_family_def fam gw(3))
  then have "(Addr4 167772162, gateway_dev two_gateways gw) \<in> (\<lambda>h. (h_Via h, h_Dev h)) ` set two_hops"
    unfolding gateways_all_used [OF two_gateways_valid run, THEN conjunct1, unfolded fam(2)] using gw(1) by blast
  then show ?thesis unfolding gw(2) using addr by auto
qed

text \<open>
  C20. Where a route may get a gateway of the other family: for a validated group, every planned route, the
  default routes included, has no gateway or one of the family of its destination, with one exception. A
  target or default with a list of gateways of which no hop serves the family of the destination falls
  back to the addresses written beside the list, and these validation has not looked at.
\<close>

theorem gateway_family_match:
  assumes "validateGroup (ig_Config g) = []" "r \<in> set (desiredRoutes proto g prefixes)"
  shows "\<not> Addr_IsValid (rt_Via r) \<or> Is4 (rt_Via r) = Is4 (Prefix_Addr (rt_Dst r))
    \<or> tg_Gateways (g_Target (ig_Config g)) \<noteq> [] \<and> matchingHops (ig_TargetHops g) (rt_Dst r) = []
        \<and> rt_Via r = routeVia (g_Target (ig_Config g)) (rt_Dst r)
    \<or> (\<exists>d. tg_Default (g_Target (ig_Config g)) = Some d \<and> nh_Gateways d \<noteq> [] \<and> matchingHops (ig_DefaultHops g) (rt_Dst r) = []
        \<and> rt_Via r = nextHopVia d (rt_Dst r))"
  using desiredRoutes_via [OF assms] by (simp add: via_ok_def)

theorem gateway_family_match_witness: "Is4 (rt_Via via_route) = Is4 (Prefix_Addr (rt_Dst via_route))"
proof -
  have "Addr_IsValid (rt_Via via_route)" by (simp add: via_route_def Addr_IsValid_def)
  then show ?thesis
    using gateway_family_match [OF via_input(1), of via_route 99 "[net_a]"] by (simp add: via_input(2-4))
qed

section \<open>Planned routes\<close>

text \<open>
  C21. Every prefix is routed and nothing else. The unicast routes of a group lead to exactly the planned
  prefixes and, if and only if a default is configured, the default prefixes of its family; the throw
  routes to exactly the excluded prefixes of its family; there are no others, and all of them carry the
  group's name, its table and the program's protocol.
\<close>

theorem desired_routes_complete:
  shows "rt_Dst ` {r \<in> set (desiredRoutes proto g prefixes). rt_Type r = RouteTypeUnicast} =
      set prefixes \<union> {p. tg_Default (g_Target (ig_Config g)) \<noteq> None
        \<and> (p = default4 \<and> tg_Family (g_Target (ig_Config g)) \<noteq> ''ipv6'' \<or> p = default6 \<and> tg_Family (g_Target (ig_Config g)) \<noteq> ''ipv4'')}
    \<and> rt_Dst ` {r \<in> set (desiredRoutes proto g prefixes). rt_Type r = RouteTypeThrow} =
      set (FilterFamily (ig_ThrowPrefixes g) (tg_Family (g_Target (ig_Config g))))
    \<and> (\<forall>r \<in> set (desiredRoutes proto g prefixes). rt_Type r \<in> {RouteTypeUnicast, RouteTypeThrow} \<and> rt_Group r = g_Name (ig_Config g)
        \<and> rt_Table r = tg_Table (g_Target (ig_Config g)) \<and> rt_Protocol r = proto)"
  using desiredRoutes_type [of _ proto g prefixes] desiredRoutes_group [of _ proto g prefixes] desiredRoutes_owned [of _ proto g prefixes]
  unfolding desiredRoutes_dsts defaultPrefixes_eq by auto

theorem desired_routes_complete_witness:
  "rt_Dst ` {r \<in> set (desiredRoutes 99 (sample_input [] []) [net_a, net_b]). rt_Type r = RouteTypeUnicast} = {net_a, net_b}"
  using desired_routes_complete [of 99 "sample_input [] []" "[net_a, net_b]"] by (simp add: sample_input_config)

text \<open>
  C22. A prefix that covers an address to be left alone is never routed to the target: of the prefixes of
  the group's family exactly those are planned that contain none of the addresses given for exclusion.
\<close>

theorem local_addresses_skipped:
  assumes "validateGroup (ig_Config g) = []"
  shows "p \<in> set (plan_prefixes g) \<longleftrightarrow>
    p \<in> set (FilterFamily (ig_Prefixes g) (tg_Family (g_Target (ig_Config g))))
    \<and> (\<forall>a \<in> set (ig_CoveredLocalAddrs g). \<not> Contains p a)"
  by (rule plan_prefixes_iff) (use validateGroup_fields(3) [OF assms] in auto)

theorem local_addresses_skipped_witness:
  "net_a \<notin> set (plan_prefixes ((sample_input [] [])\<lparr>ig_CoveredLocalAddrs := [Addr4 167772161]\<rparr>))"
proof -
  have "Contains net_a (Addr4 167772161)" by code_simp
  then show ?thesis
    using local_addresses_skipped [of "(sample_input [] [])\<lparr>ig_CoveredLocalAddrs := [Addr4 167772161]\<rparr>" net_a] sample_valid
    by (simp add: sample_input_config)
qed

text \<open>
  C40. What \<open>exclude_local_ips\<close> keeps from the target are the network addresses of the interfaces, not
  the host's own addresses: \<open>addrPrefix\<close> masks them. For any list of interface addresses exactly those
  prefixes are planned that contain no public network address; a prefix that holds the host's own address
  and not that of its network is planned, and the address alone is planned unless it happens to be the
  public network address of an interface, which an address with host bits is not for its own network.
\<close>

theorem local_ip_not_excluded:
  assumes "validateGroup (ig_Config g) = []" "tg_ExcludeLocalIPs (g_Target (ig_Config g))"
    and "iface_addrs env w = Inr (map NetIPNet ns)" "list_all2 (\<lambda>n (a, b). iface_of n a b) ns nets"
    and "exclusionInputs env (g_Target (ig_Config g)) w = Inr (throws, ig_CoveredLocalAddrs g)"
    and "offered = set (FilterFamily (ig_Prefixes g) (tg_Family (g_Target (ig_Config g))))"
  shows "(p \<in> set (plan_prefixes g) \<longleftrightarrow>
      p \<in> offered \<and> (\<forall>(a, b) \<in> set nets. public_addr (network a b) \<longrightarrow> \<not> Contains p (network a b)))
    \<and> (\<forall>(a, b) \<in> set nets. PrefixFrom a (int (BitLen a)) \<in> set (plan_prefixes g) \<longleftrightarrow>
        PrefixFrom a (int (BitLen a)) \<in> offered \<and> a \<notin> {network c d |c d. (c, d) \<in> set nets \<and> public_addr (network c d)})
    \<and> (\<forall>(a, b) \<in> set nets. network a b = a \<longleftrightarrow> 2 ^ (BitLen a - b) dvd addr_val a)"
proof (intro conjI)
  note planned = planned_beside_ifaces [OF assms(1-5), folded assms(6)]
  show "p \<in> set (plan_prefixes g) \<longleftrightarrow>
      p \<in> offered \<and> (\<forall>(a, b) \<in> set nets. public_addr (network a b) \<longrightarrow> \<not> Contains p (network a b))" by (rule planned)
  show "\<forall>(a, b) \<in> set nets. PrefixFrom a (int (BitLen a)) \<in> set (plan_prefixes g) \<longleftrightarrow>
        PrefixFrom a (int (BitLen a)) \<in> offered \<and> a \<notin> {network c d |c d. (c, d) \<in> set nets \<and> public_addr (network c d)}"
    unfolding planned using own_address_planned [OF assms(4)] by blast
  show "\<forall>(a, b) \<in> set nets. network a b = a \<longleftrightarrow> 2 ^ (BitLen a - b) dvd addr_val a"
    using ifaces_networks [OF assms(4)] iface_addr(4) by blast
qed

theorem local_ip_not_excluded_witness: "MkPrefix (Addr4 134743044) 33 \<in> set (plan_prefixes own_input)"
proof -
  have "\<not> Contains (MkPrefix (Addr4 134743044) 33) (Addr4 134743040)" by code_simp
  then show ?thesis
    using local_ip_not_excluded [where ns = "[own_net]" and nets = "[(Addr4 134743044, 24)]" and p = "MkPrefix (Addr4 134743044) 33",
        OF own_input(1,2) _ _ own_exclusions refl]
    by (simp add: own_iface own_parts own_input FilterFamily_def)
qed

text \<open>
  C25. The plan for policy rules is the exact difference as well, measured by all fields the kernel
  compares: removing and adding what it says turns the current rules into the desired ones, and no rule
  that is wanted is removed and added again.
\<close>

theorem diff_rules_exact:
  assumes "is_range_order od" "is_range_order oc" "diffRules od oc desired current = (add, remove)"
    and "\<forall>r \<in> set desired \<union> set current. pfx_wf (ru_From r) \<and> (ru_From r = PrefixZero \<or> Prefix_IsValid (ru_From r))"
  shows "(rule_fields ` set current - rule_fields ` set remove) \<union> rule_fields ` set add = rule_fields ` set desired
    \<and> rule_fields ` set remove \<inter> rule_fields ` set desired = {} \<and> rule_fields ` set add \<inter> rule_fields ` set current = {}"
  using rule_diff_fields [OF assms] by blast

theorem diff_rules_exact_witness:
  "rule_fields ` set (fst (diffRules rev rev [wanted_rule] [])) = {rule_fields wanted_rule}"
  using diff_rules_exact [of rev rev "[wanted_rule]" "[]"]
  by (cases "diffRules rev rev [wanted_rule] []") (simp add: wanted_rule_def zero_Rule_def pfx_wf_def)

text \<open>
  The gauge \<open>managed_routes\<close> of a group shows the number of its desired routes: current plus added
  minus removed routes, as long as the kernel lists no key twice.
\<close>

theorem managed_routes_gauge_counts:
  assumes "\<forall>j. is_range_order (ords j)" "distinct (map routeKey (ig_CurrentRoutes g))"
  shows "gauge (plan_gauges (build_group ords proto g) reg) (group_gauge_name ''managed_routes'' (g_Name (ig_Config g)))
    = Some (int (card (routeKey ` set (desiredRoutes proto g (plan_prefixes g)))))"
  using assms by (rule managed_routes_gauge)

theorem managed_routes_gauge_counts_witness:
  "gauge (plan_gauges (build_group (\<lambda>j. rev) 99 (sample_input [stale_route] [])) New_Registry) (group_gauge_name ''managed_routes'' ''g'') = Some 1"
  using managed_routes_gauge_counts [of "\<lambda>j. rev" "sample_input [stale_route] []" 99 New_Registry]
    sample_desired [of "[stale_route]" "[]"]
  by (simp add: sample_current sample_input_config group_desired_def)

text \<open>
  C38. A rule that the kernel does not list as it was configured never settles. The kernel keeps of a rule its
  canonical form, with the host bits of \<open>from\<close> cleared and no mark without a mask; when the configured
  rule differs from it, which validation accepts, every successful run turns the rule over: if it was
  installed it is gone afterwards, if not it is there. So it is missing after every second cycle, on any
  host, in any configuration with different tables, as long as the rule lies in the range the program
  counts as its own.
\<close>

theorem unstable_rule_flaps:
  assumes "quiet_host nl fib rules invar nfam env" "invar w" "\<forall>i j. is_range_order (ords i j)"
    and "distinct (map table_of (Groups cfg))" "Validate cfg = []"
    and "reconcileOnce ords (NetlinkKernel nl) env cfg False reg w = (None, out, reg', w')"
    and "build_inputs (NetlinkKernel nl) env cfg (Groups cfg) reg w = (Inr igs, reg1, w1)"
    and "\<forall>h \<in> set igs. \<forall>s \<in> set (desiredRules h). rule_plain (canon_rule s)"
    and "g \<in> set igs" "r \<in> set (desiredRules g)" "rule_fields r \<noteq> rule_fields (canon_rule r)"
    and "rule_fields (canon_rule r) \<in> owned_rules (RulePriorityBase (c_Global cfg)) (RulePriorityStep (c_Global cfg))
      (rule_entry_family nl nfam) [g]"
  shows "rule_fields (canon_rule r) \<in> rule_entries nl (rules w') \<longleftrightarrow> rule_fields (canon_rule r) \<notin> rule_entries nl (rules w)"
  using quiet_host.unstable_rule_run [OF assms] .

theorem unstable_rule_flaps_witness:
  "\<exists>out reg w'. reconcileOnce (\<lambda>i j ks. ks) (NetlinkKernel linux_nl) linux_env flap_cfg False New_Registry sample_world = (None, out, reg, w')
     \<and> rule_fields (canon_rule flap_rule) \<in> rule_entries linux_nl (linux_rules w')"
proof -
  obtain out reg w' where run: "reconcileOnce (\<lambda>i j ks. ks) (NetlinkKernel linux_nl) linux_env flap_cfg False New_Registry sample_world =
     (None, out, reg, w')" using flap_run by blast
  obtain ig reg1 w1 where build: "build_inputs (NetlinkKernel linux_nl) linux_env flap_cfg (Groups flap_cfg) New_Registry sample_world
      = (Inr [ig], reg1, w1)" and ig: "ig_Config ig = flap_group" using flap_build by blast
  have "rule_fields (canon_rule flap_rule) \<in> rule_entries linux_nl (linux_rules w') \<longleftrightarrow>
      rule_fields (canon_rule flap_rule) \<notin> rule_entries linux_nl (linux_rules sample_world)"
    by (rule unstable_rule_flaps [OF linux_host.quiet_host_axioms sample_invar _ _ flap_cfg(1) run build, where g = ig])
      (simp_all add: flap_cfg flap_desired [OF ig] flap_rule_facts(1,2) flap_rule_facts(3) [OF ig])
  then show ?thesis using run by (simp add: rule_entries_def linux_rules_def sample_world_def)
qed

section \<open>Configuration and command line\<close>

text \<open>
  In a valid configuration the rule of every enabled special zone is looked up before the rule of the
  default Russian zone: its priority is strictly smaller.
\<close>

theorem special_zones_first:
  assumes "Validate c = []" "ru_active c" "rc_Enabled (g_Rule (RUDefault (c_Routing c)))"
    and "z \<in> set (SpecialZones c)" "g_Enabled z" "rc_Enabled (g_Rule z)"
  shows "0 < rc_Priority (g_Rule z) \<and> rc_Priority (g_Rule z) < rc_Priority (g_Rule (RUDefault (c_Routing c)))"
proof -
  have "z \<in> set (Groups c)" using assms(4,5) by (auto simp: Groups_def)
  from validateGroup_fields(7) [OF Validate_groups [OF assms(1) this] assms(6)] Validate_special_priority [OF assms]
  show ?thesis by simp
qed

theorem special_zones_first_witness: "rc_Priority (g_Rule sample_cfg_group) < 2000"
  using special_zones_first [OF zones_cfg(1), of sample_cfg_group] by (simp add: zones_cfg)

text \<open>
  C33. Every combination of options can be given on the command line: written as arguments, in the forms with
  one dash or two, with \<open>=\<close> or a separate value, options are read back unchanged.
\<close>

theorem flags_roundtrip:
  assumes "0 \<le> Interval opts" "Interval opts < 2 ^ 63"
  shows "parseFlags frac (flag_args opts) = Inr opts"
  using assms by (rule parseFlags_args)

theorem flags_roundtrip_witness:
  "parseFlags (\<lambda>_ _ _. 0) [''--config=/etc/nets.txt'', ''--dry-run=true'', ''-disable-ru-default=false'', ''--log-format='',
     ''--interval=0ns'', ''--metrics-listen'', '''', ''-cleanup-on-shutdown''] =
   Inr (sample_opts\<lparr>DryRun := True, opt_CleanupOnShutdown := True\<rparr>)"
proof -
  have "Itoa 0 = ''0''" by code_simp
  then show ?thesis
    using flags_roundtrip [of "sample_opts\<lparr>DryRun := True, opt_CleanupOnShutdown := True\<rparr>" "\<lambda>_ _ _. 0"]
    by (simp add: flag_args_def sample_opts_def zero_Options_def fmt_bool_def)
qed

section \<open>Errors\<close>

text \<open>
  C19. With a validated configuration a plan fails only when the kernel or the list of interface addresses
  does. No failing source, unreadable state file, unreachable gateway or malformed list ends a run.
\<close>

theorem plan_errors:
  assumes "Validate cfg = []" "BuildPlan ords k env cfg reg w = (Inl e, reg', w')"
  shows "plan_error e"
  using assms by (rule BuildPlan_errors)

theorem plan_errors_witness:
  "case fst (BuildPlan (\<lambda>i j ks. ks) UnsupportedKernel linux_env sample_cfg New_Registry sample_world) of Inl e \<Rightarrow> plan_error e | Inr p \<Rightarrow> False"
proof -
  obtain e reg w' where run: "BuildPlan (\<lambda>i j ks. ks) UnsupportedKernel linux_env sample_cfg New_Registry sample_world = (Inl e, reg, w')"
    using sample_unsupported by blast
  from plan_errors [OF sample_cfg_valid(1) run] run show ?thesis by simp
qed

text \<open>
  On a system without netlink nothing is reported as done: when a plan can be built at all, it holds
  no group, because every group whose prefixes were obtained ends the run with an error.
\<close>

theorem unsupported_platform:
  assumes "Validate cfg = []" "BuildPlan ords UnsupportedKernel env cfg reg w = (Inr plan, reg', w')"
  shows "plan_Groups plan = []"
proof -
  have valid: "\<forall>g \<in> set (Groups cfg). validateGroup g = []" using Validate_groups [OF assms(1)] by blast
  obtain igs reg1 w1 where igs: "build_inputs UnsupportedKernel env cfg (Groups cfg) reg w = (Inr igs, reg1, w1)"
    "plan = Build ords (RouteProtocol (c_Global cfg)) igs"
    using assms(2) by (auto simp: BuildPlan_def Let_def split: prod.splits sum.splits)
  then show ?thesis using unsupported_build [OF valid igs(1)] by (simp add: Build_def)
qed

theorem unsupported_platform_witness:
  "\<exists>plan. fst (BuildPlan (\<lambda>i j ks. ks) UnsupportedKernel linux_env sample_cfg New_Registry (sample_world\<lparr>ls_files := []\<rparr>)) = Inr plan
     \<and> plan_Groups plan = []"
proof -
  obtain plan reg w' where run: "BuildPlan (\<lambda>i j ks. ks) UnsupportedKernel linux_env sample_cfg New_Registry (sample_world\<lparr>ls_files := []\<rparr>)
      = (Inr plan, reg, w')" using sample_no_groups by blast
  from unsupported_platform [OF sample_cfg_valid(1) run] run show ?thesis by simp
qed

text \<open>
  C35. Errors in the arguments or in the configuration are reported before anything is done: the world is
  as before, nothing has been printed and the exit status is 1.
\<close>

theorem startup_errors:
  assumes "Run frac nl env ords evs version args w = Exited (Some e) out w'" "startup_error e"
  shows "out = [] \<and> w' = w \<and> main (Exited (Some e) out w') = 1"
  using Run_startup_error [OF assms] by (simp add: main_def)

theorem startup_errors_witness:
  "main (Run (\<lambda>_ _ _. 0) linux_nl linux_env (\<lambda>i j ks. ks) [] ''dev'' [''apply''] sample_world) = 1"
  using startup_errors [OF sample_usage] by (simp add: sample_usage)

text \<open>
  C39. Which configurations make the daemon panic. Validation never looks at the two intervals: replacing
  them in a configuration by any others changes nothing about what it finds, and after the defaults one
  of them is not positive exactly when a negative one was written. The daemon panics at its start exactly
  when an interval is not positive, and later exactly when it reloads such a configuration; no other event
  makes it panic.
\<close>

theorem interval_panics:
  "Validate (ApplyDefaults (with_intervals c r h)) = Validate (ApplyDefaults c)
   \<and> (RefreshInterval (c_Global (ApplyDefaults (with_intervals c r h))) \<le> 0
        \<or> HealthCheckInterval (c_Global (ApplyDefaults (with_intervals c r h))) \<le> 0 \<longleftrightarrow> r < 0 \<or> h < 0)
   \<and> ((\<exists>r' w'. daemon_start k env opts ords cfg reg w = Panicked r' w') \<longleftrightarrow>
        RefreshInterval (c_Global cfg) \<le> 0 \<or> HealthCheckInterval (c_Global cfg) \<le> 0)
   \<and> ((\<exists>r' w'. handle k env opts ev active reg w = Panicked r' w') \<longleftrightarrow>
        (\<exists>ords next. ev = Reload ords \<and> loadConfig env opts w = Inr next
           \<and> (RefreshInterval (c_Global next) \<le> 0 \<or> HealthCheckInterval (c_Global next) \<le> 0)))"
  unfolding Validate_intervals ApplyDefaults_intervals daemon_start_panics handle_panics tickers_ok_def
  by (auto simp: not_less)

section \<open>Termination and text forms of the kernel\<close>

text \<open>
  C37. The loop of \<open>Aggregate\<close> ends after at most one pass more than there are prefixes, with the result of
  the model, and the result is no longer than the input.
\<close>

theorem aggregation_ends:
  "Aggregate_passes (Suc (length ps)) ps = Some (Aggregate_loop ps) \<and> length (Aggregate ps) \<le> length ps"
  using Aggregate_passes_enough [of ps "Suc (length ps)"] length_Aggregate by simp

text \<open>
  C36. A destination survives the kernel: a valid prefix turned into an address and a mask for netlink
  and read back is its masked form, except in the block of mapped IPv4 addresses.
\<close>

theorem destination_roundtrip:
  assumes "pfx_wf p" "Prefix_IsValid p" "\<not> Is4In6 (Prefix_Addr (Masked p))"
  shows "ipNetToPrefix (prefixToIPNet p) = Some (Masked p)"
  using assms by (rule ipNetToPrefix_prefixToIPNet)

theorem destination_roundtrip_witness: "ipNetToPrefix (prefixToIPNet net_b) = Some net_b"
proof -
  have "Masked net_b = net_b" using nets_ok(2) by (simp add: pfx_ok_def)
  moreover have "\<not> Is4In6 (Prefix_Addr net_b)" by (simp add: net_b_def)
  ultimately show ?thesis using destination_roundtrip [of net_b] nets_ok by simp
qed

section \<open>Signals\<close>

text \<open>
  C30. A request to stop is never lost: once SIGINT or SIGTERM has arrived, at whatever moment of whatever
  run, the shutdown case of the loop stays ready, and taking it ends the daemon for good, after the
  cleanup when it is configured.
\<close>

theorem daemon_stops_when_told:
  assumes "system_run rely k env opts cfg reg w tr (Running active r v, s)" "terminated tr" "rely v v"
  shows "(\<exists>r' v'. system_step rely k env opts (Event Done) (Running active r v, s) (Stopped r' v', s))
    \<and> (\<forall>c'. system_step rely k env opts (Event Done) (Running active r v, s) c' \<longrightarrow> (\<exists>r' v'. c' = (Stopped r' v', s)))"
proof -
  have ready: "receive Done s = Some s" using system_run_channels(1) [OF assms(1)] assms(2) by simp
  have final: "\<exists>r' v'. d = Stopped r' v'" if "daemon_step rely k env opts Done (Running active r v) d" for d
    using daemon_shutdown_final [OF that] .
  obtain r' v' where "handle k env opts Done active r v = Stopped r' v'"
    using final [OF daemon_step.intros [of rely v v, OF assms(3)]] by blast
  with system_step.event [OF ready daemon_step.intros [of rely v v, OF assms(3)]]
  have "system_step rely k env opts (Event Done) (Running active r v, s) (Stopped r' v', s)" by metis
  moreover have "\<exists>r' v'. c' = (Stopped r' v', s)" if "system_step rely k env opts (Event Done) (Running active r v, s) c'" for c'
    using that final ready by (auto elim!: system_eventE)
  ultimately show ?thesis by blast
qed

theorem daemon_stops_when_told_witness:
  "\<exists>r v r' v' s. system_step (=) (NetlinkKernel linux_nl) linux_env zero_Options (Event Done) (Running sample_cfg r v, s) (Stopped r' v', s)"
proof -
  obtain r v where run: "system_run (=) (NetlinkKernel linux_nl) linux_env zero_Options sample_cfg New_Registry sample_world
     [Signal SIGHUP, Signal SIGHUP, Signal SIGTERM] (Running sample_cfg r v, \<lparr>ctx_done = True, reload_pending = True\<rparr>)"
    using sample_system by blast
  have "terminated [Signal SIGHUP, Signal SIGHUP, Signal SIGTERM]" by (simp add: terminated_def)
  from daemon_stops_when_told [OF run this refl] show ?thesis by blast
qed

text \<open>
  C31. Signals and what the daemon does correspond: a run of the daemon with its signals is a run of its event loop,
  it has stopped only if it was told to, it reloads at most once per SIGHUP, and a SIGHUP after the last
  reload, alone or in a burst, leaves the reload case ready.
\<close>

theorem signals_conserved:
  assumes "system_run rely k env opts cfg reg w tr (d, s)"
  shows "daemon_reach rely k env opts cfg reg w d \<and> (\<forall>r v. d = Stopped r v \<longrightarrow> terminated tr)
    \<and> length (filter is_reload tr) \<le> count_list tr (Signal SIGHUP)
    \<and> (receive (Reload ords) s \<noteq> None \<longleftrightarrow> hangup_open tr)"
  using system_run_daemon [OF assms] system_run_stopped [OF assms] system_run_reloads [OF assms]
    system_run_channels(2) [OF assms] by auto

theorem signals_conserved_witness: "receive (Reload (\<lambda>i j ks. ks)) \<lparr>ctx_done = True, reload_pending = True\<rparr> \<noteq> None"
proof -
  obtain r v where run: "system_run (=) (NetlinkKernel linux_nl) linux_env zero_Options sample_cfg New_Registry sample_world
     [Signal SIGHUP, Signal SIGHUP, Signal SIGTERM] (Running sample_cfg r v, \<lparr>ctx_done = True, reload_pending = True\<rparr>)"
    using sample_system by blast
  have "hangup_open [Signal SIGHUP, Signal SIGHUP, Signal SIGTERM]"
    unfolding hangup_open_def by (intro exI [of _ "[]"] exI [of _ "[Signal SIGHUP, Signal SIGTERM]"]) simp
  with signals_conserved [OF run] show ?thesis by blast
qed

section \<open>Metrics\<close>

text \<open>
  C32. A client reads back what the registry holds: at any time of a daemon's life, through every fetch, probe,
  plan, cleanup and reload, the text served at \<open>/metrics\<close> splits into one line per counter and gauge
  with its name and value, no name occurs twice and no counter is shown before it has counted. Group
  and gateway names with quotes, backslashes, blanks or line breaks do not disturb the lines.
\<close>

theorem metrics_scrape:
  assumes "daemon_reach rely k env opts cfg New_Registry w s" "is_range_order oc" "is_range_order og"
    and "serve_reply (Serve evs) url_path oc og (registry_of s) = Some body"
  shows "scrape body = map Some (exposed oc og (registry_of s)) \<and> distinct (map fst (exposed oc og (registry_of s)))
    \<and> (\<forall>(n, v) \<in> set (counters (registry_of s)). 0 < v) \<and> ContextDone \<notin> set evs"
proof -
  have good: "reg_good (registry_of s)" by (rule good_registry.daemon_P [OF assms(1)])
  have "body = Handler oc og (registry_of s)" "Serve evs = Serving"
    using assms(4) by (auto simp: serve_reply_def split: if_splits)
  then show ?thesis
    using scrape_Handler [OF good assms(2,3)] good Serve_ContextDone [of evs] by (auto simp: reg_good_def reg_inv_def)
qed

theorem metrics_scrape_witness:
  "let s = runDaemon (NetlinkKernel linux_nl) linux_env zero_Options (\<lambda>i j ks. ks) [] sample_cfg New_Registry sample_world in
   scrape (Handler rev rev (registry_of s)) = map Some (exposed rev rev (registry_of s))"
proof -
  let ?s = "runDaemon (NetlinkKernel linux_nl) linux_env zero_Options (\<lambda>i j ks. ks) [] sample_cfg New_Registry sample_world"
  have "daemon_reach (=) (NetlinkKernel linux_nl) linux_env zero_Options sample_cfg New_Registry sample_world ?s"
    by (rule runDaemon_reach) simp
  from metrics_scrape [OF this, of rev rev "[Listen True]" "''/metrics''" "Handler rev rev (registry_of ?s)"]
  show ?thesis by (simp add: Let_def serve_reply_def Serve_def)
qed

end
